(* ===== verification/Prelude.thy ===== *)
theory Prelude
  imports Main "HOL-Library.Word"
begin

text \<open>
  What every component shares: the machine integers of Go as words, byte strings, Go's slice
  expression, and the two collections of facts the component proofs draw on
  (\<open>wire_simps\<close> for the layout of bytes, \<open>model_defs\<close> for unfolding handlers).

  Signed Go integers (int8 .. int64) are kept as words of the same width: the conversions
  \<open>int32(x)\<close> and \<open>uint32(x)\<close> of Go keep the bits, and \<open>sint\<close> reads a word as the
  signed value where the code compares or prints it. Lengths, indices and capacities
  (Go's \<open>int\<close> on slices) are \<open>nat\<close>.
\<close>

unbundle bit_operations_syntax

type_synonym byte = "8 word"
type_synonym u16 = "16 word"
type_synonym u32 = "32 word"
type_synonym u64 = "64 word"

named_theorems wire_simps
named_theorems model_defs

section \<open>Byte strings and slices\<close>

definition bytes_of_string :: "string \<Rightarrow> byte list" where
  "bytes_of_string s = map of_char s"

definition string_of_bytes :: "byte list \<Rightarrow> string" where
  "string_of_bytes bs = map (\<lambda>b. char_of (unat b)) bs"

lemma char_of_unat_of_char [simp]: "char_of (unat (of_char c :: byte)) = c"
proof -
  have lt: "(of_char c :: nat) < 256" by simp
  have "unat (of_char c :: byte) = unat (of_nat (of_char c) :: byte)"
    by (simp only: of_nat_of_char)
  also have "\<dots> = of_char c" using lt by (simp add: unat_of_nat)
  finally show ?thesis by simp
qed

lemma string_of_bytes_of_string [simp]: "string_of_bytes (bytes_of_string s) = s"
  by (induction s) (simp_all add: string_of_bytes_def bytes_of_string_def)

lemma length_bytes_of_string [simp]: "length (bytes_of_string s) = length s"
  by (simp add: bytes_of_string_def)

text \<open>Go's \<open>xs[i:j]\<close>, for \<open>i \<le> j\<close> and \<open>j\<close> within the slice; the callers state the guards.\<close>

definition slice :: "'a list \<Rightarrow> nat \<Rightarrow> nat \<Rightarrow> 'a list" where
  "slice xs i j = take (j - i) (drop i xs)"

lemma slice_prefix:
  assumes "drop i xs = ys @ zs"
  shows "slice xs i (i + length ys) = ys"
  using assms by (simp add: slice_def)

lemma drop_append_bound:
  assumes "drop i xs = ys @ zs" and "ys \<noteq> []"
  shows "i + length ys \<le> length xs"
proof -
  have "length (drop i xs) = length ys + length zs" using assms(1) by simp
  moreover have "0 < length ys" using assms(2) by simp
  ultimately show ?thesis unfolding length_drop by arith
qed

lemma drop_append_shift: "drop i xs = ys @ zs \<Longrightarrow> drop (i + length ys) xs = zs"
  by (metis append_eq_conv_conj drop_drop add.commute)

section \<open>Big-endian bytes of a word\<close>

text \<open>
  A word is rebuilt from its bytes: the shifts and masks the readers apply undo those of the
  writers. One lemma per width, proved bit by bit.
\<close>

lemma bit_byte_at:
  fixes v :: "'a::len word"
  assumes "n < LENGTH('a)"
  shows "bit (push_bit k (ucast (ucast (drop_bit k v) :: byte)) :: 'a word) n
    \<longleftrightarrow> k \<le> n \<and> n < k + 8 \<and> bit v n"
  using assms by (auto simp: bit_simps)

lemma bit_low_byte:
  fixes v :: "'a::len word"
  assumes "n < LENGTH('a)"
  shows "bit (ucast (ucast v :: byte) :: 'a word) n \<longleftrightarrow> n < 8 \<and> bit v n"
  using assms by (auto simp: bit_simps)

lemma join_bytes_16 [wire_simps]:
  "push_bit 8 (ucast (ucast (drop_bit 8 v) :: byte)) OR ucast (ucast v :: byte) = (v :: u16)"
  by (rule bit_word_eqI) (auto simp: bit_or_iff bit_byte_at bit_low_byte)

lemma join_bytes_24 [wire_simps]:
  assumes "unat v < 2 ^ 24"
  shows "push_bit 16 (ucast (ucast (drop_bit 16 v) :: byte))
      OR push_bit 8 (ucast (ucast (drop_bit 8 v) :: byte))
      OR ucast (ucast v :: byte) = (v :: u32)"
proof -
  have "take_bit 24 v = v"
    using assms by (simp add: word_unat_eq_iff unsigned_take_bit_eq take_bit_nat_eq_self)
  then have hi: "bit v n \<Longrightarrow> n < 24" for n
    by (metis bit_take_bit_iff)
  show ?thesis
    by (rule bit_word_eqI) (auto simp: bit_or_iff bit_byte_at bit_low_byte dest: hi)
qed

lemma join_bytes_32 [wire_simps]:
  "push_bit 24 (ucast (ucast (drop_bit 24 v) :: byte))
      OR push_bit 16 (ucast (ucast (drop_bit 16 v) :: byte))
      OR push_bit 8 (ucast (ucast (drop_bit 8 v) :: byte))
      OR ucast (ucast v :: byte) = (v :: u32)"
  by (rule bit_word_eqI) (auto simp: bit_or_iff bit_byte_at bit_low_byte)

lemma join_bytes_64 [wire_simps]:
  "push_bit 56 (ucast (ucast (drop_bit 56 v) :: byte))
      OR push_bit 48 (ucast (ucast (drop_bit 48 v) :: byte))
      OR push_bit 40 (ucast (ucast (drop_bit 40 v) :: byte))
      OR push_bit 32 (ucast (ucast (drop_bit 32 v) :: byte))
      OR push_bit 24 (ucast (ucast (drop_bit 24 v) :: byte))
      OR push_bit 16 (ucast (ucast (drop_bit 16 v) :: byte))
      OR push_bit 8 (ucast (ucast (drop_bit 8 v) :: byte))
      OR ucast (ucast v :: byte) = (v :: u64)"
  by (rule bit_word_eqI) (auto simp: bit_or_iff bit_byte_at bit_low_byte)

lemma split_bytes_16 [wire_simps]:
  "ucast (drop_bit 8 (push_bit 8 (ucast a) OR ucast b :: u16)) = (a :: byte)"
  "ucast (push_bit 8 (ucast a) OR ucast b :: u16) = (b :: byte)"
  by (rule bit_word_eqI; auto simp: bit_simps dest: bit_imp_le_length)+

lemma split_bytes_32 [wire_simps]:
  fixes a b c d :: byte
  defines "v \<equiv> push_bit 24 (ucast a) OR push_bit 16 (ucast b) OR push_bit 8 (ucast c) OR ucast d :: u32"
  shows "ucast (drop_bit 24 v) = a" "ucast (drop_bit 16 v) = b" "ucast (drop_bit 8 v) = c" "ucast v = d"
  unfolding v_def
  by (rule bit_word_eqI; auto simp: bit_simps dest: bit_imp_le_length)+

end
