(* ===== verification/Packet.thy ===== *)
theory Packet
  imports Prelude
begin

text \<open>
  The byte buffer of \<open>protocol/packet.go\<close>: a \<open>Packet\<close> is a growing byte slice with a read
  position. Readers return a value or an error and move the position; writers append.

  A Go reader returns \<open>(ret, err)\<close>. Here its result is an \<open>outcome\<close> (the value, the error
  it names, or a panic: a slice expression out of range) together with the packet after the
  call, since some readers move the position before they fail. Floating point values are
  their IEEE bits, as \<open>math.Float32bits\<close> and \<open>math.Float32frombits\<close> read them.

  The locale \<open>wire_codec\<close> is the contract a writer and a reader of the same kind of value
  keep; every pair of the file is an instance, and the property of whole packets rests on it.
\<close>

section \<open>State and results\<close>

record packet =
  pos :: nat
  data :: "byte list"

datatype read_error =
    ReadByteFailed | ReadBytesHeaderFailed | ReadBytesDataFailed | ReadRestBytesFailed
  | ReadStringHeaderFailed | ReadStringDataFailed
  | ReadU16Failed | ReadU24Failed | ReadU32Failed | ReadU64Failed

datatype 'a outcome = Ret 'a | Err read_error | Panic

definition Data :: "packet \<Rightarrow> byte list" where
  "Data p = data p"

definition Length :: "packet \<Rightarrow> nat" where
  "Length p = length (data p)"

definition NewPacket :: "byte list \<Rightarrow> packet" where
  "NewPacket d = \<lparr>pos = 0, data = d\<rparr>"

definition advance :: "nat \<Rightarrow> packet \<Rightarrow> packet" where
  "advance n p = p\<lparr>pos := pos p + n\<rparr>"

section \<open>Readers\<close>

definition ReadByte :: "packet \<Rightarrow> byte outcome \<times> packet" where
  "ReadByte p =
     (if pos p \<ge> length (data p) then (Err ReadByteFailed, p)
      else (Ret (data p ! pos p), advance 1 p))"

definition ReadBool :: "packet \<Rightarrow> bool outcome \<times> packet" where
  "ReadBool p = apfst (map_outcome (\<lambda>b. b = 1)) (ReadByte p)"

definition ReadU16 :: "packet \<Rightarrow> u16 outcome \<times> packet" where
  "ReadU16 p =
     (if pos p + 2 > length (data p) then (Err ReadU16Failed, p)
      else let buf = slice (data p) (pos p) (pos p + 2)
           in (Ret (push_bit 8 (ucast (buf ! 0)) OR ucast (buf ! 1)), advance 2 p))"

definition ReadBytes :: "packet \<Rightarrow> byte list outcome \<times> packet" where
  "ReadBytes p =
     (if pos p + 2 > length (data p) then (Err ReadBytesHeaderFailed, p)
      else case ReadU16 p of
        (Ret sz, q) \<Rightarrow>
          (if pos q + unat sz > length (data q) then (Err ReadBytesDataFailed, q)
           else (Ret (slice (data q) (pos q) (pos q + unat sz)), advance (unat sz) q))
      | (Err e, q) \<Rightarrow> (Err e, q)
      | (Panic, q) \<Rightarrow> (Panic, q))"

definition ReadRestBytes :: "packet \<Rightarrow> byte list outcome \<times> packet" where
  "ReadRestBytes p =
     (if length (data p) \<le> 0 then (Err ReadRestBytesFailed, p)
      else if pos p > length (data p) then (Panic, p)
      else (Ret (slice (data p) (pos p) (length (data p))), advance (length (data p)) p))"

definition ReadString :: "packet \<Rightarrow> string outcome \<times> packet" where
  "ReadString p =
     (if pos p + 2 > length (data p) then (Err ReadStringHeaderFailed, p)
      else case ReadU16 p of
        (Ret sz, q) \<Rightarrow>
          (if pos q + unat sz > length (data q) then (Err ReadStringDataFailed, q)
           else (Ret (string_of_bytes (slice (data q) (pos q) (pos q + unat sz))),
                 advance (unat sz) q))
      | (Err e, q) \<Rightarrow> (Err e, q)
      | (Panic, q) \<Rightarrow> (Panic, q))"

definition ReadS8 :: "packet \<Rightarrow> byte outcome \<times> packet" where
  "ReadS8 p = ReadByte p"

definition ReadS16 :: "packet \<Rightarrow> u16 outcome \<times> packet" where
  "ReadS16 p = ReadU16 p"

definition ReadU24 :: "packet \<Rightarrow> u32 outcome \<times> packet" where
  "ReadU24 p =
     (if pos p + 3 > length (data p) then (Err ReadU24Failed, p)
      else let buf = slice (data p) (pos p) (pos p + 3)
           in (Ret (push_bit 16 (ucast (buf ! 0)) OR push_bit 8 (ucast (buf ! 1))
                    OR ucast (buf ! 2)), advance 3 p))"

definition ReadS24 :: "packet \<Rightarrow> u32 outcome \<times> packet" where
  "ReadS24 p = ReadU24 p"

definition ReadU32 :: "packet \<Rightarrow> u32 outcome \<times> packet" where
  "ReadU32 p =
     (if pos p + 4 > length (data p) then (Err ReadU32Failed, p)
      else let buf = slice (data p) (pos p) (pos p + 4)
           in (Ret (push_bit 24 (ucast (buf ! 0)) OR push_bit 16 (ucast (buf ! 1))
                    OR push_bit 8 (ucast (buf ! 2)) OR ucast (buf ! 3)), advance 4 p))"

definition ReadS32 :: "packet \<Rightarrow> u32 outcome \<times> packet" where
  "ReadS32 p = ReadU32 p"

text \<open>The loop of \<open>ReadU64\<close> ors byte \<open>i\<close> in at bit \<open>(7 - i) * 8\<close>.\<close>

definition ReadU64 :: "packet \<Rightarrow> u64 outcome \<times> packet" where
  "ReadU64 p =
     (if pos p + 8 > length (data p) then (Err ReadU64Failed, p)
      else let buf = slice (data p) (pos p) (pos p + 8)
           in (Ret (foldl (\<lambda>ret (i, v). ret OR push_bit ((7 - i) * 8) (ucast v))
                     0 (enumerate 0 buf)), advance 8 p))"

definition ReadS64 :: "packet \<Rightarrow> u64 outcome \<times> packet" where
  "ReadS64 p = ReadU64 p"

text \<open>NaN and the infinities are the values whose exponent field is all ones.\<close>

definition not_finite32 :: "u32 \<Rightarrow> bool" where
  "not_finite32 v \<longleftrightarrow> drop_bit 23 v AND 0xFF = 0xFF"

definition not_finite64 :: "u64 \<Rightarrow> bool" where
  "not_finite64 v \<longleftrightarrow> drop_bit 52 v AND 0x7FF = 0x7FF"

definition ReadFloat32 :: "packet \<Rightarrow> u32 outcome \<times> packet" where
  "ReadFloat32 p = apfst (map_outcome (\<lambda>bits. if not_finite32 bits then 0 else bits)) (ReadU32 p)"

definition ReadFloat64 :: "packet \<Rightarrow> u64 outcome \<times> packet" where
  "ReadFloat64 p = apfst (map_outcome (\<lambda>bits. if not_finite64 bits then 0 else bits)) (ReadU64 p)"

section \<open>Writers\<close>

definition append_data :: "byte list \<Rightarrow> packet \<Rightarrow> packet" where
  "append_data bs p = p\<lparr>data := data p @ bs\<rparr>"

definition WriteZeros :: "int \<Rightarrow> packet \<Rightarrow> packet" where
  "WriteZeros n p = (append_data [0] ^^ nat n) p"

definition WriteBool :: "bool \<Rightarrow> packet \<Rightarrow> packet" where
  "WriteBool v p = (if v then append_data [1] p else append_data [0] p)"

definition WritesByte :: "byte \<Rightarrow> packet \<Rightarrow> packet" where
  "WritesByte v p = append_data [v] p"

definition WriteU16 :: "u16 \<Rightarrow> packet \<Rightarrow> packet" where
  "WriteU16 v p = append_data [ucast (drop_bit 8 v), ucast v] p"

definition WriteBytes :: "byte list \<Rightarrow> packet \<Rightarrow> packet" where
  "WriteBytes v p = append_data v (WriteU16 (of_nat (length v)) p)"

definition WriteRawBytes :: "byte list \<Rightarrow> packet \<Rightarrow> packet" where
  "WriteRawBytes v p = append_data v p"

definition WriteString :: "string \<Rightarrow> packet \<Rightarrow> packet" where
  "WriteString v p =
     (let bytes = bytes_of_string v
      in append_data bytes (WriteU16 (of_nat (length bytes)) p))"

definition WriteS8 :: "byte \<Rightarrow> packet \<Rightarrow> packet" where
  "WriteS8 v p = WritesByte v p"

definition WriteS16 :: "u16 \<Rightarrow> packet \<Rightarrow> packet" where
  "WriteS16 v p = WriteU16 v p"

definition WriteU24 :: "u32 \<Rightarrow> packet \<Rightarrow> packet" where
  "WriteU24 v p = append_data [ucast (drop_bit 16 v), ucast (drop_bit 8 v), ucast v] p"

definition WriteU32 :: "u32 \<Rightarrow> packet \<Rightarrow> packet" where
  "WriteU32 v p = append_data [ucast (drop_bit 24 v), ucast (drop_bit 16 v),
                               ucast (drop_bit 8 v), ucast v] p"

definition WriteS32 :: "u32 \<Rightarrow> packet \<Rightarrow> packet" where
  "WriteS32 v p = WriteU32 v p"

definition WriteU64 :: "u64 \<Rightarrow> packet \<Rightarrow> packet" where
  "WriteU64 v p =
     append_data [ucast (drop_bit 56 v), ucast (drop_bit 48 v), ucast (drop_bit 40 v),
                  ucast (drop_bit 32 v), ucast (drop_bit 24 v), ucast (drop_bit 16 v),
                  ucast (drop_bit 8 v), ucast v] p"

definition WriteS64 :: "u64 \<Rightarrow> packet \<Rightarrow> packet" where
  "WriteS64 v p = WriteU64 v p"

definition WriteFloat32 :: "u32 \<Rightarrow> packet \<Rightarrow> packet" where
  "WriteFloat32 f p = WriteU32 f p"

definition WriteFloat64 :: "u64 \<Rightarrow> packet \<Rightarrow> packet" where
  "WriteFloat64 f p = WriteU64 f p"

lemmas writer_defs =
  append_data_def WriteBool_def WritesByte_def WriteU16_def WriteBytes_def
  WriteRawBytes_def WriteString_def WriteS8_def WriteS16_def WriteU24_def WriteU32_def
  WriteS32_def WriteU64_def WriteS64_def WriteFloat32_def WriteFloat64_def

section \<open>The contract of a writer and its reader\<close>

text \<open>
  \<open>enc v\<close> is what the writer appends for \<open>v\<close>, \<open>ok\<close> the values the wire can carry. The
  reader, placed at \<open>enc v\<close>, returns \<open>v\<close> and steps over it.
\<close>

locale wire_codec =
  fixes put :: "'a \<Rightarrow> packet \<Rightarrow> packet"
    and get :: "packet \<Rightarrow> 'a outcome \<times> packet"
    and enc :: "'a \<Rightarrow> byte list"
    and ok :: "'a \<Rightarrow> bool"
  assumes put_data: "put v p = append_data (enc v) p"
    and get_enc: "ok v \<Longrightarrow> drop (pos p) (data p) = enc v @ rest
      \<Longrightarrow> get p = (Ret v, advance (length (enc v)) p)"
begin

lemma get_put:
  assumes "ok v" and "pos p = length (data p)"
  shows "get (put v p) = (Ret v, \<lparr>pos = pos p + length (enc v), data = data p @ enc v\<rparr>)"
  using assms get_enc [of v "put v p" "[]"]
  by (simp add: put_data append_data_def advance_def)

lemma get_at:
  assumes "ok v" and "drop n d = enc v @ rest"
  shows "get \<lparr>pos = n, data = d\<rparr> = (Ret v, \<lparr>pos = n + length (enc v), data = d\<rparr>)"
  using get_enc [of v "\<lparr>pos = n, data = d\<rparr>" rest] assms by (simp add: advance_def)

lemma put_keeps_pos: "pos (put v p) = pos p"
  by (simp add: put_data append_data_def)

lemma put_length: "Length (put v p) = Length p + length (enc v)"
  by (simp add: put_data append_data_def Length_def)

end

text \<open>A value of fixed width: on fewer bytes than that the reader reports an error and stays.\<close>

locale fixed_codec = wire_codec put get enc ok
  for put :: "'a \<Rightarrow> packet \<Rightarrow> packet" and get enc ok +
  fixes width :: nat
  assumes enc_width: "length (enc v) = width"
    and get_short: "length (data p) < pos p + width \<Longrightarrow> \<exists>e. get p = (Err e, p)"
    and get_long: "pos p + width \<le> length (data p) \<Longrightarrow> \<exists>v. get p = (Ret v, advance width p)"
begin

lemma get_bounds: "pos p \<le> length (data p) \<Longrightarrow> pos (snd (get p)) \<le> length (data (snd (get p)))"
  using get_short [of p] get_long [of p]
  by (cases "pos p + width \<le> length (data p)") (fastforce simp: advance_def not_le)+

lemma get_never_panics: "fst (get p) \<noteq> Panic"
  using get_short [of p] get_long [of p]
  by (cases "pos p + width \<le> length (data p)") (fastforce simp: not_le)+

lemma get_keeps_data: "data (snd (get p)) = data p"
  using get_short [of p] get_long [of p]
  by (cases "pos p + width \<le> length (data p)") (fastforce simp: advance_def not_le)+

end

lemma advance_advance: "advance m (advance n p) = advance (n + m) p"
  by (simp add: advance_def)

lemma slice_at:
  fixes p :: packet
  assumes "drop (pos p) (data p) = bs @ rest" and "n = length bs"
  shows "slice (data p) (pos p) (pos p + n) = bs"
  using assms slice_prefix by blast

lemma enough_at:
  fixes p :: packet
  assumes "drop (pos p) (data p) = bs @ rest" and "bs \<noteq> []" and "n = length bs"
  shows "\<not> length (data p) < pos p + n"
  using drop_append_bound [OF assms(1,2)] assms(3) by simp

definition enc_u16 :: "u16 \<Rightarrow> byte list" where
  "enc_u16 v = [ucast (drop_bit 8 v), ucast v]"

definition enc_u24 :: "u32 \<Rightarrow> byte list" where
  "enc_u24 v = [ucast (drop_bit 16 v), ucast (drop_bit 8 v), ucast v]"

definition enc_u32 :: "u32 \<Rightarrow> byte list" where
  "enc_u32 v = [ucast (drop_bit 24 v), ucast (drop_bit 16 v), ucast (drop_bit 8 v), ucast v]"

definition enc_u64 :: "u64 \<Rightarrow> byte list" where
  "enc_u64 v = [ucast (drop_bit 56 v), ucast (drop_bit 48 v), ucast (drop_bit 40 v),
                ucast (drop_bit 32 v), ucast (drop_bit 24 v), ucast (drop_bit 16 v),
                ucast (drop_bit 8 v), ucast v]"

lemma length_encs [simp]:
  "length (enc_u16 v) = 2" "length (enc_u24 w) = 3" "length (enc_u32 w) = 4"
  "length (enc_u64 x) = 8"
  by (simp_all add: enc_u16_def enc_u24_def enc_u32_def enc_u64_def)

lemma encs_neq_Nil [simp]:
  "enc_u16 v \<noteq> []" "enc_u24 w \<noteq> []" "enc_u32 w \<noteq> []" "enc_u64 x \<noteq> []"
  by (simp_all add: enc_u16_def enc_u24_def enc_u32_def enc_u64_def)

interpretation byte_codec: fixed_codec WritesByte ReadByte "\<lambda>v. [v]" "\<lambda>_. True" 1
proof unfold_locales
  fix v rest and p :: packet
  assume at: "drop (pos p) (data p) = [v] @ rest"
  then have "pos p < length (data p)" using drop_append_bound [OF at] by simp
  moreover have "data p ! pos p = v"
    using at calculation by (metis append_Cons append_Nil hd_drop_conv_nth list.sel(1))
  ultimately show "ReadByte p = (Ret v, advance (length [v]) p)"
    by (simp add: ReadByte_def)
qed (simp_all add: WritesByte_def ReadByte_def)

interpretation u16_codec: fixed_codec WriteU16 ReadU16 enc_u16 "\<lambda>_. True" 2
proof unfold_locales
  fix v rest and p :: packet
  assume at: "drop (pos p) (data p) = enc_u16 v @ rest"
  have fits: "\<not> length (data p) < pos p + 2"
    using enough_at [OF at, of 2] by simp
  have buf: "slice (data p) (pos p) (pos p + 2) = enc_u16 v"
    using slice_at [OF at, of 2] by simp
  show "ReadU16 p = (Ret v, advance (length (enc_u16 v)) p)"
    unfolding ReadU16_def buf length_encs using fits by (simp add: enc_u16_def [of v] join_bytes_16)
qed (simp_all add: WriteU16_def ReadU16_def enc_u16_def Let_def)

interpretation u24_codec: fixed_codec WriteU24 ReadU24 enc_u24 "\<lambda>v. unat v < 2 ^ 24" 3
proof unfold_locales
  fix v rest and p :: packet
  assume wide: "unat v < 2 ^ 24" and at: "drop (pos p) (data p) = enc_u24 v @ rest"
  have fits: "\<not> length (data p) < pos p + 3"
    using enough_at [OF at, of 3] by simp
  have buf: "slice (data p) (pos p) (pos p + 3) = enc_u24 v"
    using slice_at [OF at, of 3] by simp
  show "ReadU24 p = (Ret v, advance (length (enc_u24 v)) p)"
    unfolding ReadU24_def buf length_encs using fits wide by (simp add: enc_u24_def [of v] join_bytes_24)
qed (simp_all add: WriteU24_def ReadU24_def enc_u24_def Let_def)

interpretation u32_codec: fixed_codec WriteU32 ReadU32 enc_u32 "\<lambda>_. True" 4
proof unfold_locales
  fix v rest and p :: packet
  assume at: "drop (pos p) (data p) = enc_u32 v @ rest"
  have fits: "\<not> length (data p) < pos p + 4"
    using enough_at [OF at, of 4] by simp
  have buf: "slice (data p) (pos p) (pos p + 4) = enc_u32 v"
    using slice_at [OF at, of 4] by simp
  show "ReadU32 p = (Ret v, advance (length (enc_u32 v)) p)"
    unfolding ReadU32_def buf length_encs using fits by (simp add: enc_u32_def [of v] join_bytes_32)
qed (simp_all add: WriteU32_def ReadU32_def enc_u32_def Let_def)

interpretation u64_codec: fixed_codec WriteU64 ReadU64 enc_u64 "\<lambda>_. True" 8
proof unfold_locales
  fix v rest and p :: packet
  assume at: "drop (pos p) (data p) = enc_u64 v @ rest"
  have fits: "\<not> length (data p) < pos p + 8"
    using enough_at [OF at, of 8] by simp
  have buf: "slice (data p) (pos p) (pos p + 8) = enc_u64 v"
    using slice_at [OF at, of 8] by simp
  show "ReadU64 p = (Ret v, advance (length (enc_u64 v)) p)"
    unfolding ReadU64_def buf length_encs using fits join_bytes_64 [of v]
    by (simp add: enc_u64_def [of v] or.assoc)
qed (simp_all add: WriteU64_def ReadU64_def enc_u64_def Let_def)

interpretation bool_codec: fixed_codec WriteBool ReadBool "\<lambda>v. [if v then 1 else 0]" "\<lambda>_. True" 1
proof unfold_locales
  fix v rest and p :: packet
  assume at: "drop (pos p) (data p) = [if v then 1 else 0] @ rest"
  show "ReadBool p = (Ret v, advance (length [if v then 1 else 0]) p)"
    using byte_codec.get_enc [OF TrueI at] by (simp add: ReadBool_def)
qed (simp_all add: WriteBool_def ReadBool_def ReadByte_def)

text \<open>The signed writers and readers are the unsigned ones: the conversions keep the bits.\<close>

lemma signed_is_unsigned:
  "WriteS8 = WritesByte" "ReadS8 = ReadByte" "WriteS16 = WriteU16" "ReadS16 = ReadU16"
  "WriteS32 = WriteU32" "ReadS32 = ReadU32" "WriteS64 = WriteU64" "ReadS64 = ReadU64"
  "ReadS24 = ReadU24" "WriteFloat32 = WriteU32" "WriteFloat64 = WriteU64"
  by (simp_all add: fun_eq_iff WriteS8_def ReadS8_def WriteS16_def ReadS16_def WriteS32_def
      ReadS32_def WriteS64_def ReadS64_def ReadS24_def WriteFloat32_def WriteFloat64_def)

interpretation s8_codec: fixed_codec WriteS8 ReadS8 "\<lambda>v. [v]" "\<lambda>_. True" 1
  unfolding signed_is_unsigned by (rule byte_codec.fixed_codec_axioms)

interpretation s16_codec: fixed_codec WriteS16 ReadS16 enc_u16 "\<lambda>_. True" 2
  unfolding signed_is_unsigned by (rule u16_codec.fixed_codec_axioms)

interpretation s32_codec: fixed_codec WriteS32 ReadS32 enc_u32 "\<lambda>_. True" 4
  unfolding signed_is_unsigned by (rule u32_codec.fixed_codec_axioms)

interpretation s64_codec: fixed_codec WriteS64 ReadS64 enc_u64 "\<lambda>_. True" 8
  unfolding signed_is_unsigned by (rule u64_codec.fixed_codec_axioms)

interpretation f32_codec: fixed_codec WriteFloat32 ReadFloat32 enc_u32 "\<lambda>v. \<not> not_finite32 v" 4
proof unfold_locales
  fix v rest and p :: packet
  assume "\<not> not_finite32 v" and at: "drop (pos p) (data p) = enc_u32 v @ rest"
  then show "ReadFloat32 p = (Ret v, advance (length (enc_u32 v)) p)"
    using u32_codec.get_enc [OF TrueI at] by (simp add: ReadFloat32_def)
qed (simp_all add: signed_is_unsigned u32_codec.put_data ReadFloat32_def ReadU32_def Let_def)

interpretation f64_codec: fixed_codec WriteFloat64 ReadFloat64 enc_u64 "\<lambda>v. \<not> not_finite64 v" 8
proof unfold_locales
  fix v rest and p :: packet
  assume "\<not> not_finite64 v" and at: "drop (pos p) (data p) = enc_u64 v @ rest"
  then show "ReadFloat64 p = (Ret v, advance (length (enc_u64 v)) p)"
    using u64_codec.get_enc [OF TrueI at] by (simp add: ReadFloat64_def)
qed (simp_all add: signed_is_unsigned u64_codec.put_data ReadFloat64_def ReadU64_def Let_def)

text \<open>
  Length-prefixed values: the prefix is the length modulo 2 to the 16, so reading back gives
  the first \<open>length mod 65536\<close> bytes, and the value itself when it is shorter than that.
\<close>

definition enc_bytes :: "byte list \<Rightarrow> byte list" where
  "enc_bytes v = enc_u16 (of_nat (length v)) @ v"

lemma ReadBytes_at:
  assumes at: "drop (pos p) (data p) = enc_u16 n @ v @ rest" and len: "length v = unat n"
  shows "ReadBytes p = (Ret v, advance (2 + length v) p)"
proof -
  have hdr: "ReadU16 p = (Ret n, advance 2 p)"
    using u16_codec.get_enc [OF TrueI at] by simp
  have at': "drop (pos p + 2) (data p) = v @ rest"
    using drop_append_shift [OF at] by simp
  have fits: "\<not> length (data p) < pos p + 2" "\<not> length (data p) < pos p + 2 + length v"
    using enough_at [OF at, of 2] drop_append_bound [OF at'] by (cases v; simp)+
  have "slice (data p) (pos p + 2) (pos p + 2 + length v) = v"
    by (rule slice_prefix [OF at'])
  with fits show ?thesis
    by (simp add: ReadBytes_def hdr len [symmetric] advance_def ac_simps)
qed

lemma ReadString_ReadBytes:
  "\<exists>f. ReadString p = (f, snd (ReadBytes p)) \<and>
     (case fst (ReadBytes p) of Ret v \<Rightarrow> f = Ret (string_of_bytes v)
      | Err e \<Rightarrow> \<exists>e'. f = Err e' | Panic \<Rightarrow> f = Panic)"
  by (auto simp: ReadString_def ReadBytes_def split: outcome.splits prod.splits)

lemma append_data_append: "append_data b (append_data a p) = append_data (a @ b) p"
  by (simp add: append_data_def)

interpretation bytes_codec: wire_codec WriteBytes ReadBytes enc_bytes "\<lambda>v. length v < 65536"
proof unfold_locales
  fix v rest and p :: packet
  assume "length v < 65536" and at: "drop (pos p) (data p) = enc_bytes v @ rest"
  then have "length v = unat (of_nat (length v) :: u16)"
    by (simp add: unat_of_nat)
  then show "ReadBytes p = (Ret v, advance (length (enc_bytes v)) p)"
    using ReadBytes_at [of p "of_nat (length v)" v rest] at by (simp add: enc_bytes_def)
qed (simp add: WriteBytes_def u16_codec.put_data append_data_append enc_bytes_def)

interpretation string_codec:
  wire_codec WriteString ReadString "\<lambda>v. enc_bytes (bytes_of_string v)" "\<lambda>v. length v < 65536"
proof unfold_locales
  fix v rest and p :: packet
  assume "length v < 65536" and at: "drop (pos p) (data p) = enc_bytes (bytes_of_string v) @ rest"
  then show "ReadString p = (Ret v, advance (length (enc_bytes (bytes_of_string v))) p)"
    using bytes_codec.get_enc [OF _ at] ReadString_ReadBytes [of p] by auto
qed (simp add: WriteString_def Let_def u16_codec.put_data append_data_append enc_bytes_def)

section \<open>Whole packets\<close>

text \<open>
  A message is written by a sequence of writers and read by the sequence of the matching
  readers; a \<open>field\<close> is one such value and a \<open>kind\<close> says which reader is called.
\<close>

datatype field =
    FBool bool | FByte byte | FBytes "byte list" | FString string | FS8 byte | FU16 u16 | FS16 u16
  | FU24 u32 | FU32 u32 | FS32 u32 | FU64 u64 | FS64 u64 | FFloat32 u32 | FFloat64 u64

datatype kind =
    KBool | KByte | KBytes | KString | KS8 | KU16 | KS16
  | KU24 | KU32 | KS32 | KU64 | KS64 | KFloat32 | KFloat64

fun kind_of :: "field \<Rightarrow> kind" where
  "kind_of (FBool _) = KBool"
| "kind_of (FByte _) = KByte"
| "kind_of (FBytes _) = KBytes"
| "kind_of (FString _) = KString"
| "kind_of (FS8 _) = KS8"
| "kind_of (FU16 _) = KU16"
| "kind_of (FS16 _) = KS16"
| "kind_of (FU24 _) = KU24"
| "kind_of (FU32 _) = KU32"
| "kind_of (FS32 _) = KS32"
| "kind_of (FU64 _) = KU64"
| "kind_of (FS64 _) = KS64"
| "kind_of (FFloat32 _) = KFloat32"
| "kind_of (FFloat64 _) = KFloat64"

fun write_field :: "field \<Rightarrow> packet \<Rightarrow> packet" where
  "write_field (FBool v) = WriteBool v"
| "write_field (FByte v) = WritesByte v"
| "write_field (FBytes v) = WriteBytes v"
| "write_field (FString v) = WriteString v"
| "write_field (FS8 v) = WriteS8 v"
| "write_field (FU16 v) = WriteU16 v"
| "write_field (FS16 v) = WriteS16 v"
| "write_field (FU24 v) = WriteU24 v"
| "write_field (FU32 v) = WriteU32 v"
| "write_field (FS32 v) = WriteS32 v"
| "write_field (FU64 v) = WriteU64 v"
| "write_field (FS64 v) = WriteS64 v"
| "write_field (FFloat32 v) = WriteFloat32 v"
| "write_field (FFloat64 v) = WriteFloat64 v"

fun read_kind :: "kind \<Rightarrow> packet \<Rightarrow> field outcome \<times> packet" where
  "read_kind KBool p = apfst (map_outcome FBool) (ReadBool p)"
| "read_kind KByte p = apfst (map_outcome FByte) (ReadByte p)"
| "read_kind KBytes p = apfst (map_outcome FBytes) (ReadBytes p)"
| "read_kind KString p = apfst (map_outcome FString) (ReadString p)"
| "read_kind KS8 p = apfst (map_outcome FS8) (ReadS8 p)"
| "read_kind KU16 p = apfst (map_outcome FU16) (ReadU16 p)"
| "read_kind KS16 p = apfst (map_outcome FS16) (ReadS16 p)"
| "read_kind KU24 p = apfst (map_outcome FU24) (ReadU24 p)"
| "read_kind KU32 p = apfst (map_outcome FU32) (ReadU32 p)"
| "read_kind KS32 p = apfst (map_outcome FS32) (ReadS32 p)"
| "read_kind KU64 p = apfst (map_outcome FU64) (ReadU64 p)"
| "read_kind KS64 p = apfst (map_outcome FS64) (ReadS64 p)"
| "read_kind KFloat32 p = apfst (map_outcome FFloat32) (ReadFloat32 p)"
| "read_kind KFloat64 p = apfst (map_outcome FFloat64) (ReadFloat64 p)"

text \<open>What the wire can carry: prefixed values below 65536 bytes, 24-bit values, finite floats.\<close>

fun field_ok :: "field \<Rightarrow> bool" where
  "field_ok (FBytes v) = (length v < 65536)"
| "field_ok (FString v) = (length v < 65536)"
| "field_ok (FU24 v) = (unat v < 2 ^ 24)"
| "field_ok (FFloat32 v) = (\<not> not_finite32 v)"
| "field_ok (FFloat64 v) = (\<not> not_finite64 v)"
| "field_ok _ = True"

fun field_enc :: "field \<Rightarrow> byte list" where
  "field_enc (FBool v) = [if v then 1 else 0]"
| "field_enc (FByte v) = [v]"
| "field_enc (FBytes v) = enc_bytes v"
| "field_enc (FString v) = enc_bytes (bytes_of_string v)"
| "field_enc (FS8 v) = [v]"
| "field_enc (FU16 v) = enc_u16 v"
| "field_enc (FS16 v) = enc_u16 v"
| "field_enc (FU24 v) = enc_u24 v"
| "field_enc (FU32 v) = enc_u32 v"
| "field_enc (FS32 v) = enc_u32 v"
| "field_enc (FU64 v) = enc_u64 v"
| "field_enc (FS64 v) = enc_u64 v"
| "field_enc (FFloat32 v) = enc_u32 v"
| "field_enc (FFloat64 v) = enc_u64 v"

definition write_fields :: "field list \<Rightarrow> packet \<Rightarrow> packet" where
  "write_fields fs p = fold write_field fs p"

fun read_fields :: "kind list \<Rightarrow> packet \<Rightarrow> field list outcome \<times> packet" where
  "read_fields [] p = (Ret [], p)"
| "read_fields (k # ks) p =
     (case read_kind k p of
        (Ret f, q) \<Rightarrow> apfst (map_outcome ((#) f)) (read_fields ks q)
      | (Err e, q) \<Rightarrow> (Err e, q)
      | (Panic, q) \<Rightarrow> (Panic, q))"

lemmas codec_puts =
  bool_codec.put_data byte_codec.put_data bytes_codec.put_data string_codec.put_data
  s8_codec.put_data u16_codec.put_data s16_codec.put_data u24_codec.put_data
  u32_codec.put_data s32_codec.put_data u64_codec.put_data s64_codec.put_data
  f32_codec.put_data f64_codec.put_data

lemmas codec_gets =
  bool_codec.get_enc byte_codec.get_enc bytes_codec.get_enc string_codec.get_enc
  s8_codec.get_enc u16_codec.get_enc s16_codec.get_enc u24_codec.get_enc
  u32_codec.get_enc s32_codec.get_enc u64_codec.get_enc s64_codec.get_enc
  f32_codec.get_enc f64_codec.get_enc

lemma write_field_enc: "write_field f p = append_data (field_enc f) p"
  by (cases f) (simp_all add: codec_puts)

lemma read_kind_enc:
  assumes "field_ok f" and "drop (pos p) (data p) = field_enc f @ rest"
  shows "read_kind (kind_of f) p = (Ret f, advance (length (field_enc f)) p)"
  using assms by (cases f) (auto dest: codec_gets [rotated] simp del: append_Cons)

lemma write_fields_enc: "write_fields fs p = append_data (concat (map field_enc fs)) p"
  unfolding write_fields_def
  by (induction fs arbitrary: p)
    (simp_all add: write_field_enc append_data_append, simp add: append_data_def)

lemma read_fields_enc:
  assumes "list_all field_ok fs" and "drop (pos p) (data p) = concat (map field_enc fs) @ rest"
  shows "read_fields (map kind_of fs) p
    = (Ret fs, advance (length (concat (map field_enc fs))) p)"
  using assms
proof (induction fs arbitrary: p)
  case Nil
  then show ?case by (simp add: advance_def)
next
  case (Cons f fs)
  let ?tail = "concat (map field_enc fs) @ rest"
  have at: "drop (pos p) (data p) = field_enc f @ ?tail" using Cons.prems(2) by simp
  have hd: "read_kind (kind_of f) p = (Ret f, advance (length (field_enc f)) p)"
    using read_kind_enc [OF _ at] Cons.prems(1) by simp
  have "drop (pos (advance (length (field_enc f)) p)) (data (advance (length (field_enc f)) p)) = ?tail"
    using drop_append_shift [OF at] by (simp add: advance_def)
  then show ?case
    using Cons.IH Cons.prems(1) hd by (simp add: advance_advance)
qed

section \<open>Readers on arbitrary bytes\<close>

definition in_bounds :: "packet \<Rightarrow> bool" where
  "in_bounds p \<longleftrightarrow> pos p \<le> length (data p)"

definition safe_result :: "packet \<Rightarrow> 'a outcome \<times> packet \<Rightarrow> bool" where
  "safe_result p r \<longleftrightarrow> fst r \<noteq> Panic \<and> data (snd r) = data p \<and> pos p \<le> pos (snd r) \<and> in_bounds (snd r)"

lemma safe_result_map: "safe_result p (apfst (map_outcome f) r) = safe_result p r"
  by (cases r; cases "fst r") (auto simp: safe_result_def)

lemma safe_fixed:
  assumes "in_bounds p"
    and "\<And>p :: packet. length (data p) < pos p + w \<Longrightarrow> \<exists>e. get p = (Err e, p)"
    and "\<And>p. pos p + w \<le> length (data p) \<Longrightarrow> \<exists>v. get p = (Ret v, advance w p)"
  shows "safe_result p (get p)"
  using assms by (cases "pos p + w \<le> length (data p)")
    (fastforce simp: safe_result_def in_bounds_def advance_def not_le)+

lemma safe_readers:
  assumes "in_bounds p"
  shows "safe_result p (ReadBool p)" "safe_result p (ReadByte p)" "safe_result p (ReadS8 p)"
    "safe_result p (ReadU16 p)" "safe_result p (ReadS16 p)" "safe_result p (ReadU24 p)"
    "safe_result p (ReadU32 p)" "safe_result p (ReadS32 p)" "safe_result p (ReadU64 p)"
    "safe_result p (ReadS64 p)" "safe_result p (ReadFloat32 p)" "safe_result p (ReadFloat64 p)"
  by (rule safe_fixed [OF assms bool_codec.get_short bool_codec.get_long], assumption+
    | rule safe_fixed [OF assms byte_codec.get_short byte_codec.get_long], assumption+
    | rule safe_fixed [OF assms s8_codec.get_short s8_codec.get_long], assumption+
    | rule safe_fixed [OF assms u16_codec.get_short u16_codec.get_long], assumption+
    | rule safe_fixed [OF assms s16_codec.get_short s16_codec.get_long], assumption+
    | rule safe_fixed [OF assms u24_codec.get_short u24_codec.get_long], assumption+
    | rule safe_fixed [OF assms u32_codec.get_short u32_codec.get_long], assumption+
    | rule safe_fixed [OF assms s32_codec.get_short s32_codec.get_long], assumption+
    | rule safe_fixed [OF assms u64_codec.get_short u64_codec.get_long], assumption+
    | rule safe_fixed [OF assms s64_codec.get_short s64_codec.get_long], assumption+
    | rule safe_fixed [OF assms f32_codec.get_short f32_codec.get_long], assumption+
    | rule safe_fixed [OF assms f64_codec.get_short f64_codec.get_long], assumption+)+

lemma safe_ReadBytes:
  assumes "in_bounds p"
  shows "safe_result p (ReadBytes p)"
proof (cases "pos p + 2 \<le> length (data p)")
  case True
  then obtain n where "ReadU16 p = (Ret n, advance 2 p)" using u16_codec.get_long by blast
  with True show ?thesis
    by (auto simp: ReadBytes_def safe_result_def in_bounds_def advance_def)
next
  case False
  with assms show ?thesis by (auto simp: ReadBytes_def safe_result_def in_bounds_def)
qed

lemma safe_ReadString:
  assumes "in_bounds p"
  shows "safe_result p (ReadString p)"
  using safe_ReadBytes [OF assms] ReadString_ReadBytes [of p]
  by (cases "fst (ReadBytes p)") (auto simp: safe_result_def)

lemma safe_read_kind: "in_bounds p \<Longrightarrow> safe_result p (read_kind k p)"
  by (cases k) (simp_all add: safe_result_map safe_readers safe_ReadBytes safe_ReadString)

lemma safe_read_fields: "in_bounds p \<Longrightarrow> safe_result p (read_fields ks p)"
proof (induction ks arbitrary: p)
  case Nil
  then show ?case by (simp add: safe_result_def)
next
  case (Cons k ks)
  obtain r q where rq: "read_kind k p = (r, q)" by force
  have q: "safe_result p (r, q)" using safe_read_kind [OF Cons.prems] rq by metis
  then have "safe_result q (read_fields ks q)" using Cons.IH by (simp add: safe_result_def)
  with q show ?case
    by (cases r; cases "read_fields ks q"; cases "fst (read_fields ks q)")
      (auto simp: rq safe_result_def)
qed

section \<open>Properties\<close>

text \<open>
  C13: a message written field by field, by any sequence of writers, is read back by the
  matching readers in the same order: the same values, with the position at the end of the
  data. The fields are those the wire can carry (\<open>field_ok\<close>).
\<close>

theorem packet_stream_roundtrip:
  assumes "list_all field_ok fs"
  shows "read_fields (map kind_of fs) (NewPacket (Data (write_fields fs (NewPacket []))))
    = (Ret fs, \<lparr>pos = Length (write_fields fs (NewPacket [])),
                data = Data (write_fields fs (NewPacket []))\<rparr>)"
  using read_fields_enc [OF assms, of "NewPacket (concat (map field_enc fs))" "[]"]
  by (simp add: write_fields_enc NewPacket_def Data_def Length_def append_data_def advance_def)

theorem packet_stream_roundtrip_witness:
  "read_fields [KU16, KString, KBool, KU24]
     (NewPacket (Data (write_fields [FU16 258, FString ''ab'', FBool True, FU24 70000] (NewPacket []))))
   = (Ret [FU16 258, FString ''ab'', FBool True, FU24 70000], \<lparr>pos = 10, data = Data
      (write_fields [FU16 258, FString ''ab'', FBool True, FU24 70000] (NewPacket []))\<rparr>)"
  using packet_stream_roundtrip [of "[FU16 258, FString ''ab'', FBool True, FU24 70000]"]
  by (simp add: write_fields_enc Length_def append_data_def NewPacket_def enc_bytes_def)

text \<open>
  C23: parsing untrusted bytes is safe. Whatever the bytes and whatever sequence of readers
  is applied (all but \<open>ReadRestBytes\<close>), no reader panics, the data is not changed and the
  position never leaves the data.
\<close>

theorem readers_never_leave_the_packet:
  "fst (read_fields ks (NewPacket d)) \<noteq> Panic
   \<and> data (snd (read_fields ks (NewPacket d))) = d
   \<and> pos (snd (read_fields ks (NewPacket d))) \<le> length d"
  using safe_read_fields [of "NewPacket d" ks]
  by (auto simp: safe_result_def in_bounds_def NewPacket_def)

text \<open>
  A byte string of any length, written with its 16-bit length prefix and read back,
  gives its first \<open>length mod 65536\<close> bytes: the value itself below 65536 bytes, and a
  silently shortened one from there on, since \<open>WriteBytes\<close> does not check the length.
\<close>

lemma WriteBytes_ReadBytes:
  "fst (ReadBytes (NewPacket (Data (WriteBytes v (NewPacket [])))))
   = Ret (take (length v mod 65536) v)"
proof -
  let ?n = "of_nat (length v) :: u16" and ?k = "length v mod 65536"
  have n: "unat ?n = ?k" by (simp add: unat_of_nat)
  have "drop 0 (enc_u16 ?n @ v) = enc_u16 ?n @ take ?k v @ drop ?k v" by simp
  from ReadBytes_at [of "NewPacket (enc_u16 ?n @ v)" ?n "take ?k v" "drop ?k v"] this n
  show ?thesis
    by (simp add: NewPacket_def Data_def WriteBytes_def u16_codec.put_data append_data_def)
qed

text \<open>
  \<open>ReadRestBytes\<close> steps by the length of the whole data instead of the rest. Called on a
  partly read packet it leaves the position beyond the end, and calling it again panics.
\<close>

lemma ReadRestBytes_overshoots:
  assumes "0 < pos p" and "pos p \<le> length (data p)"
  shows "\<exists>rest q. ReadRestBytes p = (Ret rest, q) \<and> rest = drop (pos p) (data p)
    \<and> length (data q) < pos q \<and> fst (ReadRestBytes q) = Panic"
  using assms by (auto simp: ReadRestBytes_def slice_def advance_def)

lemma ReadRestBytes_overshoots_witness:
  "\<exists>rest q. ReadRestBytes \<lparr>pos = 1, data = [7, 8, 9]\<rparr> = (Ret rest, q)
    \<and> rest = drop 1 [7, 8, 9] \<and> 3 < pos q \<and> fst (ReadRestBytes q) = Panic"
  using ReadRestBytes_overshoots [of "\<lparr>pos = 1, data = [7, 8, 9]\<rparr>"]
  by (auto simp: ReadRestBytes_def slice_def advance_def)

text \<open>
  \<open>ReadS24\<close> does not sign-extend: the three bytes are read as an unsigned value and
  converted, so no 24-bit value is ever read as negative.
\<close>

lemma ReadS24_never_negative:
  assumes "ReadS24 p = (Ret v, q)"
  shows "0 \<le> sint v \<and> sint v < 2 ^ 24"
proof -
  obtain a b c :: byte where v: "v = push_bit 16 (ucast a) OR push_bit 8 (ucast b) OR ucast c"
    using assms by (auto simp: ReadS24_def ReadU24_def Let_def split: if_splits)
  have small: "\<not> bit v n" if "24 \<le> n" for n
    using that bit_imp_le_length [of a "n - 16"] bit_imp_le_length [of b "n - 8"]
      bit_imp_le_length [of c n]
    by (auto simp: v bit_simps)
  then have "bit v n \<Longrightarrow> n < 24" for n using not_le by blast
  then have "take_bit 24 v = v"
    by (intro bit_word_eqI) (auto simp: bit_take_bit_iff)
  then have u: "uint v < 2 ^ 24"
    by (metis unsigned_take_bit_eq take_bit_int_less_exp)
  have "\<not> bit v 31" by (rule small) simp
  then have "\<not> bit (uint v) 31" unfolding bit_uint_iff by blast
  then have "signed_take_bit 31 (uint v) = take_bit 31 (uint v)"
    by (rule signed_take_bit_eq_if_positive)
  also have "\<dots> = uint v" by (rule take_bit_int_eq_self) (use u in simp_all)
  finally have "sint v = uint v" by (simp add: sint_uint)
  with u show ?thesis by simp
qed

lemma ReadS24_never_negative_witness:
  "ReadS24 \<lparr>pos = 0, data = [255, 255, 255]\<rparr> = (Ret 16777215, \<lparr>pos = 3, data = [255, 255, 255]\<rparr>)
   \<and> 0 \<le> sint (16777215 :: u32) \<and> sint (16777215 :: u32) < 2 ^ 24"
proof -
  have r: "ReadS24 \<lparr>pos = 0, data = [255, 255, 255]\<rparr>
      = (Ret 16777215, \<lparr>pos = 3, data = [255, 255, 255]\<rparr>)"
    by (simp add: ReadS24_def ReadU24_def slice_def advance_def)
  show ?thesis using r ReadS24_never_negative [OF r] by simp
qed

end
