(* ===== verification/Messages.thy ===== *)
theory Messages
  imports Packet
begin

text \<open>
  The messages of \<open>protocol/packet.go\<close>: \<open>CSMessage\<close> between client and gate, \<open>SSMessage\<close>
  between servers, and \<open>SSMessageBody\<close>, the body an \<open>SSMessage\<close> usually carries.

  \<open>UnMarshal\<close> fills its receiver field by field and stops at the first error, with the field
  at hand set to its zero value; the model passes the receiver and returns it with the
  result. \<open>read_into\<close> is one \<open>field, err = reader.Read..(); if err != nil return err\<close>.
  A marshaller never returns an error; it returns \<open>Ret\<close>.
\<close>

definition PACKET_LIMIT :: nat where
  "PACKET_LIMIT = 65535"

definition MsgHeadLen :: nat where
  "MsgHeadLen = 8"

definition read_into ::
  "(packet \<Rightarrow> 'a outcome \<times> packet) \<Rightarrow> 'a \<Rightarrow> ('a \<Rightarrow> 's \<Rightarrow> 's)
   \<Rightarrow> (packet \<times> 's \<Rightarrow> unit outcome \<times> 's) \<Rightarrow> packet \<times> 's \<Rightarrow> unit outcome \<times> 's" where
  "read_into rd z set_field k = (\<lambda>(p, s).
     case rd p of
       (Ret v, q) \<Rightarrow> k (q, set_field v s)
     | (Err e, q) \<Rightarrow> (Err e, set_field z s)
     | (Panic, q) \<Rightarrow> (Panic, s))"

section \<open>Client messages\<close>

record CSMessageHead =
  ch_MessageID :: u16
  ch_PacketNo :: u32
  ch_Version :: u16

record CSMessage =
  cs_Head :: CSMessageHead
  cs_Body :: "byte list"

text \<open>
  \<open>Marshal\<close> allocates \<open>buffer\<close> (length 0, room for the message) and a packet \<open>writer\<close>, fills
  the writer and returns the buffer.
\<close>

definition CSMessage_writer :: "CSMessage \<Rightarrow> packet" where
  "CSMessage_writer m =
     WriteRawBytes (cs_Body m)
       (WriteU16 (ch_Version (cs_Head m))
         (WriteU32 (ch_PacketNo (cs_Head m))
           (WriteU16 (ch_MessageID (cs_Head m)) (NewPacket []))))"

definition CSMessage_Marshal :: "CSMessage \<Rightarrow> byte list outcome" where
  "CSMessage_Marshal m =
     (let buffer = []; writer = CSMessage_writer m in Ret buffer)"

definition CSMessage_UnMarshal :: "byte list \<Rightarrow> CSMessage \<Rightarrow> unit outcome \<times> CSMessage" where
  "CSMessage_UnMarshal d m =
     read_into ReadU16 0 (\<lambda>v m. m\<lparr>cs_Head := (cs_Head m)\<lparr>ch_MessageID := v\<rparr>\<rparr>)
    (read_into ReadU32 0 (\<lambda>v m. m\<lparr>cs_Head := (cs_Head m)\<lparr>ch_PacketNo := v\<rparr>\<rparr>)
    (read_into ReadU16 0 (\<lambda>v m. m\<lparr>cs_Head := (cs_Head m)\<lparr>ch_Version := v\<rparr>\<rparr>)
    (read_into ReadRestBytes [] (\<lambda>v m. m\<lparr>cs_Body := v\<rparr>)
    (\<lambda>(_, m). (Ret (), m))))) (NewPacket d, m)"

section \<open>Server messages\<close>

record SSMessageHead =
  SSCmd :: byte
  TransType :: byte
  SrcType :: byte
  DstType :: byte
  SrcID :: u16
  DstID :: u16

record SSMessage =
  ss_Head :: SSMessageHead
  ss_Body :: "byte list"

record SSMessageBody =
  sb_MessageID :: u16
  sb_PacketNo :: u32
  sb_SrcAccountID :: u64
  sb_DstAccountID :: u64
  sb_GSID :: u16
  sb_Body :: "byte list"

definition SSMessageBody_Marshal :: "SSMessageBody \<Rightarrow> byte list outcome" where
  "SSMessageBody_Marshal m =
     Ret (Data
      (WriteRawBytes (sb_Body m)
        (WriteU16 (sb_GSID m)
          (WriteS64 (sb_DstAccountID m)
            (WriteS64 (sb_SrcAccountID m)
              (WriteU32 (sb_PacketNo m)
                (WriteU16 (sb_MessageID m) (NewPacket []))))))))"

definition SSMessageBody_UnMarshal :: "byte list \<Rightarrow> SSMessageBody \<Rightarrow> unit outcome \<times> SSMessageBody" where
  "SSMessageBody_UnMarshal d m =
     read_into ReadU16 0 (\<lambda>v m. m\<lparr>sb_MessageID := v\<rparr>)
    (read_into ReadU32 0 (\<lambda>v m. m\<lparr>sb_PacketNo := v\<rparr>)
    (read_into ReadS64 0 (\<lambda>v m. m\<lparr>sb_SrcAccountID := v\<rparr>)
    (read_into ReadS64 0 (\<lambda>v m. m\<lparr>sb_DstAccountID := v\<rparr>)
    (read_into ReadU16 0 (\<lambda>v m. m\<lparr>sb_GSID := v\<rparr>)
    (read_into ReadRestBytes [] (\<lambda>v m. m\<lparr>sb_Body := v\<rparr>)
    (\<lambda>(_, m). (Ret (), m))))))) (NewPacket d, m)"

text \<open>The fresh message \<open>&SSMessageBody{}\<close>: every field at its zero value.\<close>

definition zero_body :: SSMessageBody where
  "zero_body = \<lparr>sb_MessageID = 0, sb_PacketNo = 0, sb_SrcAccountID = 0, sb_DstAccountID = 0,
                sb_GSID = 0, sb_Body = []\<rparr>"

text \<open>\<open>binary.BigEndian.Uint16\<close> and \<open>PutUint16\<close> of the Go library.\<close>

definition be_Uint16 :: "byte list \<Rightarrow> u16" where
  "be_Uint16 b = push_bit 8 (ucast (b ! 0)) OR ucast (b ! 1)"

definition be_PutUint16 :: "u16 \<Rightarrow> byte list" where
  "be_PutUint16 v = [ucast (drop_bit 8 v), ucast v]"

definition UnpackSSMessage :: "byte list \<Rightarrow> SSMessage option" where
  "UnpackSSMessage buff =
     (if length buff < MsgHeadLen then None
      else Some \<lparr>ss_Head = \<lparr>SSCmd = buff ! 0, TransType = buff ! 1, SrcType = buff ! 2,
                            DstType = buff ! 3, SrcID = be_Uint16 (slice buff 4 6),
                            DstID = be_Uint16 (slice buff 6 8)\<rparr>,
                 ss_Body = drop 8 buff\<rparr>)"

definition PackSSMessage :: "SSMessage \<Rightarrow> byte list" where
  "PackSSMessage m =
     (let h = ss_Head m
      in [SSCmd h, TransType h, SrcType h, DstType h] @ be_PutUint16 (SrcID h)
         @ be_PutUint16 (DstID h) @ ss_Body m)"

section \<open>The contract of a message format\<close>

text \<open>
  What a sender and a receiver of marshalled messages rely on: whatever the receiver held
  before, unmarshalling the bytes of \<open>m\<close> succeeds and leaves \<open>m\<close>.
\<close>

locale message_format =
  fixes marshal :: "'m \<Rightarrow> byte list outcome"
    and unmarshal :: "byte list \<Rightarrow> 'm \<Rightarrow> unit outcome \<times> 'm"
  assumes marshal_Ret: "\<exists>d. marshal m = Ret d"
    and unmarshal_marshal: "marshal m = Ret d \<Longrightarrow> unmarshal d m0 = (Ret (), m)"
begin

lemma marshal_inj: "marshal m = marshal m' \<Longrightarrow> m = m'"
  using marshal_Ret [of m] unmarshal_marshal [of m _ undefined] unmarshal_marshal [of m' _ undefined]
  by auto

lemma marshalD: "\<exists>d. marshal m = Ret d \<and> (\<forall>m0. unmarshal d m0 = (Ret (), m))"
  using marshal_Ret unmarshal_marshal by blast

end

text \<open>One step of an \<open>UnMarshal\<close>: the reader is at the bytes of the next field.\<close>

lemma read_step:
  assumes "rd \<lparr>pos = n, data = d\<rparr> = (Ret v, q)"
  shows "read_into rd z f k (\<lparr>pos = n, data = d\<rparr>, s) = k (q, f v s)"
  using assms by (simp add: read_into_def)

lemma read_rest:
  assumes "d \<noteq> []" and "n \<le> length d"
  shows "read_into ReadRestBytes z f k (\<lparr>pos = n, data = d\<rparr>, s)
    = k (\<lparr>pos = n + length d, data = d\<rparr>, f (drop n d) s)"
  using assms by (simp add: read_into_def ReadRestBytes_def slice_def advance_def)

lemma read_fail:
  assumes "rd p = (Err e, q)"
  shows "read_into rd z f k (p, s) = (Err e, f z s)"
  using assms by (simp add: read_into_def)

definition body_head :: "SSMessageBody \<Rightarrow> byte list" where
  "body_head m = enc_u16 (sb_MessageID m) @ enc_u32 (sb_PacketNo m) @ enc_u64 (sb_SrcAccountID m)
     @ enc_u64 (sb_DstAccountID m) @ enc_u16 (sb_GSID m)"

lemma SSMessageBody_Marshal_bytes: "SSMessageBody_Marshal m = Ret (body_head m @ sb_Body m)"
  by (simp add: SSMessageBody_Marshal_def body_head_def Data_def NewPacket_def WriteRawBytes_def
      u16_codec.put_data u32_codec.put_data s64_codec.put_data append_data_def)

lemma SSMessageBody_UnMarshal_bytes:
  "SSMessageBody_UnMarshal (body_head m @ sb_Body m) m0 = (Ret (), m)"
  unfolding SSMessageBody_UnMarshal_def NewPacket_def
  apply (subst read_step, rule u16_codec.get_at [OF TrueI], simp add: body_head_def)
  apply (subst read_step, rule u32_codec.get_at [OF TrueI], simp add: body_head_def)
  apply (subst read_step, rule s64_codec.get_at [OF TrueI], simp add: body_head_def)
  apply (subst read_step, rule s64_codec.get_at [OF TrueI], simp add: body_head_def)
  apply (subst read_step, rule u16_codec.get_at [OF TrueI], simp add: body_head_def)
  apply (subst read_rest)
  apply (simp_all add: body_head_def)
  done

interpretation body_format: message_format SSMessageBody_Marshal SSMessageBody_UnMarshal
  by unfold_locales (auto simp: SSMessageBody_Marshal_bytes SSMessageBody_UnMarshal_bytes)

lemmas unmarshal_defs =
  read_into_def ReadU16_def ReadU32_def ReadS64_def ReadU64_def ReadRestBytes_def
  Let_def advance_def NewPacket_def

lemma SSMessageBody_UnMarshal_long:
  "24 \<le> length d \<Longrightarrow> fst (SSMessageBody_UnMarshal d m0) = Ret ()"
  by (simp add: SSMessageBody_UnMarshal_def unmarshal_defs) auto

lemma SSMessageBody_UnMarshal_short:
  "length d < 24 \<Longrightarrow> \<exists>e. fst (SSMessageBody_UnMarshal d m0) = Err e"
  by (simp add: SSMessageBody_UnMarshal_def unmarshal_defs)

definition cs_head_bytes :: "CSMessage \<Rightarrow> byte list" where
  "cs_head_bytes m = enc_u16 (ch_MessageID (cs_Head m)) @ enc_u32 (ch_PacketNo (cs_Head m))
     @ enc_u16 (ch_Version (cs_Head m))"

lemma CSMessage_writer_bytes: "Data (CSMessage_writer m) = cs_head_bytes m @ cs_Body m"
  by (simp add: CSMessage_writer_def cs_head_bytes_def Data_def NewPacket_def WriteRawBytes_def
      u16_codec.put_data u32_codec.put_data append_data_def)

lemma CSMessage_UnMarshal_bytes:
  "CSMessage_UnMarshal (cs_head_bytes m @ cs_Body m) m0 = (Ret (), m)"
  unfolding CSMessage_UnMarshal_def NewPacket_def
  apply (subst read_step, rule u16_codec.get_at [OF TrueI], simp add: cs_head_bytes_def)
  apply (subst read_step, rule u32_codec.get_at [OF TrueI], simp add: cs_head_bytes_def)
  apply (subst read_step, rule u16_codec.get_at [OF TrueI], simp add: cs_head_bytes_def)
  apply (subst read_rest)
  apply (simp_all add: cs_head_bytes_def)
  done

lemma be_Uint16_PutUint16 [simp]: "be_Uint16 (be_PutUint16 v) = v"
  by (simp add: be_Uint16_def be_PutUint16_def join_bytes_16)

lemma be_PutUint16_Uint16: "length b = 2 \<Longrightarrow> be_PutUint16 (be_Uint16 b) = b"
  by (auto simp: be_Uint16_def be_PutUint16_def split_bytes_16 length_Suc_conv numeral_2_eq_2
      simp del: drop_bit_or)

lemma length_be_PutUint16 [simp]: "length (be_PutUint16 v) = 2"
  by (simp add: be_PutUint16_def)

lemma UnpackSSMessage_Pack: "UnpackSSMessage (PackSSMessage m) = Some m"
proof -
  let ?h = "ss_Head m" let ?b = "PackSSMessage m"
  have "slice ?b 4 6 = be_PutUint16 (SrcID ?h)" "slice ?b 6 8 = be_PutUint16 (DstID ?h)"
    by (simp_all add: PackSSMessage_def slice_def be_PutUint16_def Let_def)
  then show ?thesis
    by (simp add: UnpackSSMessage_def MsgHeadLen_def)
      (simp add: PackSSMessage_def be_PutUint16_def Let_def)
qed

lemma PackSSMessage_Unpack:
  assumes "UnpackSSMessage b = Some m"
  shows "PackSSMessage m = b"
proof -
  have len: "8 \<le> length b"
    and m: "m = \<lparr>ss_Head = \<lparr>SSCmd = b ! 0, TransType = b ! 1, SrcType = b ! 2, DstType = b ! 3,
        SrcID = be_Uint16 (slice b 4 6), DstID = be_Uint16 (slice b 6 8)\<rparr>, ss_Body = drop 8 b\<rparr>"
    using assms by (auto simp: UnpackSSMessage_def MsgHeadLen_def split: if_splits)
  have "length (slice b 4 6) = 2" "length (slice b 6 8) = 2" using len by (simp_all add: slice_def)
  then have "PackSSMessage m = [b ! 0, b ! 1, b ! 2, b ! 3] @ slice b 4 6 @ slice b 6 8 @ drop 8 b"
    by (simp add: PackSSMessage_def m be_PutUint16_Uint16)
  also have "[b ! 0, b ! 1, b ! 2, b ! 3] = take 4 b"
    using len by (simp add: list_eq_iff_nth_eq less_Suc_eq numeral_eq_Suc nth_Cons')
  also have "take 4 b @ slice b 4 6 @ slice b 6 8 @ drop 8 b = b"
    using append_take_drop_id [of 2 "drop 6 b"] append_take_drop_id [of 2 "drop 4 b"]
      append_take_drop_id [of 4 b]
    by (simp add: slice_def)
  finally show ?thesis .
qed

section \<open>Properties\<close>

text \<open>
  A server message survives the wire in both directions. Unpacking a packed message
  gives the message; a buffer that unpacks is exactly the packing of the result; and the only
  buffers that do not unpack are those shorter than the eight bytes of the head.
\<close>

lemma SSMessage_wire_roundtrip:
  "UnpackSSMessage (PackSSMessage m) = Some m
   \<and> (case UnpackSSMessage b of None \<Rightarrow> length b < 8 | Some m' \<Rightarrow> PackSSMessage m' = b)"
  using PackSSMessage_Unpack [of b]
  by (auto simp: UnpackSSMessage_Pack split: option.splits)
    (simp add: UnpackSSMessage_def MsgHeadLen_def split: if_splits)

text \<open>
  Marshalling a server message body always succeeds and unmarshalling the bytes gives the
  body back, whatever the receiving struct held before and however long the body is.
\<close>

lemma SSMessageBody_roundtrip:
  "\<exists>d. SSMessageBody_Marshal m = Ret d \<and> SSMessageBody_UnMarshal d m0 = (Ret (), m)"
  using body_format.marshalD [of m] by blast

text \<open>
  On arbitrary bytes \<open>SSMessageBody.UnMarshal\<close> never panics; it succeeds exactly from the
  24 bytes of its head on and reports an error below.
\<close>

lemma SSMessageBody_UnMarshal_total:
  "fst (SSMessageBody_UnMarshal d m0) \<noteq> Panic
   \<and> (fst (SSMessageBody_UnMarshal d m0) = Ret () \<longleftrightarrow> 24 \<le> length d)"
  using SSMessageBody_UnMarshal_long [of d m0] SSMessageBody_UnMarshal_short [of d m0]
  by (cases "24 \<le> length d") auto

text \<open>
  \<open>CSMessage.Marshal\<close> returns the empty buffer it allocated and not the bytes it wrote:
  whatever the message, nothing is sent and the peer's \<open>UnMarshal\<close> fails. The bytes left in
  the discarded writer are the right ones: they unmarshal to the message.
\<close>

lemma CSMessage_Marshal_loses_the_message:
  "CSMessage_Marshal m = Ret []
   \<and> fst (CSMessage_UnMarshal [] m0) = Err ReadU16Failed
   \<and> CSMessage_UnMarshal (Data (CSMessage_writer m)) m0 = (Ret (), m)"
  by (simp add: CSMessage_Marshal_def CSMessage_writer_bytes CSMessage_UnMarshal_bytes)
    (simp add: CSMessage_UnMarshal_def unmarshal_defs)

end
