(* ===== verification/Common.thy ===== *)
theory Common
  imports Messages
begin

text \<open>
  The constants of \<open>common/consts.go\<close> and the error codes of \<open>errcode/errorcode.go\<close>. Go's untyped constants take the type of their context, so they are
  polymorphic here; \<open>go_consts\<close> is the collection of their definitions.
\<close>

named_theorems go_consts

definition TransType_None :: "'a::neg_numeral" where [go_consts]: "TransType_None = - 1"
definition TransType_ByKey :: "'a::numeral" where [go_consts]: "TransType_ByKey = 1"
definition TransType_Broadcast :: "'a::numeral" where [go_consts]: "TransType_Broadcast = 2"
definition TransType_Group :: "'a::numeral" where [go_consts]: "TransType_Group = 3"

definition SSCMD_READY :: "'a::numeral" where [go_consts]: "SSCMD_READY = 1"
definition SSCMD_SYNC :: "'a::numeral" where [go_consts]: "SSCMD_SYNC = 2"
definition SSCMD_MSG :: "'a::numeral" where [go_consts]: "SSCMD_MSG = 3"
definition SSCMD_HEARTBEAT :: "'a::numeral" where [go_consts]: "SSCMD_HEARTBEAT = 4"
definition SSCMD_DISCONNECT :: "'a::numeral" where [go_consts]: "SSCMD_DISCONNECT = 5"

definition EntityType_Client :: "'a::numeral" where [go_consts]: "EntityType_Client = 1"
definition EntityType_Portal :: "'a::numeral" where [go_consts]: "EntityType_Portal = 2"
definition EntityType_GameSvr :: "'a::numeral" where [go_consts]: "EntityType_GameSvr = 3"
definition EntityType_SnsServer :: "'a::numeral" where [go_consts]: "EntityType_SnsServer = 4"
definition EntityType_BattleServer :: "'a::numeral" where [go_consts]: "EntityType_BattleServer = 5"
definition EntityType_TeamSvr :: "'a::numeral" where [go_consts]: "EntityType_TeamSvr = 6"
definition EntityType_LoginSvr :: "'a::numeral" where [go_consts]: "EntityType_LoginSvr = 7"
definition EntityType_Router :: "'a::numeral" where [go_consts]: "EntityType_Router = 8"
definition EntityType_IM :: "'a::numeral" where [go_consts]: "EntityType_IM = 9"
definition ENtityType_Recharge :: "'a::numeral" where [go_consts]: "ENtityType_Recharge = 10"
definition EntityType_GMClient :: "'a::numeral" where [go_consts]: "EntityType_GMClient = 30"
definition EntityType_VersionSvr :: "'a::numeral" where [go_consts]: "EntityType_VersionSvr = 40"

definition INVALID_GAMESVR_ID :: "'a::zero" where [go_consts]: "INVALID_GAMESVR_ID = 0"
definition INVALID_PORTAL_ID :: "'a::zero" where [go_consts]: "INVALID_PORTAL_ID = 0"
definition INVALID_SESS_ID :: "'a::zero" where [go_consts]: "INVALID_SESS_ID = 0"
definition INVALID_PK_POS_ID :: "'a::zero" where [go_consts]: "INVALID_PK_POS_ID = 0"
definition INVALID_ID :: "'a::zero" where [go_consts]: "INVALID_ID = 0"
definition ServerStatusOpen :: "'a::numeral" where [go_consts]: "ServerStatusOpen = 1"
definition ServerStatusClose :: "'a::numeral" where [go_consts]: "ServerStatusClose = 2"
definition ServerStatusFull :: "'a::numeral" where [go_consts]: "ServerStatusFull = 3"
definition TCP_PING_TIMEOUT :: int where [go_consts]: "TCP_PING_TIMEOUT = 300"

type_synonym ErrCode = "32 word"

definition EC_OK :: ErrCode where "EC_OK = 0"
definition EC_Unknown :: ErrCode where "EC_Unknown = - 1"
definition EC_FormatError :: ErrCode where "EC_FormatError = - 2"
definition EC_DataNotExists :: ErrCode where "EC_DataNotExists = - 3"
definition EC_MarshalFail :: ErrCode where "EC_MarshalFail = - 4"
definition EC_UnmarshalFail :: ErrCode where "EC_UnmarshalFail = - 5"
definition EC_NetworkFail :: ErrCode where "EC_NetworkFail = - 6"
definition EC_ParameterInvalid :: ErrCode where "EC_ParameterInvalid = - 7"
definition EC_UnknownMessage :: ErrCode where "EC_UnknownMessage = - 8"
definition EC_GamesvrError :: ErrCode where "EC_GamesvrError = - 9"
definition EC_TokenInvalid :: ErrCode where "EC_TokenInvalid = - 10"
definition EC_AccountReplaced :: ErrCode where "EC_AccountReplaced = - 11"
definition EC_ServerBusy :: ErrCode where "EC_ServerBusy = - 12"
definition EC_IMSvrNotFound :: ErrCode where "EC_IMSvrNotFound = - 13"
definition EC_PlayerNoOnline :: ErrCode where "EC_PlayerNoOnline = - 14"

lemmas error_codes =
  EC_OK_def EC_Unknown_def EC_FormatError_def EC_DataNotExists_def EC_MarshalFail_def EC_UnmarshalFail_def EC_NetworkFail_def
  EC_ParameterInvalid_def EC_UnknownMessage_def EC_GamesvrError_def EC_TokenInvalid_def
  EC_AccountReplaced_def EC_ServerBusy_def EC_IMSvrNotFound_def EC_PlayerNoOnline_def

end
