(* ===== verification/GoStrings.thy ===== *)
theory GoStrings
  imports Prelude
begin

text \<open>
  What the repository uses of Go's \<open>strings\<close> and \<open>strconv\<close>, as the documentation and the
  sources of the Go 1.13 library have it, on strings as lists of bytes. Letters and white space
  are those of ASCII: the Unicode case mappings and the Unicode spaces are left out.
\<close>

section \<open>Package \<open>strings\<close>\<close>

definition space :: "char \<Rightarrow> bool" where
  "space c \<longleftrightarrow> (of_char c :: nat) \<in> {9, 10, 11, 12, 13, 32}"

definition trim :: "(char \<Rightarrow> bool) \<Rightarrow> string \<Rightarrow> string" where
  "trim P s = rev (dropWhile P (rev (dropWhile P s)))"

definition TrimSpace :: "string \<Rightarrow> string" where
  "TrimSpace = trim space"

definition strings_Trim :: "string \<Rightarrow> string \<Rightarrow> string" where
  "strings_Trim s cutset = trim (\<lambda>c. c \<in> set cutset) s"

definition lower :: "char \<Rightarrow> char" where
  "lower c = (if 65 \<le> (of_char c :: nat) \<and> (of_char c :: nat) \<le> 90 then char_of (of_char c + 32 :: nat) else c)"

definition ToLower :: "string \<Rightarrow> string" where
  "ToLower = map lower"

definition EqualFold :: "string \<Rightarrow> string \<Rightarrow> bool" where
  "EqualFold s t \<longleftrightarrow> ToLower s = ToLower t"

definition HasPrefix :: "string \<Rightarrow> string \<Rightarrow> bool" where
  "HasPrefix s p \<longleftrightarrow> take (length p) s = p"

text \<open>\<open>strings.Split\<close> and \<open>strings.Index\<close> for a separator of one character.\<close>

fun strings_Split :: "string \<Rightarrow> char \<Rightarrow> string list" where
  "strings_Split [] sep = [[]]"
| "strings_Split (c # cs) sep =
     (if c = sep then [] # strings_Split cs sep
      else (c # hd (strings_Split cs sep)) # tl (strings_Split cs sep))"

definition strings_Index :: "string \<Rightarrow> char \<Rightarrow> int" where
  "strings_Index s sep =
     (if sep \<in> set s then int (length (takeWhile (\<lambda>c. c \<noteq> sep) s)) else - 1)"

text \<open>The first field of \<open>strings.SplitN(s, sep, 2)\<close>.\<close>

definition before :: "char \<Rightarrow> string \<Rightarrow> string" where
  "before sep s = takeWhile (\<lambda>c. c \<noteq> sep) s"

text \<open>\<open>strings.Index\<close> for a longer separator: the text before its first occurrence, and the rest.\<close>

fun cut_at :: "string \<Rightarrow> string \<Rightarrow> (string \<times> string) option" where
  "cut_at sub [] = (if sub = [] then Some ([], []) else None)"
| "cut_at sub (c # cs) =
     (if HasPrefix (c # cs) sub then Some ([], c # cs)
      else (case cut_at sub cs of None \<Rightarrow> None | Some (a, b) \<Rightarrow> Some (c # a, b)))"

section \<open>Package \<open>strconv\<close>\<close>

datatype num_error = ErrSyntax | ErrRange

fun show_nat :: "nat \<Rightarrow> string" where
  "show_nat n =
     (if n < 10 then [char_of (48 + n)] else show_nat (n div 10) @ [char_of (48 + n mod 10)])"

declare show_nat.simps [simp del]

definition Itoa :: "int \<Rightarrow> string" where
  "Itoa i = (if i < 0 then CHR ''-'' # show_nat (nat (- i)) else show_nat (nat i))"

text \<open>\<open>fmt\<close>'s verb \<open>%X\<close>.\<close>

definition hex_digit :: "nat \<Rightarrow> char" where
  "hex_digit d = (if d < 10 then char_of (48 + d) else char_of (55 + d))"

fun show_hex :: "nat \<Rightarrow> string" where
  "show_hex n = (if n < 16 then [hex_digit n] else show_hex (n div 16) @ [hex_digit (n mod 16)])"

declare show_hex.simps [simp del]

text \<open>The value of one digit: decimal digits, then letters in either case.\<close>

definition digit_val :: "char \<Rightarrow> nat option" where
  "digit_val c =
     (let k = of_char c :: nat; l = of_char (lower c) :: nat
      in if 48 \<le> k \<and> k \<le> 57 then Some (k - 48)
         else if 97 \<le> l \<and> l \<le> 122 then Some (l - 97 + 10) else None)"

text \<open>
  The loop of \<open>ParseUint\<close>: \<open>base0\<close> says that the base was taken from the prefix, and underscores
  are skipped then; a value beyond \<open>maxVal\<close> stops the loop at once.
\<close>

fun parse_digits :: "nat \<Rightarrow> bool \<Rightarrow> nat \<Rightarrow> string \<Rightarrow> nat \<Rightarrow> nat \<times> num_error option" where
  "parse_digits base base0 maxVal [] n = (n, None)"
| "parse_digits base base0 maxVal (c # cs) n =
     (if base0 \<and> c = CHR ''_'' then parse_digits base base0 maxVal cs n
      else (case digit_val c of
              None \<Rightarrow> (0, Some ErrSyntax)
            | Some d \<Rightarrow>
                if d \<ge> base then (0, Some ErrSyntax)
                else if n * base + d > maxVal then (maxVal, Some ErrRange)
                else parse_digits base base0 maxVal cs (n * base + d)))"

text \<open>\<open>underscoreOK\<close>: underscores must separate digits; the prefix counts as one.\<close>

datatype saw = SawStart | SawDigit | SawUnderscore | SawOther

fun underscore_scan :: "bool \<Rightarrow> saw \<Rightarrow> string \<Rightarrow> bool" where
  "underscore_scan hex saw [] = (saw \<noteq> SawUnderscore)"
| "underscore_scan hex saw (c # cs) =
     (case digit_val c of
        Some d \<Rightarrow>
          if d < 10 \<or> hex \<and> d < 16 then underscore_scan hex SawDigit cs
          else if saw = SawUnderscore then False else underscore_scan hex SawOther cs
      | None \<Rightarrow>
          if c = CHR ''_'' then (if saw \<noteq> SawDigit then False else underscore_scan hex SawUnderscore cs)
          else if saw = SawUnderscore then False else underscore_scan hex SawOther cs)"

definition underscoreOK :: "string \<Rightarrow> bool" where
  "underscoreOK s =
     (let s = (if s \<noteq> [] \<and> (hd s = CHR ''-'' \<or> hd s = CHR ''+'') then tl s else s)
      in if length s \<ge> 2 \<and> hd s = CHR ''0'' \<and> lower (s ! 1) \<in> {CHR ''b'', CHR ''o'', CHR ''x''}
         then underscore_scan (lower (s ! 1) = CHR ''x'') SawDigit (drop 2 s)
         else underscore_scan False SawStart s)"

definition ParseUint :: "string \<Rightarrow> nat \<Rightarrow> nat \<Rightarrow> nat \<times> num_error option" where
  "ParseUint s base bitSize =
     (if s = [] then (0, Some ErrSyntax)
      else
        let (b, ds) =
          (if base \<noteq> 0 then (base, s)
           else if hd s = CHR ''0'' then
             (if length s \<ge> 3 \<and> lower (s ! 1) = CHR ''b'' then (2, drop 2 s)
              else if length s \<ge> 3 \<and> lower (s ! 1) = CHR ''o'' then (8, drop 2 s)
              else if length s \<ge> 3 \<and> lower (s ! 1) = CHR ''x'' then (16, drop 2 s)
              else (8, tl s))
           else (10, s));
            r = parse_digits b (base = 0) (2 ^ bitSize - 1) ds 0
        in if snd r = None \<and> base = 0 \<and> CHR ''_'' \<in> set ds \<and> \<not> underscoreOK s then (0, Some ErrSyntax) else r)"

definition ParseInt :: "string \<Rightarrow> nat \<Rightarrow> nat \<Rightarrow> int \<times> num_error option" where
  "ParseInt s base bitSize =
     (if s = [] then (0, Some ErrSyntax)
      else
        let neg = (hd s = CHR ''-'');
            (un, err) = ParseUint (if hd s = CHR ''+'' \<or> neg then tl s else s) base bitSize;
            cutoff = 2 ^ (bitSize - 1) :: nat
        in if err = Some ErrSyntax then (0, err)
           else if \<not> neg \<and> un \<ge> cutoff then (int cutoff - 1, Some ErrRange)
           else if neg \<and> un > cutoff then (- int cutoff, Some ErrRange)
           else (if neg then - int un else int un, None))"

definition strconv_Atoi :: "string \<Rightarrow> int \<times> num_error option" where
  "strconv_Atoi s = ParseInt s 10 64"

text \<open>\<open>Atoi\<close> where the caller only goes on without an error.\<close>

definition Atoi :: "string \<Rightarrow> int option" where
  "Atoi s = (case strconv_Atoi s of (i, None) \<Rightarrow> Some i | (_, Some _) \<Rightarrow> None)"

definition ParseBool :: "string \<Rightarrow> bool option" where
  "ParseBool s =
     (if s \<in> {''1'', ''t'', ''T'', ''TRUE'', ''true'', ''True''} then Some True
      else if s \<in> {''0'', ''f'', ''F'', ''FALSE'', ''false'', ''False''} then Some False
      else None)"

section \<open>Numbers printed and parsed\<close>

lemma parse_digits_append:
  "parse_digits b u m xs n = (k, None) \<Longrightarrow> parse_digits b u m (xs @ ys) n = parse_digits b u m ys k"
  by (induction xs arbitrary: n) (auto split: if_splits option.splits)

lemma of_char_decimal [simp]: "n < 10 \<Longrightarrow> (of_char (char_of (48 + n :: nat)) :: nat) = 48 + n"
  by simp

lemma digit_val_decimal [simp]: "n < 10 \<Longrightarrow> digit_val (char_of (48 + n :: nat)) = Some n"
  by (simp add: digit_val_def Let_def)

lemma digit_val_hex [simp]:
  assumes "n < 16"
  shows "digit_val (hex_digit n) = Some n"
proof (cases "n < 10")
  case True
  then show ?thesis by (simp add: hex_digit_def)
next
  case False
  then have "(of_char (char_of (55 + n :: nat)) :: nat) = 55 + n"
    "(of_char (char_of (87 + n :: nat)) :: nat) = 87 + n"
    using assms by simp_all
  then show ?thesis using False assms by (simp add: hex_digit_def digit_val_def lower_def Let_def)
qed

lemma decimal_char:
  assumes "d < 10" and "(of_char c :: nat) < 48 \<or> (of_char c :: nat) > 57"
  shows "char_of (48 + d :: nat) \<noteq> c"
  using of_char_decimal [OF assms(1)] assms by auto

lemma parse_show_nat: "n \<le> m \<Longrightarrow> parse_digits 10 False m (show_nat n) 0 = (n, None)"
proof (induction n rule: show_nat.induct)
  case (1 n)
  show ?case
  proof (cases "n < 10")
    case True
    then show ?thesis using "1.prems" by (simp add: show_nat.simps [of n])
  next
    case False
    then have "parse_digits 10 False m (show_nat (n div 10)) 0 = (n div 10, None)"
      using 1 by (meson div_le_dividend order_trans)
    from parse_digits_append [OF this, of "[char_of (48 + n mod 10)]"] False "1.prems"
    show ?thesis by (simp add: show_nat.simps [of n])
  qed
qed

lemma parse_show_hex: "n \<le> m \<Longrightarrow> parse_digits 16 False m (show_hex n) 0 = (n, None)"
proof (induction n rule: show_hex.induct)
  case (1 n)
  show ?case
  proof (cases "n < 16")
    case True
    then show ?thesis using "1.prems" by (simp add: show_hex.simps [of n])
  next
    case False
    then have "parse_digits 16 False m (show_hex (n div 16)) 0 = (n div 16, None)"
      using 1 by (meson div_le_dividend order_trans)
    from parse_digits_append [OF this, of "[hex_digit (n mod 16)]"] False "1.prems"
    show ?thesis by (simp add: show_hex.simps [of n])
  qed
qed

lemma show_nat_digits: "c \<in> set (show_nat n) \<Longrightarrow> \<exists>d < 10. c = char_of (48 + d :: nat)"
proof (induction n rule: show_nat.induct)
  case (1 n)
  then have "c = char_of (48 + n mod 10) \<or> \<not> n < 10 \<and> c \<in> set (show_nat (n div 10))"
    by (cases "n < 10") (auto simp: show_nat.simps [of n])
  moreover have "\<exists>d < 10. char_of (48 + n mod 10) = (char_of (48 + d :: nat) :: char)"
    by (intro exI [of _ "n mod 10"] conjI) (rule mod_less_divisor, simp, rule refl)
  ultimately show ?case using 1 by blast
qed

lemma show_nat_nonempty [simp]: "show_nat n \<noteq> []"
  by (simp add: show_nat.simps [of n])

lemma show_nat_head: "hd (show_nat n) \<noteq> CHR ''-''" "hd (show_nat n) \<noteq> CHR ''+''"
proof -
  have "hd (show_nat n) \<in> set (show_nat n)" by (rule hd_in_set) simp
  then obtain d where "d < 10" "hd (show_nat n) = char_of (48 + d :: nat)" using show_nat_digits by blast
  then show "hd (show_nat n) \<noteq> CHR ''-''" "hd (show_nat n) \<noteq> CHR ''+''"
    by (simp_all add: decimal_char)
qed

lemma Atoi_Itoa:
  assumes "- (2 ^ 63) \<le> i" and "i < 2 ^ 63"
  shows "Atoi (Itoa i) = Some i"
proof (cases "i < 0")
  case True
  then have "ParseUint (show_nat (nat (- i))) 10 64 = (nat (- i), None)"
    using assms by (simp add: ParseUint_def parse_show_nat)
  then show ?thesis using True assms by (simp add: Atoi_def strconv_Atoi_def ParseInt_def Itoa_def)
next
  case False
  then have "ParseUint (show_nat (nat i)) 10 64 = (nat i, None)"
    using assms by (simp add: ParseUint_def parse_show_nat)
  then show ?thesis using False assms
    by (auto simp: Atoi_def strconv_Atoi_def ParseInt_def Itoa_def show_nat_head)
qed

lemma Atoi_range: "Atoi s = Some i \<Longrightarrow> - (2 ^ 63) \<le> i \<and> i < 2 ^ 63"
proof -
  obtain un err where p: "ParseUint t 10 64 = (un, err)" if "t = (if hd s = CHR ''+'' \<or> hd s = CHR ''-'' then tl s else s)" for t
    by (cases "ParseUint (if hd s = CHR ''+'' \<or> hd s = CHR ''-'' then tl s else s) 10 64") auto
  assume "Atoi s = Some i"
  then show ?thesis
    by (auto simp: Atoi_def strconv_Atoi_def ParseInt_def p Let_def split: if_splits)
qed

section \<open>Printed numbers under trimming and base detection\<close>

lemma trim_id: "s = [] \<or> \<not> P (hd s) \<and> \<not> P (last s) \<Longrightarrow> trim P s = s"
proof (cases "s = []")
  case False
  assume "s = [] \<or> \<not> P (hd s) \<and> \<not> P (last s)"
  with False have "dropWhile P s = s" "dropWhile P (rev s) = rev s" "rev s \<noteq> []"
    by (simp_all add: dropWhile_eq_self_iff hd_rev)
  then show ?thesis by (simp add: trim_def)
qed (simp add: trim_def)

lemma show_nat_char: "c \<in> set (show_nat n) \<Longrightarrow> 48 \<le> (of_char c :: nat) \<and> (of_char c :: nat) \<le> 57"
  using show_nat_digits [of c n] of_char_decimal by fastforce

lemma Itoa_char: "c \<in> set (Itoa i) \<Longrightarrow> c = CHR ''-'' \<or> 48 \<le> (of_char c :: nat) \<and> (of_char c :: nat) \<le> 57"
  using show_nat_char by (auto simp: Itoa_def split: if_splits)

lemma Itoa_nonempty [simp]: "Itoa i \<noteq> []"
  by (simp add: Itoa_def)

lemma Itoa_not_space: "c \<in> set (Itoa i) \<Longrightarrow> \<not> space c"
  using Itoa_char [of c i] by (auto simp: space_def)

lemma TrimSpace_Itoa [simp]: "TrimSpace (Itoa i) = Itoa i" "TrimSpace (show_nat n) = show_nat n"
proof -
  show "TrimSpace (Itoa i) = Itoa i" for i
    unfolding TrimSpace_def
    by (intro trim_id disjI2 conjI) (simp_all add: Itoa_not_space [of _ i])
  from this [of "int n"] show "TrimSpace (show_nat n) = show_nat n" by (simp add: Itoa_def)
qed

lemma before_Itoa [simp]: "before CHR ''.'' (Itoa i) = Itoa i"
  using Itoa_char by (force simp: before_def takeWhile_eq_all_conv)

lemma parse_digits_plain: "CHR ''_'' \<notin> set s \<Longrightarrow> parse_digits b u m s n = parse_digits b False m s n"
  by (induction s arbitrary: n) (auto split: option.split)

lemma show_nat_head_0: "0 < n \<Longrightarrow> hd (show_nat n) \<noteq> CHR ''0''"
proof (induction n rule: show_nat.induct)
  case (1 n)
  show ?case
  proof (cases "n < 10")
    case True
    then have "(of_char (char_of (48 + n :: nat) :: char) :: nat) \<noteq> of_char CHR ''0''" using 1(2) by simp
    then have "char_of (48 + n :: nat) \<noteq> CHR ''0''" by metis
    then show ?thesis using True by (simp add: show_nat.simps [of n])
  next
    case False
    then show ?thesis using 1 by (simp add: show_nat.simps [of n] div_greater_zero_iff)
  qed
qed

lemma ParseUint_show_nat: "n < 2 ^ 64 \<Longrightarrow> ParseUint (show_nat n) 0 64 = (n, None)"
proof (cases "n = 0")
  case False
  assume n: "n < 2 ^ 64"
  have no: "CHR ''_'' \<notin> set (show_nat n)" using show_nat_char [of "CHR ''_''" n] by auto
  have "parse_digits 10 True (2 ^ 64 - 1) (show_nat n) 0 = (n, None)"
    unfolding parse_digits_plain [OF no, of 10 True] using n by (intro parse_show_nat) simp
  then show ?thesis using show_nat_head_0 [of n] False no by (simp add: ParseUint_def)
qed (simp add: ParseUint_def show_nat.simps char_of_def bit_0)

lemma ParseInt_Itoa: "- (2 ^ 63) \<le> i \<Longrightarrow> i < 2 ^ 63 \<Longrightarrow> ParseInt (Itoa i) 0 64 = (i, None)"
proof (cases "i < 0")
  case True
  assume "- (2 ^ 63) \<le> i"
  then have "ParseUint (show_nat (nat (- i))) 0 64 = (nat (- i), None)" by (intro ParseUint_show_nat) simp
  then show ?thesis using True \<open>- (2 ^ 63) \<le> i\<close> by (simp add: ParseInt_def Itoa_def)
next
  case False
  assume "i < 2 ^ 63"
  then have "ParseUint (show_nat (nat i)) 0 64 = (nat i, None)" by (intro ParseUint_show_nat) simp
  then show ?thesis using False \<open>i < 2 ^ 63\<close> by (auto simp: ParseInt_def Itoa_def show_nat_head)
qed

lemma Atoi_show_nat: "n < 2 ^ 63 \<Longrightarrow> strconv_Atoi (show_nat n) = (int n, None)"
proof -
  assume n: "n < 2 ^ 63"
  then have "ParseUint (show_nat n) 10 64 = (n, None)" by (simp add: ParseUint_def parse_show_nat)
  then show ?thesis using n by (auto simp: strconv_Atoi_def ParseInt_def show_nat_head)
qed

lemma trim_prefix:
  assumes "\<forall>c \<in> set p. P c" and "s \<noteq> []" and "\<not> P (hd s)" and "\<not> P (last s)"
  shows "trim P (p @ s) = s"
proof -
  have "dropWhile P (p @ s) = dropWhile P s" using assms(1) by (induction p) simp_all
  then have "trim P (p @ s) = trim P s" by (simp add: trim_def)
  then show ?thesis using trim_id [of s P] assms(3,4) by simp
qed

lemma trim_suffix:
  assumes "\<forall>c \<in> set q. P c" and "s \<noteq> []" and "\<not> P (hd s)" and "\<not> P (last s)"
  shows "trim P (s @ q) = s"
proof -
  have "dropWhile P (rev q @ rev s) = dropWhile P (rev s)"
    using assms(1) dropWhile_append2 [of "rev q" P "rev s"] by simp
  also have "\<dots> = rev s" using assms(2,4) by (simp add: dropWhile_eq_self_iff hd_rev)
  finally have "dropWhile P (rev (s @ q)) = rev s" by simp
  moreover have "dropWhile P (s @ q) = s @ q" using assms(2,3) by (cases s) simp_all
  ultimately show ?thesis by (simp add: trim_def)
qed

section \<open>Splitting\<close>

lemma strings_Split_nonempty [simp]: "strings_Split s sep \<noteq> []"
  by (cases s) simp_all

lemma strings_Split_none: "sep \<notin> set s \<Longrightarrow> strings_Split s sep = [s]"
  by (induction s) auto

lemma strings_Split_append: "strings_Split (a @ sep # b) sep = strings_Split a sep @ strings_Split b sep"
  by (induction a) auto

lemma strings_Split_first: "sep \<notin> set a \<Longrightarrow> strings_Split (a @ sep # b) sep = a # strings_Split b sep"
  by (simp add: strings_Split_append strings_Split_none)

lemma cut_at_slashes: "CHR ''/'' \<notin> set a \<Longrightarrow> cut_at ''//'' (a @ ''//'' @ b) = Some (a, ''//'' @ b)"
  by (induction a) (auto simp: HasPrefix_def)

section \<open>Case of digits\<close>

lemma lower_lower [simp]: "lower (lower c) = lower c"
  by (auto simp: lower_def)

lemma lower_digit [simp]: "48 \<le> (of_char c :: nat) \<and> (of_char c :: nat) \<le> 57 \<Longrightarrow> lower c = c"
  by (simp add: lower_def)

lemma digit_val_lower [simp]: "digit_val (lower c) = digit_val c"
proof (cases "65 \<le> (of_char c :: nat) \<and> (of_char c :: nat) \<le> 90")
  case True
  then have "(of_char (lower c) :: nat) = of_char c + 32" by (simp add: lower_def)
  then show ?thesis using True by (simp add: digit_val_def Let_def)
next
  case False
  then have "lower c = c" by (auto simp: lower_def)
  then show ?thesis by simp
qed

lemma parse_digits_lower: "parse_digits b False m (map lower s) n = parse_digits b False m s n"
  by (induction s arbitrary: n) (auto split: option.split)

end
