(* ===== verification/ErrCodes.thy ===== *)
theory ErrCodes
  imports Common GoStrings
begin

text \<open>
  The texts of the error codes: \<open>ErrCode.Error\<close> of \<open>errcode/errorcode.go\<close> and the table and method
  of \<open>errcode/code_string.go\<close>, which \<open>stringer\<close> has made from the comments. A string is its bytes.
\<close>

definition ErrCode_name :: string where
  "ErrCode_name =
    [CHR 0xE7, CHR 0x94, CHR 0xA8, CHR 0xE6, CHR 0x88, CHR 0xB7, CHR 0xE5, CHR 0xB7, CHR 0xB2, CHR 0xE7,
     CHR 0xA6, CHR 0xBB, CHR 0xE7, CHR 0xBA, CHR 0xBF, CHR 0xE8, CHR 0x81, CHR 0x8A, CHR 0xE5, CHR 0xA4,
     CHR 0xA9, CHR 0xE6, CHR 0x9C, CHR 0x8D, CHR 0xE7, CHR 0xBB, CHR 0xB4, CHR 0xE6, CHR 0x8A, CHR 0xA4,
     CHR 0xE4, CHR 0xB8, CHR 0xAD, CHR 0xE6, CHR 0x9C, CHR 0x8D, CHR 0xE5, CHR 0x8A, CHR 0xA1, CHR 0xE5,
     CHR 0x99, CHR 0xA8, CHR 0xE5, CHR 0xBF, CHR 0x99, CHR 0xEF, CHR 0xBC, CHR 0x8C, CHR 0xE8, CHR 0xAF,
     CHR 0xB7, CHR 0xE7, CHR 0xA8, CHR 0x8D, CHR 0xE5, CHR 0x90, CHR 0x8E, CHR 0xE5, CHR 0x86, CHR 0x8D,
     CHR 0xE8, CHR 0xAF, CHR 0x95, CHR 0xE8, CHR 0xB4, CHR 0xA6, CHR 0xE5, CHR 0x8F, CHR 0xB7, CHR 0xE8,
     CHR 0xA2, CHR 0xAB, CHR 0xE6, CHR 0x96, CHR 0xB0, CHR 0xE7, CHR 0x99, CHR 0xBB, CHR 0xE5, CHR 0xBD,
     CHR 0x95, CHR 0xE8, CHR 0xB8, CHR 0xA2, CHR 0xE5, CHR 0x87, CHR 0xBA, CHR 0x54, CHR 0x6F, CHR 0x6B,
     CHR 0x65, CHR 0x6E, CHR 0xE6, CHR 0x97, CHR 0xA0, CHR 0xE6, CHR 0x95, CHR 0x88, CHR 0x28, CHR 0xE9,
     CHR 0xAA, CHR 0x8C, CHR 0xE8, CHR 0xAF, CHR 0x81, CHR 0xE6, CHR 0x9C, CHR 0xAA, CHR 0xE9, CHR 0x80,
     CHR 0x9A, CHR 0xE8, CHR 0xBF, CHR 0x87, CHR 0x29, CHR 0xE6, CHR 0xB8, CHR 0xB8, CHR 0xE6, CHR 0x88,
     CHR 0x8F, CHR 0xE6, CHR 0x9C, CHR 0x8D, CHR 0xE5, CHR 0x8A, CHR 0xA1, CHR 0xE5, CHR 0x99, CHR 0xA8,
     CHR 0xE9, CHR 0x93, CHR 0xBE, CHR 0xE6, CHR 0x8E, CHR 0xA5, CHR 0xE9, CHR 0x94, CHR 0x99, CHR 0xE8,
     CHR 0xAF, CHR 0xAF, CHR 0xE6, CHR 0x97, CHR 0xA0, CHR 0xE6, CHR 0xB3, CHR 0x95, CHR 0xE8, CHR 0xAF,
     CHR 0x86, CHR 0xE5, CHR 0x88, CHR 0xAB, CHR 0xE7, CHR 0x9A, CHR 0x84, CHR 0xE6, CHR 0xB6, CHR 0x88,
     CHR 0xE6, CHR 0x81, CHR 0xAF, CHR 0xE5, CHR 0x8F, CHR 0x82, CHR 0xE6, CHR 0x95, CHR 0xB0, CHR 0xE9,
     CHR 0x94, CHR 0x99, CHR 0xE8, CHR 0xAF, CHR 0xAF, CHR 0xE7, CHR 0xBD, CHR 0x91, CHR 0xE7, CHR 0xBB,
     CHR 0x9C, CHR 0xE9, CHR 0x94, CHR 0x99, CHR 0xE8, CHR 0xAF, CHR 0xAF, CHR 0xE5, CHR 0x8D, CHR 0x8F,
     CHR 0xE8, CHR 0xAE, CHR 0xAE, CHR 0xE8, CHR 0xA7, CHR 0xA3, CHR 0xE7, CHR 0xA0, CHR 0x81, CHR 0xE9,
     CHR 0x94, CHR 0x99, CHR 0xE8, CHR 0xAF, CHR 0xAF, CHR 0xE5, CHR 0x8D, CHR 0x8F, CHR 0xE8, CHR 0xAE,
     CHR 0xAE, CHR 0xE7, CHR 0xBC, CHR 0x96, CHR 0xE7, CHR 0xA0, CHR 0x81, CHR 0xE9, CHR 0x94, CHR 0x99,
     CHR 0xE8, CHR 0xAF, CHR 0xAF, CHR 0xE6, CHR 0x95, CHR 0xB0, CHR 0xE6, CHR 0x8D, CHR 0xAE, CHR 0xE4,
     CHR 0xB8, CHR 0x8D, CHR 0xE5, CHR 0xAD, CHR 0x98, CHR 0xE5, CHR 0x9C, CHR 0xA8, CHR 0xE6, CHR 0x95,
     CHR 0xB0, CHR 0xE6, CHR 0x8D, CHR 0xAE, CHR 0xE6, CHR 0xA0, CHR 0xBC, CHR 0xE5, CHR 0xBC, CHR 0x8F,
     CHR 0xE9, CHR 0x94, CHR 0x99, CHR 0xE8, CHR 0xAF, CHR 0xAF, CHR 0xE6, CHR 0x9C, CHR 0xAA, CHR 0xE7,
     CHR 0x9F, CHR 0xA5, CHR 0xE9, CHR 0x94, CHR 0x99, CHR 0xE8, CHR 0xAF, CHR 0xAF, CHR 0x4F, CHR 0x4B]"

definition ErrCode_index :: "nat list" where
  "ErrCode_index = [0, 15, 33, 63, 87, 115, 142, 163, 175, 187, 205, 223, 238, 256, 268, 270]"

text \<open>The subtraction wraps at 32 bits; the comparisons are signed.\<close>

definition ErrCode_String :: "ErrCode \<Rightarrow> string" where
  "ErrCode_String i =
     (let k = i - (- 14)
      in if k <s 0 \<or> word_of_nat (length ErrCode_index - 1) \<le>s k
         then ''ErrCode('' @ Itoa (sint (k + - 14)) @ '')''
         else take (ErrCode_index ! (unat k + 1) - ErrCode_index ! unat k) (drop (ErrCode_index ! unat k) ErrCode_name))"

definition ErrCode_Error :: "ErrCode \<Rightarrow> string" where
  "ErrCode_Error i = ErrCode_String i"

text \<open>The table has a text for each code from -14 to 0, and the slices lie within it.\<close>

definition entry :: "nat \<Rightarrow> string" where
  "entry k = take (ErrCode_index ! (k + 1) - ErrCode_index ! k) (drop (ErrCode_index ! k) ErrCode_name)"

lemma slices_in_bounds:
  "k < length ErrCode_index - 1 \<Longrightarrow> ErrCode_index ! k < ErrCode_index ! (k + 1) \<and> ErrCode_index ! (k + 1) \<le> length ErrCode_name"
proof -
  have "list_all (\<lambda>k. ErrCode_index ! k < ErrCode_index ! (k + 1) \<and> ErrCode_index ! (k + 1) \<le> length ErrCode_name)
      [0..<length ErrCode_index - 1]"
    by code_simp
  then show "k < length ErrCode_index - 1 \<Longrightarrow> ?thesis" by (simp add: list_all_iff)
qed

lemma in_table: "k <s 0 \<or> word_of_nat (length ErrCode_index - 1) \<le>s k \<longleftrightarrow> \<not> unat k < 15" for k :: "32 word"
proof (cases "unat k < 15")
  case True
  then have "unat k \<in> set [0..<15]" by simp
  then have "k \<in> set (map word_of_nat [0..<15])"
    by (simp only: set_map) (rule image_eqI [of _ _ "unat k"], simp_all)
  then have "k \<in> {0,1,2,3,4,5,6,7,8,9,10,11,12,13,14}" by (simp add: upt_rec)
  then show ?thesis using True by (auto simp: ErrCode_index_def word_sless_alt word_sle_eq)
next
  case False
  have "unat k < 15" if "0 \<le> sint k" "sint k < 15"
  proof -
    have "uint k = sint k mod 2 ^ 32" using uint_sint [of k] by (simp add: take_bit_eq_mod)
    with that have "uint k < 15" by simp
    then show ?thesis by (simp flip: uint_nat add: of_nat_less_iff [where 'a = int, symmetric] del: of_nat_less_iff)
  qed
  with False have "sint k < 0 \<or> 15 \<le> sint k" by linarith
  with False show ?thesis by (auto simp: ErrCode_index_def word_sless_alt word_sle_eq)
qed

lemma entries: "distinct (map entry [0..<15])" "list_all (\<lambda>k. take 8 (entry k) \<noteq> ''ErrCode('') [0..<15]"
  by code_simp+

lemma String_cases:
  "ErrCode_String i = (if unat (i + 14) < 15 then entry (unat (i + 14)) else ''ErrCode('' @ Itoa (sint i) @ '')'')"
proof -
  have "i - (- 14) = i + 14" "(i + 14) + - 14 = i" by simp_all
  then show ?thesis
    using in_table [of "i + 14"] by (auto simp: ErrCode_String_def entry_def Let_def)
qed

text \<open>Every code has a text of its own, whether it is one of the table or not.\<close>

lemma Itoa_inj: "Itoa (sint i) = Itoa (sint j) \<Longrightarrow> i = j" for i j :: "32 word"
proof -
  have "Atoi (Itoa (sint k)) = Some (sint k)" for k :: "32 word"
    using sint_range_size [of k] by (intro Atoi_Itoa) (simp_all add: word_size)
  then show "Itoa (sint i) = Itoa (sint j) \<Longrightarrow> i = j"
    by (metis option.inject signed_word_eqI)
qed

lemma ErrCode_String_injective: "inj ErrCode_String"
proof (rule injI)
  fix i j assume eq: "ErrCode_String i = ErrCode_String j"
  have off: "entry k \<noteq> ''ErrCode('' @ r" if "k < 15" for k r
  proof
    assume "entry k = ''ErrCode('' @ r"
    then have "take 8 (entry k) = ''ErrCode(''" by simp
    then show False using entries(2) that by (simp add: list_all_iff)
  qed
  show "i = j"
  proof (cases "unat (i + 14) < 15"; cases "unat (j + 14) < 15")
    assume "unat (i + 14) < 15" "unat (j + 14) < 15"
    then have "unat (i + 14) = unat (j + 14)"
      using eq inj_onD [OF entries(1) [unfolded distinct_map, THEN conjunct2]] by (simp add: String_cases)
    then have "i + 14 = j + 14" by (simp only: word_unat_eq_iff)
    then show ?thesis by simp
  next
    assume a: "\<not> unat (i + 14) < 15" "\<not> unat (j + 14) < 15"
    then have "Itoa (sint i) = Itoa (sint j)" using eq by (simp add: String_cases)
    then show ?thesis by (rule Itoa_inj)
  qed (use eq off off [symmetric] in \<open>simp_all add: String_cases\<close>)
qed

lemma known_texts:
  "ErrCode_Error EC_OK = ''OK''" "take 5 (ErrCode_Error EC_TokenInvalid) = ''Token''"
  "ErrCode_Error (- 15) = ''ErrCode(-15)''" "ErrCode_Error 1 = ''ErrCode(1)''"
proof -
  have "entry 14 = ''OK''" "take 5 (entry 4) = ''Token''" by code_simp+
  then show "ErrCode_Error EC_OK = ''OK''" "take 5 (ErrCode_Error EC_TokenInvalid) = ''Token''"
    by (simp_all add: ErrCode_Error_def String_cases error_codes)
  have "Itoa (- 15) = ''-15''" "Itoa 1 = ''1''" by code_simp+
  then show "ErrCode_Error (- 15) = ''ErrCode(-15)''" "ErrCode_Error 1 = ''ErrCode(1)''"
    by (simp_all add: ErrCode_Error_def String_cases unsigned_minus_1_eq_mask mask_eq_exp_minus_1)
qed

end
