(* ===== verification/Framing.thy ===== *)
theory Framing
  imports Prelude "HOL-Library.Sublist"
begin

text \<open>
  The framing of messages on a TCP stream: \<open>base/network/session/codec.go\<close> puts a 32-bit
  length before each message, and the read loop of \<open>TCPConnection.serve\<close>
  (\<open>base/network/tcpconnection.go\<close>) hands the frames it reads to the handler until a read
  fails.

  A reader is the list of bytes that are still to arrive before the stream ends; \<open>io_ReadFull\<close>
  is Go's \<open>io.ReadFull\<close> on it. A writer is any \<open>io.Writer\<close>: a function that takes bytes and a
  state and may fail. The read loop is generic in the codec, so it need not end; that it ends
  for the session codec is proved. The locale \<open>framing\<close> is what the read loop needs of a codec.
\<close>

section \<open>Readers and writers\<close>

datatype codec_error =
  IoEOF | IoUnexpectedEOF | CodecReadBodyTooLarge | CodecWriteBodyTooLarge | IoWriteError

definition io_ReadFull :: "nat \<Rightarrow> byte list \<Rightarrow> (codec_error + byte list) \<times> byte list" where
  "io_ReadFull n r =
     (if n \<le> length r then (Inr (take n r), drop n r)
      else (Inl (if r = [] then IoEOF else IoUnexpectedEOF), []))"

type_synonym 'w io_writer = "byte list \<Rightarrow> 'w \<Rightarrow> codec_error option \<times> 'w"

definition buffer_writer :: "byte list io_writer" where
  "buffer_writer bs w = (None, w @ bs)"

text \<open>\<open>binary.BigEndian.Uint32\<close> and \<open>PutUint32\<close> of the Go library.\<close>

definition be_Uint32 :: "byte list \<Rightarrow> u32" where
  "be_Uint32 b = push_bit 24 (ucast (b ! 0)) OR push_bit 16 (ucast (b ! 1))
     OR push_bit 8 (ucast (b ! 2)) OR ucast (b ! 3)"

definition be_PutUint32 :: "u32 \<Rightarrow> byte list" where
  "be_PutUint32 v = [ucast (drop_bit 24 v), ucast (drop_bit 16 v), ucast (drop_bit 8 v), ucast v]"

lemma length_be_PutUint32 [simp]: "length (be_PutUint32 v) = 4"
  by (simp add: be_PutUint32_def)

lemma be_Uint32_PutUint32 [simp]: "be_Uint32 (be_PutUint32 v) = v"
  by (simp add: be_Uint32_def be_PutUint32_def join_bytes_32)

section \<open>The session codec\<close>

definition kSizeMax :: u32 where
  "kSizeMax = push_bit 20 1"

definition SessionCodec_Read :: "byte list \<Rightarrow> (codec_error + byte list) \<times> byte list" where
  "SessionCodec_Read r =
     (case io_ReadFull 4 r of
        (Inl e, r') \<Rightarrow> (Inl e, r')
      | (Inr h, r') \<Rightarrow>
          (let n = be_Uint32 h
           in if n > kSizeMax then (Inl CodecReadBodyTooLarge, r')
              else io_ReadFull (unat n) r'))"

definition SessionCodec_Write :: "'w io_writer \<Rightarrow> byte list \<Rightarrow> 'w \<Rightarrow> codec_error option \<times> 'w" where
  "SessionCodec_Write wr b w =
     (let n = of_nat (length b) :: u32
      in if n > kSizeMax then (Some CodecWriteBodyTooLarge, w)
         else case wr (be_PutUint32 n) w of
           (Some e, w') \<Rightarrow> (Some e, w')
         | (None, w') \<Rightarrow> wr b w')"

text \<open>The bytes of one message on the wire, and the messages \<open>Write\<close> lets through.\<close>

definition frame :: "byte list \<Rightarrow> byte list" where
  "frame b = be_PutUint32 (of_nat (length b)) @ b"

definition fits :: "byte list \<Rightarrow> bool" where
  "fits b \<longleftrightarrow> length b \<le> unat kSizeMax"

lemma unat_kSizeMax: "unat kSizeMax = 2 ^ 20"
  by (simp add: kSizeMax_def)

lemma fits_iff: "fits b \<longleftrightarrow> length b \<le> 1048576"
  by (simp add: fits_def unat_kSizeMax)

lemma fits_word:
  assumes "fits b"
  shows "unat (of_nat (length b) :: u32) = length b" and "\<not> kSizeMax < of_nat (length b)"
proof -
  show u: "unat (of_nat (length b) :: u32) = length b"
    using assms by (simp add: fits_iff unat_of_nat)
  show "\<not> kSizeMax < of_nat (length b)"
    using assms u by (simp add: word_less_nat_alt fits_def)
qed

lemma SessionCodec_Write_buffer:
  "SessionCodec_Write buffer_writer b w =
     (if (of_nat (length b) :: u32) > kSizeMax then (Some CodecWriteBodyTooLarge, w)
      else (None, w @ frame b))"
  by (simp add: SessionCodec_Write_def buffer_writer_def frame_def)

lemma SessionCodec_Read_frame:
  assumes "fits b"
  shows "SessionCodec_Read (frame b @ r) = (Inr b, r)"
  using fits_word [OF assms]
  by (simp add: SessionCodec_Read_def frame_def io_ReadFull_def)

lemma SessionCodec_Read_partial:
  assumes "fits b" and "strict_prefix p (frame b)"
  shows "\<exists>e r. SessionCodec_Read p = (Inl e, r)"
proof (cases "length p < 4")
  case True
  then show ?thesis by (simp add: SessionCodec_Read_def io_ReadFull_def)
next
  case False
  obtain q where q: "frame b = p @ q" "q \<noteq> []"
    using assms(2) by (auto simp: strict_prefix_def prefix_def)
  with False have "take 4 p = be_PutUint32 (of_nat (length b))"
    by (simp add: frame_def) (metis append_eq_append_conv_if length_be_PutUint32 not_less)
  moreover have "length p - 4 < length b"
  proof -
    have "4 + length b = length p + length q" using arg_cong [OF q(1), of length]
      by (simp add: frame_def)
    with q(2) False show ?thesis by (cases q) auto
  qed
  ultimately show ?thesis
    using False fits_word [OF assms(1)]
    by (simp add: SessionCodec_Read_def io_ReadFull_def)
qed

lemma be_PutUint32_Uint32:
  assumes "length h = 4"
  shows "be_PutUint32 (be_Uint32 h) = h"
proof -
  obtain a b c d where h: "h = [a, b, c, d]"
    using assms by (auto simp: length_Suc_conv numeral_eq_Suc)
  show ?thesis unfolding h be_PutUint32_def be_Uint32_def
    using split_bytes_32 [of a b c d] by simp
qed

lemma SessionCodec_Read_sound:
  assumes "SessionCodec_Read r = (Inr b, r')"
  shows "fits b \<and> r = frame b @ r'"
proof -
  let ?n = "be_Uint32 (take 4 r)"
  have r: "4 \<le> length r" "\<not> kSizeMax < ?n" "unat ?n \<le> length (drop 4 r)"
    and b: "b = take (unat ?n) (drop 4 r)" "r' = drop (unat ?n) (drop 4 r)"
    using assms by (auto simp: SessionCodec_Read_def io_ReadFull_def Let_def split: if_splits)
  have len: "length b = unat ?n" using b(1) r(3) by simp
  then have "fits b" using r(2) by (simp add: fits_def word_less_nat_alt)
  moreover have "frame b = take 4 r @ b"
    using r(1) len by (simp add: frame_def be_PutUint32_Uint32)
  ultimately show ?thesis
    using b by (metis append.assoc append_take_drop_id)
qed

section \<open>The read loop\<close>

partial_function (option) serve_read ::
  "(byte list \<Rightarrow> (codec_error + byte list) \<times> byte list) \<Rightarrow> byte list
   \<Rightarrow> (byte list list \<times> codec_error) option" where
  "serve_read rd r =
     (case rd r of
        (Inl e, r') \<Rightarrow> Some ([], e)
      | (Inr b, r') \<Rightarrow> Option.bind (serve_read rd r') (\<lambda>(bs, e). Some (b # bs, e)))"

text \<open>
  What a receiver relies on: \<open>enc b\<close> is read as \<open>b\<close>, an incomplete frame is an error, and
  what is read was framed so.
\<close>

locale framing =
  fixes rd :: "byte list \<Rightarrow> (codec_error + byte list) \<times> byte list"
    and enc :: "byte list \<Rightarrow> byte list"
    and ok :: "byte list \<Rightarrow> bool"
  assumes rd_enc: "ok b \<Longrightarrow> rd (enc b @ r) = (Inr b, r)"
    and rd_partial: "ok b \<Longrightarrow> strict_prefix p (enc b) \<Longrightarrow> \<exists>e r. rd p = (Inl e, r)"
    and rd_end: "rd [] = (Inl IoEOF, [])"
    and rd_sound: "rd r = (Inr b, r') \<Longrightarrow> ok b \<and> r = enc b @ r'"
    and enc_nonempty: "enc b \<noteq> []"
begin

lemma serve_enc:
  "ok b \<Longrightarrow> serve_read rd (enc b @ r) = map_option (apfst ((#) b)) (serve_read rd r)"
  by (subst serve_read.simps) (cases "serve_read rd r"; simp add: rd_enc split_beta apfst_def map_prod_def)

lemma serve_all:
  "list_all ok bs \<Longrightarrow> serve_read rd (concat (map enc bs)) = Some (bs, IoEOF)"
proof (induction bs)
  case Nil
  then show ?case by (subst serve_read.simps) (simp add: rd_end)
next
  case (Cons b bs)
  then show ?case by (simp add: serve_enc)
qed

lemma serve_total:
  "\<exists>bs e. serve_read rd r = Some (bs, e) \<and> list_all ok bs \<and> prefix (concat (map enc bs)) r"
proof (induction r rule: length_induct)
  case (1 r)
  show ?case
  proof (cases "rd r")
    case (Pair x r')
    show ?thesis
    proof (cases x)
      case (Inl e)
      with Pair show ?thesis by (subst serve_read.simps) simp
    next
      case (Inr b)
      with Pair have b: "ok b" "r = enc b @ r'" using rd_sound by auto
      then have "length r' < length r" using enc_nonempty [of b] by simp
      with 1 obtain bs e where "serve_read rd r' = Some (bs, e)" "list_all ok bs"
        "prefix (concat (map enc bs)) r'" by blast
      with b show ?thesis by (intro exI [of _ "b # bs"] exI [of _ e]) (simp add: serve_enc)
    qed
  qed
qed

lemma serve_prefix:
  assumes "list_all ok bs" and "prefix s (concat (map enc bs))"
  shows "\<exists>bs' e. serve_read rd s = Some (bs', e) \<and> prefix bs' bs"
  using assms
proof (induction bs arbitrary: s)
  case Nil
  then show ?case using serve_all [of "[]"] by simp
next
  case (Cons b bs)
  from Cons.prems(2) consider t where "s = enc b @ t" "prefix t (concat (map enc bs))"
    | "strict_prefix s (enc b)"
    by (cases "s = enc b") (auto simp: prefix_append strict_prefix_def)
  then show ?case
  proof cases
    case 1
    with Cons.IH [of t] Cons.prems(1) obtain bs' e
      where "serve_read rd t = Some (bs', e)" "prefix bs' bs" by auto
    with 1 Cons.prems(1) show ?thesis
      by (intro exI [of _ "b # bs'"] exI [of _ e]) (simp add: serve_enc)
  next
    case 2
    with Cons.prems(1) have "\<exists>e r. rd s = (Inl e, r)" by (auto intro: rd_partial)
    then obtain e r where "rd s = (Inl e, r)" by blast
    then show ?thesis by (subst serve_read.simps) simp
  qed
qed

end

interpretation session_framing: framing SessionCodec_Read frame fits
proof unfold_locales
  show "SessionCodec_Read [] = (Inl IoEOF, [])"
    by (simp add: SessionCodec_Read_def io_ReadFull_def)
  show "frame b \<noteq> []" for b
    by (simp add: frame_def be_PutUint32_def)
qed (simp_all add: SessionCodec_Read_frame SessionCodec_Read_partial SessionCodec_Read_sound)

text \<open>Writing several messages one after the other, as the background writer does.\<close>

fun write_all :: "'w io_writer \<Rightarrow> byte list list \<Rightarrow> 'w \<Rightarrow> codec_error option \<times> 'w" where
  "write_all wr [] w = (None, w)"
| "write_all wr (b # bs) w =
     (case SessionCodec_Write wr b w of
        (Some e, w') \<Rightarrow> (Some e, w')
      | (None, w') \<Rightarrow> write_all wr bs w')"

lemma write_all_fits:
  "list_all fits bs \<Longrightarrow> write_all buffer_writer bs w = (None, w @ concat (map frame bs))"
  by (induction bs arbitrary: w) (simp_all add: SessionCodec_Write_buffer fits_word)

section \<open>Properties\<close>

text \<open>
  C5: framing is lossless. Messages of at most \<open>kSizeMax\<close> bytes, written one after the other,
  are all accepted by the writer, and the read loop on the bytes delivers exactly these
  messages in order and then ends with EOF.
\<close>

theorem framing_roundtrip:
  assumes "list_all fits bs"
  shows "\<exists>w. write_all buffer_writer bs [] = (None, w)
    \<and> serve_read SessionCodec_Read w = Some (bs, IoEOF)"
  using write_all_fits [OF assms, of "[]"] session_framing.serve_all [OF assms] by simp

theorem framing_roundtrip_witness:
  "\<exists>w. write_all buffer_writer [[1, 2, 3], [], [4]] [] = (None, w)
    \<and> serve_read SessionCodec_Read w = Some ([[1, 2, 3], [], [4]], IoEOF)"
  by (rule framing_roundtrip) (simp add: fits_iff)

text \<open>
  C24: the read loop is total and bounded on any stream, framed by a peer or not: it ends with
  an error, every message it delivered has at most \<open>kSizeMax\<close> bytes, and the delivered
  messages, framed, are the beginning of the stream.
\<close>

theorem read_loop_total_and_bounded:
  "\<exists>bs e. serve_read SessionCodec_Read r = Some (bs, e)
    \<and> list_all (\<lambda>b. length b \<le> 1048576) bs
    \<and> prefix (concat (map frame bs)) r"
  using session_framing.serve_total [of r] by (auto simp: fits_iff [abs_def] list_all_def)

text \<open>
  \<open>Write\<close> checks the length as a 32-bit number. A message is refused, with nothing
  written, exactly when its length modulo 2 to the 32 exceeds the limit; one of 4 GiB or more
  can pass, with a header that does not describe it.
\<close>

lemma Write_checks_length_mod_2_32:
  "SessionCodec_Write buffer_writer b w
   = (if length b mod 2 ^ 32 > 2 ^ 20 then (Some CodecWriteBodyTooLarge, w)
      else (None, w @ be_PutUint32 (of_nat (length b mod 2 ^ 32)) @ b))"
proof -
  have u: "unat (of_nat (length b) :: u32) = length b mod 2 ^ 32" by (simp add: unat_of_nat)
  have "(of_nat (length b) :: u32) > kSizeMax \<longleftrightarrow> length b mod 2 ^ 32 > 2 ^ 20"
    by (simp only: word_less_nat_alt u unat_kSizeMax)
  moreover have "(of_nat (length b mod 2 ^ 32) :: u32) = of_nat (length b)"
    by (metis u word_unat_eq_iff unat_of_nat mod_mod_trivial)
  ultimately show ?thesis
    by (simp add: SessionCodec_Write_buffer frame_def del: of_nat_mod)
qed

end
