(* ===== verification/Drain.thy ===== *)
theory Drain
  imports Prelude "HOL-Library.Sublist"
begin

text \<open>
  The contract of a swap-and-drain queue, which both the background writer of a connection
  (\<open>base/network/tcpconnection.go\<close>) and the event loop (\<open>base/eventloop/eventloop.go\<close>) keep:
  producers append to a pending list, one consumer swaps it out and works the batch off item
  by item. What was posted is always what is finished, then what is in flight, then what is
  pending, in this order; so items finish in the order they were posted and none twice.
\<close>

lemma prefix_longer:
  "prefix x (a @ b) \<Longrightarrow> prefix x (a @ b @ c)"
  "prefix x (a @ b @ c) \<Longrightarrow> prefix x (a @ b @ c @ d)"
  using prefix_prefix [of x "a @ b" c] prefix_prefix [of x "a @ b @ c" d] by simp_all

locale drain =
  fixes start :: 's
    and step :: "'s \<Rightarrow> 's \<Rightarrow> bool"
    and posted :: "'s \<Rightarrow> 'a list"
    and finished :: "'s \<Rightarrow> 'a list"
    and inflight :: "'s \<Rightarrow> 'a list"
    and pending :: "'s \<Rightarrow> 'a list"
  assumes start_conserves: "posted start = finished start @ inflight start @ pending start"
    and step_conserves: "step s t \<Longrightarrow> posted s = finished s @ inflight s @ pending s
      \<Longrightarrow> posted t = finished t @ inflight t @ pending t"
    and posted_grows: "step s t \<Longrightarrow> prefix (posted s) (posted t)"
    and finished_grows: "step s t \<Longrightarrow> prefix (finished s) (finished t)"
begin

lemma conserved: "step\<^sup>*\<^sup>* start s \<Longrightarrow> posted s = finished s @ inflight s @ pending s"
proof (induction rule: rtranclp_induct)
  case base
  show ?case by (rule start_conserves)
next
  case (step s t)
  then show ?case using step_conserves by blast
qed

lemma finished_in_order: "step\<^sup>*\<^sup>* start s \<Longrightarrow> prefix (finished s) (posted s)"
  by (simp add: conserved)

lemma posted_kept: "step\<^sup>*\<^sup>* s t \<Longrightarrow> prefix (posted s) (posted t)"
  by (induction rule: rtranclp_induct) (auto dest: posted_grows intro: prefix_order.order_trans)

lemma finished_kept: "step\<^sup>*\<^sup>* s t \<Longrightarrow> prefix (finished s) (finished t)"
  by (induction rule: rtranclp_induct) (auto dest: finished_grows intro: prefix_order.order_trans)

lemma all_finished:
  "step\<^sup>*\<^sup>* start s \<Longrightarrow> inflight s = [] \<Longrightarrow> pending s = [] \<Longrightarrow> finished s = posted s"
  using conserved by fastforce

end

end
