(* ===== verification/Winding.thy ===== *)
theory Winding
  imports Prelude "HOL-Library.Product_Lexorder"
begin

text \<open>
  The contract of a goroutine that ends after it has been asked to: once the closing has begun,
  every step of the goroutine (\<open>moves\<close>) lessens the work that is left, no step of anybody else
  adds to it, and the goroutine can move until it has ended. Then a run in which the goroutine
  keeps moving ends it for good. The background writer of a connection, the event loop, and the
  loops of the TCP server and client keep the contract.
\<close>

locale winding_down =
  fixes step :: "'s \<Rightarrow> 's \<Rightarrow> bool"
    and closing :: "'s \<Rightarrow> bool"
    and moves :: "'s \<Rightarrow> 's \<Rightarrow> bool"
    and work :: "'s \<Rightarrow> 'w::wellorder"
    and ended :: "'s \<Rightarrow> bool"
  assumes closing_stays: "step s t \<Longrightarrow> closing s \<Longrightarrow> closing t"
    and no_new_work: "step s t \<Longrightarrow> closing s \<Longrightarrow> work t \<le> work s"
    and moves_work: "step s t \<Longrightarrow> closing s \<Longrightarrow> moves s t \<Longrightarrow> work t < work s"
    and can_move: "closing s \<Longrightarrow> \<not> ended s \<Longrightarrow> \<exists>t. step s t \<and> moves s t"
    and ended_stays: "step s t \<Longrightarrow> closing s \<Longrightarrow> ended s \<Longrightarrow> ended t"
begin

lemma can_end: "closing s \<Longrightarrow> \<exists>t. step\<^sup>*\<^sup>* s t \<and> ended t"
proof (induction "work s" arbitrary: s rule: less_induct)
  case less
  show ?case
  proof (cases "ended s")
    case False
    then obtain t where t: "step s t" "moves s t" using can_move less.prems by blast
    then obtain u where "step\<^sup>*\<^sup>* t u" "ended u"
      using less.hyps [of t] moves_work closing_stays less.prems by blast
    then show ?thesis using t(1) by (meson converse_rtranclp_into_rtranclp)
  qed auto
qed

lemma run_stays:
  assumes "\<And>i. step (f i) (f (Suc i))" and "closing (f i)"
  shows "closing (f (i + k)) \<and> work (f (i + k)) \<le> work (f i) \<and> (ended (f i) \<longrightarrow> ended (f (i + k)))"
proof (induction k)
  case (Suc k)
  then show ?case
    using assms(1) [of "i + k"] closing_stays no_new_work ended_stays order_trans by (metis add_Suc_right)
qed (simp add: assms(2))

lemma fair_run_ends:
  assumes run: "\<And>i. step (f i) (f (Suc i))" and "closing (f i)"
    and fair: "\<And>i. \<not> ended (f i) \<Longrightarrow> \<exists>j \<ge> i. moves (f j) (f (Suc j))"
  shows "\<exists>n. \<forall>m \<ge> n. ended (f m)"
  using assms(2)
proof (induction "work (f i)" arbitrary: i rule: less_induct)
  case less
  show ?case
  proof (cases "ended (f i)")
    case True
    then have "ended (f m)" if "m \<ge> i" for m
      using run_stays [OF run less.prems, of "m - i"] that by simp
    then show ?thesis by blast
  next
    case False
    then obtain j where j: "j \<ge> i" "moves (f j) (f (Suc j))" using fair by blast
    have "closing (f j)" "work (f j) \<le> work (f i)"
      using run_stays [OF run less.prems, of "j - i"] j(1) by simp_all
    then have "work (f (Suc j)) < work (f i)" "closing (f (Suc j))"
      using moves_work [OF run _ j(2)] closing_stays [OF run] by (auto intro: less_le_trans)
    then show ?thesis using less.hyps by blast
  qed
qed

end

text \<open>
  That a goroutine keeps moving is itself in need of proof where it sleeps on a condition variable
  and others have to wake it. Then fairness is that of the scheduler alone: whoever can take a
  step from some moment on takes one (\<open>weakly_fair\<close>). The contract adds whose step it takes:
  \<open>helper s\<close> is the party whose turn moves the goroutine on from \<open>s\<close>, be it the goroutine itself or
  somebody who is about to signal, and it stays so until the goroutine has been moved.
\<close>

definition weakly_fair :: "('s \<Rightarrow> 's \<Rightarrow> bool) \<Rightarrow> (nat \<Rightarrow> 's) \<Rightarrow> bool" where
  "weakly_fair turn f \<longleftrightarrow> (\<forall>i. (\<forall>j \<ge> i. \<exists>t. turn (f j) t) \<longrightarrow> (\<exists>j \<ge> i. turn (f j) (f (Suc j))))"

lemma weakly_fair_quiet:
  assumes "\<And>i t. n \<le> i \<Longrightarrow> \<not> turn (f i) t"
  shows "weakly_fair turn f"
  unfolding weakly_fair_def using assms [OF max.cobounded2] max.cobounded1 by metis

locale scheduled_winding_down = winding_down step closing moves work ended
  for step :: "'s \<Rightarrow> 's \<Rightarrow> bool" and closing moves and work :: "'s \<Rightarrow> 'w::wellorder" and ended +
  fixes turn :: "'p \<Rightarrow> 's \<Rightarrow> 's \<Rightarrow> bool"
    and helper :: "'s \<Rightarrow> 'p"
  assumes ends_by_moving: "step s t \<Longrightarrow> closing s \<Longrightarrow> \<not> ended s \<Longrightarrow> ended t \<Longrightarrow> moves s t"
    and helper_can: "closing s \<Longrightarrow> \<not> ended s \<Longrightarrow> \<exists>t. turn (helper s) s t"
    and helper_moves: "closing s \<Longrightarrow> \<not> ended s \<Longrightarrow> turn (helper s) s t \<Longrightarrow> moves s t"
    and helper_stays: "step s t \<Longrightarrow> closing s \<Longrightarrow> \<not> moves s t \<Longrightarrow> helper t = helper s"
begin

lemma helper_stays_until_moved:
  assumes run: "\<And>i. step (f i) (f (Suc i))" and "closing (f i)" and still: "\<And>j. i \<le> j \<Longrightarrow> \<not> moves (f j) (f (Suc j))"
  shows "helper (f (i + k)) = helper (f i)"
proof (induction k)
  case (Suc k)
  have "closing (f (i + k))" using run_stays [OF run assms(2)] by blast
  then show ?case using helper_stays [OF run] still [of "i + k"] Suc by simp
qed simp

lemma scheduled_run_ends:
  assumes run: "\<And>i. step (f i) (f (Suc i))" and "closing (f 0)" and fair: "\<And>p. weakly_fair (turn p) f"
  shows "\<exists>n. \<forall>m \<ge> n. ended (f m)"
proof (rule fair_run_ends [OF run assms(2)])
  fix i assume live: "\<not> ended (f i)"
  show "\<exists>j \<ge> i. moves (f j) (f (Suc j))"
  proof (rule ccontr)
    assume "\<not> (\<exists>j \<ge> i. moves (f j) (f (Suc j)))"
    then have still: "\<not> moves (f j) (f (Suc j))" if "i \<le> j" for j using that by blast
    have closing: "closing (f j)" for j using run_stays [OF run assms(2), of j] by simp
    have helper: "helper (f j) = helper (f i)" if "i \<le> j" for j
      using helper_stays_until_moved [where f = f and i = i and k = "j - i", OF run closing still] that by simp
    show False
    proof (cases "\<exists>j \<ge> i. ended (f j)")
      case True
      then obtain j where j: "i \<le> j" "ended (f j)" "\<And>k. i \<le> k \<Longrightarrow> k < j \<Longrightarrow> \<not> ended (f k)"
        using LeastI_ex [of "\<lambda>j. i \<le> j \<and> ended (f j)"] not_less_Least [of _ "\<lambda>j. i \<le> j \<and> ended (f j)"] by blast
      then obtain k where k: "j = Suc k" "i \<le> k" using live by (metis le_SucE le_neq_implies_less not0_implies_Suc not_less_zero)
      then show False using ends_by_moving [OF run closing] still [of k] j by auto
    next
      case False
      then have "\<forall>j \<ge> i. \<exists>t. turn (helper (f i)) (f j) t" using helper_can [OF closing] helper by metis
      then obtain j where "i \<le> j" "turn (helper (f i)) (f j) (f (Suc j))"
        using fair [of "helper (f i)"] unfolding weakly_fair_def by blast
      then show False using helper_moves [OF closing] helper still False by metis
    qed
  qed
qed

end

end
