(* ===== verification/Connection.thy ===== *)
theory Connection
  imports Framing Drain Winding
begin

text \<open>
  \<open>TCPConnection\<close> of \<open>base/network/tcpconnection.go\<close>: any goroutine may \<open>Send\<close> or
  \<open>Shutdown\<close>; one background writer swaps the pending buffers out, writes them through the
  session codec into a buffered writer and flushes.

  The operations that hold the mutex are functions on the state; the writer goroutine is a
  program counter (\<open>wpc\<close>), and \<open>conn_step\<close> interleaves it with the callers at the points
  where it does not hold the mutex. A writer that finds nothing to do sleeps in \<open>cond.Wait\<close>
  (\<open>Asleep\<close>) until somebody signals: \<open>stopBackgroundWrite\<close> does so under the mutex, \<open>Send\<close> after it
  has unlocked it (\<open>conn_signals\<close> are those who still have to), \<open>closeSend\<close> not at all. The buffered writer (Go's \<open>bufio.Writer\<close>) holds the bytes
  \<open>wbuf\<close>, which it may spill to the socket at any time; \<open>sent\<close> are the bytes on the socket.
  A socket error can strike any write or flush. The fields \<open>accepted\<close> and \<open>written\<close> are
  bookkeeping for the statements: what \<open>Send\<close> accepted and what the codec wrote.
\<close>

section \<open>State and operations\<close>

datatype writer_pc =
    NotStarted
  | Waiting                        \<comment> \<open>about to look at the condition of the wait loop\<close>
  | Asleep                         \<comment> \<open>in \<open>cond.Wait\<close>\<close>
  | Writing "byte list list" bool  \<comment> \<open>the rest of the batch, and \<open>closed\<close> as read at the swap\<close>
  | Failed "byte list list"        \<comment> \<open>the goroutine returned on an error, leaving these\<close>
  | Finished                       \<comment> \<open>the goroutine returned after a flush with \<open>closed\<close> set\<close>

record tcpconn =
  bufs :: "byte list list"
  closed :: bool
  wpc :: writer_pc
  conn_signals :: nat
  wbuf :: "byte list"
  sent :: "byte list"
  sock_closed :: bool
  accepted :: "byte list list"
  written :: "byte list list"

definition newTCPConnection :: tcpconn where
  "newTCPConnection = \<lparr>bufs = [], closed = False, wpc = NotStarted, conn_signals = 0, wbuf = [], sent = [],
     sock_closed = False, accepted = [], written = []\<rparr>"

definition Send :: "byte list list \<Rightarrow> tcpconn \<Rightarrow> bool \<times> tcpconn" where
  "Send b c =
     (if closed c then (False, c)
      else (True, c\<lparr>bufs := bufs c @ b, conn_signals := Suc (conn_signals c), accepted := accepted c @ b\<rparr>))"

text \<open>\<open>cond.Signal\<close>: it wakes the writer if that is asleep.\<close>

definition wake :: "tcpconn \<Rightarrow> tcpconn" where
  "wake c = c\<lparr>wpc := (case wpc c of Asleep \<Rightarrow> Waiting | pc \<Rightarrow> pc)\<rparr>"

definition conn_Signal :: "tcpconn \<Rightarrow> tcpconn" where
  "conn_Signal c = (wake c)\<lparr>conn_signals := conn_signals c - 1\<rparr>"

definition startBackgroundWrite :: "tcpconn \<Rightarrow> tcpconn" where
  "startBackgroundWrite c = (if closed c then c else c\<lparr>wpc := Waiting\<rparr>)"

definition stopBackgroundWrite :: "tcpconn \<Rightarrow> tcpconn" where
  "stopBackgroundWrite c = (if closed c then c else wake (c\<lparr>closed := True\<rparr>))"

definition closeSend :: "tcpconn \<Rightarrow> tcpconn" where
  "closeSend c = (if closed c then c else c\<lparr>closed := True\<rparr>)"

definition Shutdown :: "tcpconn \<Rightarrow> tcpconn" where
  "Shutdown c = stopBackgroundWrite c"

definition conn_close :: "tcpconn \<Rightarrow> tcpconn" where
  "conn_close c = c\<lparr>sock_closed := True\<rparr>"

text \<open>
  The steps of \<open>backgroundWrite\<close>: it sleeps while there is nothing to do, and the wait loop ends when the connection is closed or there
  is something to write (\<open>swap\<close>); then each buffer goes through the codec, and after the
  batch the writer flushes. On an error it calls \<open>closeSend\<close> and returns; the deferred
  function closes the socket.
\<close>

definition writer_ready :: "tcpconn \<Rightarrow> bool" where
  "writer_ready c \<longleftrightarrow> wpc c = Waiting \<and> (closed c \<or> bufs c \<noteq> [])"

definition writer_idle :: "tcpconn \<Rightarrow> bool" where
  "writer_idle c \<longleftrightarrow> wpc c = Waiting \<and> \<not> closed c \<and> bufs c = []"

definition writer_sleep :: "tcpconn \<Rightarrow> tcpconn" where
  "writer_sleep c = c\<lparr>wpc := Asleep\<rparr>"

definition writer_swap :: "tcpconn \<Rightarrow> tcpconn" where
  "writer_swap c = c\<lparr>wpc := Writing (bufs c) (closed c), bufs := []\<rparr>"

definition writer_fail :: "byte list list \<Rightarrow> tcpconn \<Rightarrow> tcpconn" where
  "writer_fail rest c = (closeSend c)\<lparr>wpc := Failed rest, sock_closed := True\<rparr>"

definition writer_flushed :: "bool \<Rightarrow> tcpconn \<Rightarrow> tcpconn" where
  "writer_flushed cl c = c\<lparr>sent := sent c @ wbuf c, wbuf := [],
     wpc := (if cl then Finished else Waiting), sock_closed := (cl \<or> sock_closed c)\<rparr>"

text \<open>What the writer's goroutine does by itself; it takes no step while it is asleep.\<close>

inductive writer_turn :: "tcpconn \<Rightarrow> tcpconn \<Rightarrow> bool" where
  sleep: "writer_idle c \<Longrightarrow> writer_turn c (writer_sleep c)"
| swap: "writer_ready c \<Longrightarrow> writer_turn c (writer_swap c)"
| write_ok: "wpc c = Writing (b # rest) cl \<Longrightarrow>
    SessionCodec_Write buffer_writer b (wbuf c) = (None, w) \<Longrightarrow>
    writer_turn c (c\<lparr>wpc := Writing rest cl, wbuf := w, written := written c @ [b]\<rparr>)"
| write_refused: "wpc c = Writing (b # rest) cl \<Longrightarrow>
    SessionCodec_Write buffer_writer b (wbuf c) = (Some e, w) \<Longrightarrow>
    writer_turn c (writer_fail (b # rest) c)"
| write_io_error: "wpc c = Writing (b # rest) cl \<Longrightarrow>
    SessionCodec_Write buffer_writer b (wbuf c) = (None, w) \<Longrightarrow> prefix x w \<Longrightarrow>
    writer_turn c (writer_fail (b # rest) (c\<lparr>sent := sent c @ x, wbuf := []\<rparr>))"
| flush_ok: "wpc c = Writing [] cl \<Longrightarrow> writer_turn c (writer_flushed cl c)"
| flush_error: "wpc c = Writing [] cl \<Longrightarrow> prefix x (wbuf c) \<Longrightarrow>
    writer_turn c (writer_fail [] (c\<lparr>sent := sent c @ x, wbuf := []\<rparr>))"

inductive conn_step :: "tcpconn \<Rightarrow> tcpconn \<Rightarrow> bool" where
  send: "conn_step c (snd (Send b c))"
| start: "wpc c = NotStarted \<Longrightarrow> conn_step c (startBackgroundWrite c)"
| shutdown: "conn_step c (Shutdown c)"
| hard_close: "conn_step c (conn_close c)"
| signal: "0 < conn_signals c \<Longrightarrow> conn_step c (conn_Signal c)"
| writer: "writer_turn c d \<Longrightarrow> conn_step c d"
| spill: "wpc c = Writing rest cl \<Longrightarrow> wbuf c = x @ y \<Longrightarrow>
    conn_step c (c\<lparr>sent := sent c @ x, wbuf := y\<rparr>)"

lemmas conn_defs [model_defs] =
  newTCPConnection_def Send_def wake_def conn_Signal_def writer_idle_def writer_sleep_def startBackgroundWrite_def stopBackgroundWrite_def closeSend_def
  Shutdown_def conn_close_def writer_ready_def writer_swap_def writer_fail_def writer_flushed_def

fun batch :: "writer_pc \<Rightarrow> byte list list" where
  "batch (Writing bs _) = bs"
| "batch (Failed bs) = bs"
| "batch _ = []"

lemma wake_fields [simp]:
  "bufs (wake c) = bufs c" "closed (wake c) = closed c" "wbuf (wake c) = wbuf c" "sent (wake c) = sent c"
  "sock_closed (wake c) = sock_closed c" "accepted (wake c) = accepted c" "written (wake c) = written c"
  "conn_signals (wake c) = conn_signals c" "batch (wpc (wake c)) = batch (wpc c)"
  by (simp_all add: wake_def split: writer_pc.split)

lemma turn_conserves:
  "writer_turn c d \<Longrightarrow> accepted d = accepted c \<and> prefix (written c) (written d)
    \<and> written d @ batch (wpc d) @ bufs d = written c @ batch (wpc c) @ bufs c"
  by (induction rule: writer_turn.induct) (auto simp: conn_defs)

lemma step_conserves:
  "conn_step c d \<Longrightarrow> prefix (accepted c) (accepted d) \<and> prefix (written c) (written d)
    \<and> (accepted c = written c @ batch (wpc c) @ bufs c \<longrightarrow> accepted d = written d @ batch (wpc d) @ bufs d)"
proof (induction rule: conn_step.induct)
  case (writer c d)
  then show ?case using turn_conserves [of c d] by simp
qed (auto simp: conn_defs split: writer_pc.split)

interpretation writer: drain newTCPConnection conn_step accepted written "\<lambda>c. batch (wpc c)" bufs
proof unfold_locales
qed (blast dest: step_conserves | simp add: conn_defs)+

section \<open>What is on the wire\<close>

definition wire :: "byte list list \<Rightarrow> byte list" where
  "wire bs = concat (map frame bs)"

lemma wire_append [simp]: "wire (a @ b) = wire a @ wire b"
  by (simp add: wire_def)

lemma wire_simps' [simp]: "wire [] = []" "wire (b # bs) = frame b @ wire bs"
  by (simp_all add: wire_def)

definition passes :: "byte list \<Rightarrow> bool" where
  "passes b \<longleftrightarrow> \<not> (of_nat (length b) :: u32) > kSizeMax"

lemma codec_ok_iff:
  "SessionCodec_Write buffer_writer b w = (None, w') \<longleftrightarrow> passes b \<and> w' = w @ frame b"
  by (auto simp: SessionCodec_Write_buffer passes_def)

text \<open>
  As long as the writer has not failed, the socket and the buffered writer together hold
  exactly the frames of what was written; after a failure the socket holds a prefix of the
  frames of some first part of what was accepted (\<open>carries\<close>). Once the writer has read \<open>closed\<close> nothing is pending any more.
\<close>

definition carries :: "byte list \<Rightarrow> byte list list \<Rightarrow> bool" where
  "carries s acc \<longleftrightarrow> (\<exists>bs. prefix bs acc \<and> list_all passes bs \<and> prefix s (wire bs))"

definition conn_inv :: "tcpconn \<Rightarrow> bool" where
  "conn_inv c \<longleftrightarrow> accepted c = written c @ batch (wpc c) @ bufs c \<and> list_all passes (written c) \<and>
     (case wpc c of
        NotStarted \<Rightarrow> sent c @ wbuf c = wire (written c)
      | Waiting \<Rightarrow> sent c @ wbuf c = wire (written c)
      | Asleep \<Rightarrow> sent c @ wbuf c = wire (written c) \<and> \<not> closed c
      | Writing _ cl \<Rightarrow> sent c @ wbuf c = wire (written c) \<and> (cl \<longrightarrow> closed c \<and> bufs c = [])
      | Failed _ \<Rightarrow> carries (sent c) (accepted c) \<and> closed c \<and> sock_closed c
      | Finished \<Rightarrow> sent c = wire (written c) \<and> wbuf c = [] \<and> closed c \<and> bufs c = [] \<and> sock_closed c)"

lemma conn_inv_new: "conn_inv newTCPConnection"
  by (simp add: conn_inv_def conn_defs)

lemma conn_inv_Send: "conn_inv c \<Longrightarrow> conn_inv (snd (Send b c))"
  by (auto simp: conn_inv_def Send_def prefix_def split: writer_pc.splits)

lemma carriesI:
  "prefix bs acc \<Longrightarrow> list_all passes bs \<Longrightarrow> prefix s (wire bs) \<Longrightarrow> carries s acc"
  by (auto simp: carries_def)

lemma conn_inv_io_error:
  assumes "conn_inv c" and "wpc c = Writing rest cl" and "rest = done_part @ undone"
    and "list_all passes done_part" and "prefix x (wbuf c @ wire done_part)"
  shows "conn_inv (writer_fail rest (c\<lparr>sent := sent c @ x, wbuf := []\<rparr>))"
proof -
  have w: "sent c @ wbuf c = wire (written c)"
    using assms(1,2) by (simp add: conn_inv_def)
  have "prefix (sent c @ x) (sent c @ wbuf c @ wire done_part)" using assms(5) by simp
  also have "sent c @ wbuf c @ wire done_part = wire (written c @ done_part)"
    by (metis w append.assoc wire_append)
  finally have "carries (sent c @ x) (accepted c)"
    using assms(1-4) by (intro carriesI [of "written c @ done_part"]) (auto simp: conn_inv_def)
  then show ?thesis
    using assms(1,2) by (simp add: conn_inv_def conn_defs)
qed

lemma conn_inv_turn: "writer_turn c d \<Longrightarrow> conn_inv c \<Longrightarrow> conn_inv d"
proof (induction rule: writer_turn.induct)
  case (write_io_error c b rest cl w x)
  then have "list_all passes [b]" and "prefix x (wbuf c @ wire [b])" by (simp_all add: codec_ok_iff)
  with write_io_error.prems write_io_error.hyps(1) show ?case
    by (intro conn_inv_io_error [of c "b # rest" cl "[b]" rest]) simp_all
next
  case (flush_error c cl x)
  then show ?case by (intro conn_inv_io_error [of c "[]" cl "[]" "[]"]) simp_all
next
  case (write_refused c b rest cl e w)
  then have "carries (sent c) (accepted c)"
    by (intro carriesI [of "written c"]) (auto simp: conn_inv_def intro: prefixI dest: sym)
  with write_refused show ?case
    by (auto simp: conn_inv_def conn_defs)
qed (auto simp: conn_inv_def conn_defs codec_ok_iff split: writer_pc.splits)

lemma conn_inv_step: "conn_step c d \<Longrightarrow> conn_inv c \<Longrightarrow> conn_inv d"
proof (induction rule: conn_step.induct)
  case (send c b)
  then show ?case by (rule conn_inv_Send)
next
  case (writer c d)
  then show ?case by (rule conn_inv_turn)
qed (auto simp: conn_inv_def conn_defs split: writer_pc.splits)

lemma reachable_conn_inv: "conn_step\<^sup>*\<^sup>* newTCPConnection c \<Longrightarrow> conn_inv c"
  by (induction rule: rtranclp_induct) (auto intro: conn_inv_new conn_inv_step)

lemma conn_inv_carries:
  assumes "conn_inv c"
  shows "carries (sent c) (accepted c)"
proof (cases "wpc c")
  case (Failed bs)
  with assms show ?thesis unfolding conn_inv_def by (elim conjE) (simp only: writer_pc.case)
next
  case Finished
  with assms show ?thesis by (intro carriesI [of "written c"]) (auto simp: conn_inv_def)
qed (use assms in \<open>intro carriesI [of "written c"]; auto simp: conn_inv_def intro: prefixI dest: sym\<close>)+

lemma closed_stays: "conn_step c d \<Longrightarrow> closed c \<Longrightarrow> closed d \<and> accepted d = accepted c"
  by (induction rule: conn_step.induct; (erule writer_turn.cases)?; auto simp: conn_defs)

lemma closed_freezes: "conn_step\<^sup>*\<^sup>* c d \<Longrightarrow> closed c \<Longrightarrow> closed d \<and> accepted d = accepted c"
  by (induction rule: rtranclp_induct) (auto dest: closed_stays)

lemma passes_fits: "passes b \<Longrightarrow> length b < 2 ^ 32 \<Longrightarrow> fits b"
  by (simp add: passes_def fits_def word_less_nat_alt unat_of_nat)

lemma serve_carried:
  assumes "carries s acc" and "\<forall>b \<in> set acc. length b < 2 ^ 32"
  shows "\<exists>bs e. serve_read SessionCodec_Read s = Some (bs, e) \<and> prefix bs acc"
proof -
  obtain bs where bs: "prefix bs acc" "list_all passes bs" "prefix s (wire bs)"
    using assms(1) by (auto simp: carries_def)
  have "set bs \<subseteq> set acc" using bs(1) by (rule set_mono_prefix)
  with bs(2) assms(2) have "list_all fits bs"
    by (auto simp: list_all_iff intro!: passes_fits)
  then show ?thesis
    using session_framing.serve_prefix [of bs s] bs(1,3) prefix_order.order_trans
    by (fastforce simp: wire_def)
qed

section \<open>Properties\<close>

text \<open>
  C4: in every reachable state of a connection, whatever part of the bytes sent so far has
  arrived, the peer's read loop delivers a prefix of the messages that \<open>Send\<close> accepted:
  unchanged, in order, none twice, none invented, also after socket errors, refused messages
  and \<open>Shutdown\<close> (messages below 4 GiB; see the framing).
\<close>

theorem delivery_is_a_prefix:
  assumes "conn_step\<^sup>*\<^sup>* newTCPConnection c"
    and "\<forall>b \<in> set (accepted c). length b < 2 ^ 32"
    and "prefix arrived (sent c)"
  shows "\<exists>bs e. serve_read SessionCodec_Read arrived = Some (bs, e) \<and> prefix bs (accepted c)"
proof -
  have "carries arrived (accepted c)"
    using conn_inv_carries [OF reachable_conn_inv [OF assms(1)]] assms(3)
    by (auto simp: carries_def intro: prefix_order.order_trans)
  then show ?thesis using assms(2) by (rule serve_carried)
qed

text \<open>A run of the connection: start, two sends in one call, shutdown, and the writer finishes.\<close>

definition demo_conn :: tcpconn where
  "demo_conn = \<lparr>bufs = [], closed = True, wpc = Finished, conn_signals = 1, wbuf = [], sent = wire [[1], [2, 3]],
     sock_closed = True, accepted = [[1], [2, 3]], written = [[1], [2, 3]]\<rparr>"

definition demo_flushing :: tcpconn where
  "demo_flushing = \<lparr>bufs = [], closed = True, wpc = Writing [] True, conn_signals = 1, wbuf = wire [[1], [2, 3]], sent = [],
     sock_closed = False, accepted = [[1], [2, 3]], written = [[1], [2, 3]]\<rparr>"

lemma demo_flushing_reachable: "conn_step\<^sup>*\<^sup>* newTCPConnection demo_flushing"
proof -
  note trans = rtranclp.rtrancl_into_rtrancl
  let ?c1 = "startBackgroundWrite newTCPConnection"
  let ?c2 = "snd (Send [[1], [2, 3]] ?c1)"
  let ?c3 = "Shutdown ?c2"
  let ?c4 = "writer_swap ?c3"
  let ?c5 = "?c4\<lparr>wpc := Writing [[2, 3]] True, wbuf := frame [1], written := [[1]]\<rparr>"
  let ?c6 = "?c5\<lparr>wpc := Writing [] True, wbuf := frame [1] @ frame [2, 3], written := [[1], [2, 3]]\<rparr>"
  have s1: "conn_step newTCPConnection ?c1" by (rule conn_step.start) (simp add: conn_defs)
  have s2: "conn_step ?c1 ?c2" by (rule conn_step.send)
  have s3: "conn_step ?c2 ?c3" by (rule conn_step.shutdown)
  have s4: "conn_step ?c3 ?c4" by (intro conn_step.writer writer_turn.swap) (simp add: conn_defs)
  have s5: "conn_step ?c4 ?c5"
    using writer_turn.write_ok [of ?c4 "[1]" "[[2, 3]]" True "frame [1]"]
    by (simp add: conn_defs codec_ok_iff passes_def kSizeMax_def conn_step.writer)
  have s6: "conn_step ?c5 ?c6"
    using writer_turn.write_ok [of ?c5 "[2, 3]" "[]" True "frame [1] @ frame [2, 3]"]
    by (simp add: codec_ok_iff passes_def kSizeMax_def conn_step.writer)
  have "?c6 = demo_flushing"
    by (simp add: conn_defs demo_flushing_def)
  moreover have "conn_step\<^sup>*\<^sup>* newTCPConnection ?c3"
    using s1 s2 s3 by (meson rtranclp.rtrancl_refl trans)
  then have "conn_step\<^sup>*\<^sup>* newTCPConnection ?c6"
    using s4 s5 s6 by (meson trans)
  ultimately show ?thesis by (simp only:)
qed

lemma demo_conn_reachable: "conn_step\<^sup>*\<^sup>* newTCPConnection demo_conn"
proof -
  have "conn_step demo_flushing demo_conn"
    using writer_turn.flush_ok [of demo_flushing True]
    by (simp add: demo_flushing_def demo_conn_def writer_flushed_def conn_step.writer)
  then show ?thesis using demo_flushing_reachable by (rule rtranclp.rtrancl_into_rtrancl [rotated])
qed

theorem delivery_is_a_prefix_witness:
  "\<exists>bs e. serve_read SessionCodec_Read (take 7 (sent demo_conn)) = Some (bs, e)
    \<and> prefix bs [[1], [2, 3]]"
proof -
  have acc: "accepted demo_conn = [[1], [2, 3]]" by (simp add: demo_conn_def)
  have "\<forall>b \<in> set (accepted demo_conn). length b < 2 ^ 32" by (simp add: acc)
  from delivery_is_a_prefix [OF demo_conn_reachable this take_is_prefix [of 7]]
  show ?thesis by (simp only: acc)
qed

lemma finished_delivers:
  assumes "conn_step\<^sup>*\<^sup>* newTCPConnection c"
    and "wpc c = Finished"
    and "\<forall>b \<in> set (accepted c). length b < 2 ^ 32"
  shows "serve_read SessionCodec_Read (sent c) = Some (accepted c, IoEOF)" "closed c"
proof -
  have inv: "conn_inv c" using assms(1) by (rule reachable_conn_inv)
  have all: "accepted c = written c"
    using writer.all_finished [OF assms(1)] inv assms(2) by (simp add: conn_inv_def)
  then have "list_all fits (accepted c)"
    using inv assms(3) by (auto simp: conn_inv_def list_all_iff intro: passes_fits)
  then show "serve_read SessionCodec_Read (sent c) = Some (accepted c, IoEOF)"
    using session_framing.serve_all [of "accepted c"] inv assms(2) all
    by (simp add: conn_inv_def wire_def)
  show "closed c" using inv assms(2) by (simp add: conn_inv_def)
qed

text \<open>
  C8: a graceful shutdown loses nothing. When the background writer has finished (it saw
  \<open>closed\<close>, wrote its last batch and flushed it without error), the peer's read loop delivers
  exactly the messages \<open>Send\<close> accepted, all of them, and then EOF; and from the moment the
  connection is closed no later run accepts another message.
\<close>

theorem graceful_shutdown_delivers_everything:
  assumes "conn_step\<^sup>*\<^sup>* newTCPConnection c"
    and "wpc c = Finished"
    and "\<forall>b \<in> set (accepted c). length b < 2 ^ 32"
  shows "serve_read SessionCodec_Read (sent c) = Some (accepted c, IoEOF)
    \<and> (\<forall>d. conn_step\<^sup>*\<^sup>* c d \<longrightarrow> accepted d = accepted c)"
  using finished_delivers [OF assms] closed_freezes by blast

theorem graceful_shutdown_delivers_everything_witness:
  "serve_read SessionCodec_Read (sent demo_conn) = Some ([[1], [2, 3]], IoEOF)"
  using graceful_shutdown_delivers_everything [OF demo_conn_reachable]
  by (simp add: demo_conn_def)

section \<open>The writer ends\<close>

definition writer_ended :: "tcpconn \<Rightarrow> bool" where
  "writer_ended c \<longleftrightarrow> (case wpc c of Failed _ \<Rightarrow> True | Finished \<Rightarrow> True | _ \<Rightarrow> False)"

text \<open>What the writer has left to do once \<open>closed\<close> is set: rounds, and messages of this round.\<close>

definition writer_work :: "tcpconn \<Rightarrow> nat \<times> nat" where
  "writer_work c =
     (case wpc c of
        Waiting \<Rightarrow> (1, 0)
      | Writing bs cl \<Rightarrow> if cl then (0, Suc (length bs)) else (2, length bs)
      | _ \<Rightarrow> (0, 0))"

text \<open>A writer that was started and is not asleep: this is what the signal of \<open>stopBackgroundWrite\<close> is for.\<close>

definition writer_closing :: "tcpconn \<Rightarrow> bool" where
  "writer_closing c \<longleftrightarrow> closed c \<and> wpc c \<noteq> NotStarted \<and> wpc c \<noteq> Asleep"

lemmas winding_defs = writer_ended_def writer_work_def writer_closing_def

lemma writer_can_turn:
  assumes "writer_closing c" and "\<not> writer_ended c"
  shows "\<exists>d. writer_turn c d"
proof (cases "wpc c")
  case Waiting
  then have "writer_turn c (writer_swap c)"
    using assms by (intro writer_turn.swap) (simp add: winding_defs writer_ready_def)
  then show ?thesis ..
next
  case (Writing bs cl)
  show ?thesis
  proof (cases bs)
    case Nil
    then show ?thesis using Writing writer_turn.flush_ok [of c cl] by blast
  next
    case (Cons b rest)
    obtain e w where w: "SessionCodec_Write buffer_writer b (wbuf c) = (e, w)" by fastforce
    show ?thesis
      using writer_turn.write_ok [of c b rest cl w] writer_turn.write_refused [of c b rest cl _ w] w Writing Cons
      by (cases e) blast+
  qed
qed (use assms in \<open>simp_all add: winding_defs\<close>)

lemma writer_turn_moves: "writer_turn c d \<Longrightarrow> wpc d \<noteq> wpc c"
  by (induction rule: writer_turn.induct) (auto simp: conn_defs)

lemma turn_winds_down:
  "writer_turn c d \<Longrightarrow> writer_closing c \<Longrightarrow> writer_closing d \<and> writer_work d < writer_work c \<and> \<not> writer_ended c"
  by (induction rule: writer_turn.induct) (auto simp: winding_defs conn_defs)

text \<open>The others: \<open>spill\<close> is inside a write, the rest is done by other goroutines.\<close>

lemma others_leave_the_writer:
  "conn_step c d \<Longrightarrow> writer_closing c \<Longrightarrow> writer_turn c d \<or> writer_closing d \<and> wpc d = wpc c"
  by (induction rule: conn_step.induct) (auto simp: winding_defs conn_defs split: writer_pc.splits)

interpretation writer_end: scheduled_winding_down conn_step writer_closing "\<lambda>c d. wpc d \<noteq> wpc c"
  writer_work writer_ended "\<lambda>_ :: unit. writer_turn" "\<lambda>_. ()"
proof unfold_locales
  fix c d
  assume step: "conn_step c d" and closing: "writer_closing c"
  have same: "writer_work d = writer_work c" "writer_ended d = writer_ended c" if "wpc d = wpc c"
    using that by (simp_all add: writer_work_def writer_ended_def)
  consider (turn) "writer_closing d" "writer_work d < writer_work c" "\<not> writer_ended c" "wpc d \<noteq> wpc c"
    | (other) "writer_closing d" "wpc d = wpc c"
    using others_leave_the_writer [OF step closing] turn_winds_down [OF _ closing] writer_turn_moves by blast
  note c = this
  show "writer_closing d" by (rule c)
  show "writer_work d \<le> writer_work c" by (rule c) (simp_all add: same)
  show "wpc d \<noteq> wpc c \<Longrightarrow> writer_work d < writer_work c" by (rule c) simp_all
  show "writer_ended c \<Longrightarrow> writer_ended d" by (rule c) (simp_all add: same)
  show "\<not> writer_ended c \<Longrightarrow> writer_ended d \<Longrightarrow> wpc d \<noteq> wpc c" by (rule c) (simp_all add: same)
next
  fix c
  assume "writer_closing c" "\<not> writer_ended c"
  then show "\<exists>d. conn_step c d \<and> wpc d \<noteq> wpc c" and "\<exists>d. writer_turn c d"
    using writer_can_turn writer_turn_moves conn_step.writer by blast+
qed (auto dest: writer_turn_moves)

text \<open>
  C20: after \<open>Shutdown\<close> the connection comes to its end. In every run from a reachable state with
  \<open>closed\<close> set, wherever the background writer was found, asleep in \<open>cond.Wait\<close> or at work, and
  whatever the other goroutines do, the writer ends and the socket is closed, and both stay so: the
  writer has ended either on an error of the socket or of the codec, or, finished, after the peer
  has been sent every accepted message. All that is assumed is a fair scheduler: the writer takes a
  step if it can take one all the time, which it cannot while it is asleep.
\<close>
theorem shutdown_ends_the_writer:
  assumes "\<And>i. conn_step (f i) (f (Suc i))" and "conn_step\<^sup>*\<^sup>* newTCPConnection (f 0)"
    and "closed (f 0)" and "wpc (f 0) \<noteq> NotStarted" and "\<forall>b \<in> set (accepted (f 0)). length b < 2 ^ 32"
    and "weakly_fair writer_turn f"
  shows "(\<exists>n. \<forall>m \<ge> n. writer_ended (f m) \<and> sock_closed (f m)
      \<and> (wpc (f m) = Finished \<longrightarrow> serve_read SessionCodec_Read (sent (f m)) = Some (accepted (f 0), IoEOF)))
    \<and> (\<exists>d. conn_step\<^sup>*\<^sup>* (f 0) d \<and> writer_ended d)"
proof -
  have inv: "conn_inv (f m)" and reach: "conn_step\<^sup>*\<^sup>* (f 0) (f m)" for m
  proof -
    show reach: "conn_step\<^sup>*\<^sup>* (f 0) (f m)" by (induction m) (auto intro: rtranclp.rtrancl_into_rtrancl assms(1))
    then show "conn_inv (f m)" using assms(2) by (meson reachable_conn_inv rtranclp_trans)
  qed
  have closing: "writer_closing (f 0)" using assms(3,4) inv [of 0] by (auto simp: writer_closing_def conn_inv_def)
  obtain n where n: "\<forall>m \<ge> n. writer_ended (f m)"
    using writer_end.scheduled_run_ends [where f = f, OF assms(1) closing assms(6)] by blast
  have "sock_closed (f m)" if "writer_ended (f m)" for m
    using that inv [of m] by (auto simp: writer_ended_def conn_inv_def split: writer_pc.splits)
  moreover have "serve_read SessionCodec_Read (sent (f m)) = Some (accepted (f 0), IoEOF)" if "wpc (f m) = Finished" for m
  proof -
    have "accepted (f m) = accepted (f 0)" using closed_freezes [OF reach assms(3)] by blast
    then show ?thesis
      using finished_delivers(1) [OF rtranclp_trans [OF assms(2) reach [of m]] that] assms(5) by simp
  qed
  ultimately show ?thesis using n writer_end.can_end [OF closing] by blast
qed

text \<open>The writer of a started connection goes to sleep; \<open>Shutdown\<close> wakes it, it swaps, flushes and ends.\<close>

definition demo_woken :: tcpconn where
  "demo_woken = Shutdown (writer_sleep (startBackgroundWrite newTCPConnection))"

definition demo_ending :: "nat \<Rightarrow> tcpconn" where
  "demo_ending i =
     (if i = 0 then demo_woken
      else if i = 1 then writer_swap demo_woken
      else writer_flushed True (writer_swap demo_woken))"

lemma demo_ending_steps: "conn_step (demo_ending i) (demo_ending (Suc i))"
proof -
  have "conn_step (demo_ending 0) (demo_ending 1)"
    using writer_turn.swap [of demo_woken] by (simp add: demo_ending_def demo_woken_def conn_defs conn_step.writer)
  moreover have "conn_step (demo_ending 1) (demo_ending 2)"
    using writer_turn.flush_ok [of "writer_swap demo_woken" True]
    by (simp add: demo_ending_def demo_woken_def conn_defs conn_step.writer)
  moreover have "conn_step (demo_ending 2) (demo_ending 2)"
    using conn_step.shutdown [of "demo_ending 2"] by (simp add: demo_ending_def demo_woken_def conn_defs)
  moreover have "i = 0 \<or> i = 1 \<or> demo_ending i = demo_ending 2 \<and> demo_ending (Suc i) = demo_ending 2"
    by (simp add: demo_ending_def)
  ultimately show ?thesis by (auto simp: numeral_2_eq_2)
qed

theorem shutdown_ends_the_writer_witness:
  "\<exists>n. \<forall>m \<ge> n. writer_ended (demo_ending m) \<and> sock_closed (demo_ending m)"
proof -
  let ?c = "startBackgroundWrite newTCPConnection"
  have "conn_step newTCPConnection ?c" by (rule conn_step.start) (simp add: conn_defs)
  moreover have "conn_step ?c (writer_sleep ?c)" by (intro conn_step.writer writer_turn.sleep) (simp add: conn_defs)
  moreover have "conn_step (writer_sleep ?c) (demo_ending 0)"
    using conn_step.shutdown [of "writer_sleep ?c"] by (simp add: demo_ending_def demo_woken_def)
  ultimately have reach: "conn_step\<^sup>*\<^sup>* newTCPConnection (demo_ending 0)" by (meson rtranclp.intros)
  have last: "wpc (demo_ending i) = Finished" if "2 \<le> i" for i
    using that by (simp add: demo_ending_def writer_flushed_def)
  have "\<not> writer_turn c d" if "wpc c = Finished" for c d
    using that by (auto simp: writer_idle_def writer_ready_def elim: writer_turn.cases)
  then have fair: "weakly_fair writer_turn demo_ending" by (intro weakly_fair_quiet [of 2]) (simp add: last)
  have start: "closed (demo_ending 0)" "wpc (demo_ending 0) \<noteq> NotStarted" "accepted (demo_ending 0) = []"
    by (simp_all add: demo_ending_def demo_woken_def conn_defs)
  then have "\<forall>b \<in> set (accepted (demo_ending 0)). length b < 2 ^ 32" by simp
  from shutdown_ends_the_writer [of demo_ending, OF demo_ending_steps reach start(1,2) this fair]
  show ?thesis by blast
qed

end
