(* ===== verification/EventLoop.thy ===== *)
theory EventLoop
  imports Drain Winding
begin

text \<open>
  The event loop of \<open>base/eventloop/\<close>: goroutines post closures with \<open>RunInLoop\<close>; one
  goroutine runs \<open>Loop\<close>, which swaps the list of closures out under the mutex and calls them
  one by one. A closure (Go's \<open>func()\<close> over the state it captures) is a function on that
  state; the router's handlers are such functions, and the loop is what keeps them from
  overlapping.

  What is done under the mutex is one step. \<open>RunInLoop\<close> and \<open>Close\<close> unlock it before they call
  \<open>cond.Signal\<close>, so the two are apart: \<open>ev_signals\<close> counts the goroutines that still have to
  signal, and \<open>ev_Signal\<close> is one of them doing it. A loop that finds nothing to do sleeps in
  \<open>cond.Wait\<close> (\<open>LoopAsleep\<close>) until it is woken; it then looks at its condition again.

  \<open>posted\<close>, \<open>executed\<close> and \<open>before_close\<close> are bookkeeping: what was posted, what was called,
  and what had been posted when \<open>Close\<close> took effect.
\<close>

section \<open>The loop\<close>

datatype 'f loop_pc =
    LoopWaiting                  \<comment> \<open>about to look at the condition of the wait loop\<close>
  | LoopAsleep                   \<comment> \<open>in \<open>cond.Wait\<close>\<close>
  | LoopRunning "'f list" bool   \<comment> \<open>the rest of the batch, and \<open>closed\<close> as read at the swap\<close>
  | LoopReturned

record 'st evloop =
  functors :: "('st \<Rightarrow> 'st) list"
  ev_closed :: bool
  ev_pc :: "('st \<Rightarrow> 'st) loop_pc"
  captured :: 'st
  ev_signals :: nat
  posted :: "('st \<Rightarrow> 'st) list"
  executed :: "('st \<Rightarrow> 'st) list"
  before_close :: "('st \<Rightarrow> 'st) list option"

definition NewEventLoop :: "'st \<Rightarrow> 'st evloop" where
  "NewEventLoop s = \<lparr>functors = [], ev_closed = False, ev_pc = LoopWaiting, captured = s, ev_signals = 0,
     posted = [], executed = [], before_close = None\<rparr>"

definition RunInLoop :: "('st \<Rightarrow> 'st) \<Rightarrow> 'st evloop \<Rightarrow> 'st evloop" where
  "RunInLoop f l = l\<lparr>functors := functors l @ [f], ev_signals := Suc (ev_signals l), posted := posted l @ [f]\<rparr>"

definition ev_Close :: "'st evloop \<Rightarrow> 'st evloop" where
  "ev_Close l =
     (if ev_closed l then l
      else l\<lparr>ev_closed := True, ev_signals := Suc (ev_signals l), before_close := Some (posted l)\<rparr>)"

text \<open>\<open>cond.Signal\<close> by one of those who have it before them: it wakes the loop if that is asleep.\<close>

definition ev_Signal :: "'st evloop \<Rightarrow> 'st evloop" where
  "ev_Signal l =
     l\<lparr>ev_signals := ev_signals l - 1, ev_pc := (case ev_pc l of LoopAsleep \<Rightarrow> LoopWaiting | pc \<Rightarrow> pc)\<rparr>"

text \<open>One round of \<open>Loop\<close>: sleep, or leave the wait loop, swap, call each functor, return if closed.\<close>

definition loop_ready :: "'st evloop \<Rightarrow> bool" where
  "loop_ready l \<longleftrightarrow> ev_pc l = LoopWaiting \<and> (ev_closed l \<or> functors l \<noteq> [])"

definition loop_idle :: "'st evloop \<Rightarrow> bool" where
  "loop_idle l \<longleftrightarrow> ev_pc l = LoopWaiting \<and> \<not> ev_closed l \<and> functors l = []"

definition loop_sleep :: "'st evloop \<Rightarrow> 'st evloop" where
  "loop_sleep l = l\<lparr>ev_pc := LoopAsleep\<rparr>"

definition loop_swap :: "'st evloop \<Rightarrow> 'st evloop" where
  "loop_swap l = l\<lparr>ev_pc := LoopRunning (functors l) (ev_closed l), functors := []\<rparr>"

definition loop_call :: "('st \<Rightarrow> 'st) \<Rightarrow> ('st \<Rightarrow> 'st) list \<Rightarrow> bool \<Rightarrow> 'st evloop \<Rightarrow> 'st evloop" where
  "loop_call f rest cl l =
     l\<lparr>captured := f (captured l), ev_pc := LoopRunning rest cl, executed := executed l @ [f]\<rparr>"

definition loop_round_end :: "bool \<Rightarrow> 'st evloop \<Rightarrow> 'st evloop" where
  "loop_round_end cl l = l\<lparr>ev_pc := (if cl then LoopReturned else LoopWaiting)\<rparr>"

inductive ev_step :: "'st evloop \<Rightarrow> 'st evloop \<Rightarrow> bool" where
  post: "ev_step l (RunInLoop f l)"
| close: "ev_step l (ev_Close l)"
| signal: "0 < ev_signals l \<Longrightarrow> ev_step l (ev_Signal l)"
| sleep: "loop_idle l \<Longrightarrow> ev_step l (loop_sleep l)"
| swap: "loop_ready l \<Longrightarrow> ev_step l (loop_swap l)"
| call: "ev_pc l = LoopRunning (f # rest) cl \<Longrightarrow> ev_step l (loop_call f rest cl l)"
| round_end: "ev_pc l = LoopRunning [] cl \<Longrightarrow> ev_step l (loop_round_end cl l)"

lemmas ev_defs [model_defs] =
  NewEventLoop_def RunInLoop_def ev_Close_def ev_Signal_def loop_ready_def loop_idle_def loop_sleep_def loop_swap_def loop_call_def
  loop_round_end_def

fun loop_batch :: "'f loop_pc \<Rightarrow> 'f list" where
  "loop_batch (LoopRunning fs _) = fs"
| "loop_batch _ = []"

interpretation loop: drain "NewEventLoop s" ev_step posted executed "\<lambda>l. loop_batch (ev_pc l)" functors
  for s :: 'st
proof unfold_locales
  fix l m :: "'st evloop"
  assume "ev_step l m"
  then show "prefix (posted l) (posted m)" and "prefix (executed l) (executed m)"
    by (induction rule: ev_step.induct) (auto simp: ev_defs)
  show "posted l = executed l @ loop_batch (ev_pc l) @ functors l
    \<Longrightarrow> posted m = executed m @ loop_batch (ev_pc m) @ functors m"
    using \<open>ev_step l m\<close> by (induction rule: ev_step.induct) (auto simp: ev_defs split: loop_pc.split)
qed (simp add: ev_defs)

section \<open>Invariants\<close>

text \<open>
  The captured state is the executed functors applied in order. A closed loop remembers what
  was posted before; once the loop has read \<open>closed\<close>, all of that is executed or in its batch.
\<close>

definition ev_inv :: "'st \<Rightarrow> 'st evloop \<Rightarrow> bool" where
  "ev_inv s l \<longleftrightarrow> posted l = executed l @ loop_batch (ev_pc l) @ functors l \<and>
     captured l = fold (\<lambda>f. f) (executed l) s \<and>
     (before_close l = None \<longleftrightarrow> \<not> ev_closed l) \<and>
     (case before_close l of None \<Rightarrow> ev_pc l \<noteq> LoopReturned \<and> (\<forall>fs. ev_pc l \<noteq> LoopRunning fs True)
      | Some fs \<Rightarrow> prefix fs (posted l)
          \<and> (case ev_pc l of LoopWaiting \<Rightarrow> True | LoopAsleep \<Rightarrow> True
             | LoopRunning rest cl \<Rightarrow> (cl \<longrightarrow> prefix fs (executed l @ rest))
             | LoopReturned \<Rightarrow> prefix fs (executed l)))"

lemma ev_inv_new: "ev_inv s (NewEventLoop s)"
  by (simp add: ev_inv_def ev_defs)

lemma ev_inv_step: "ev_step l m \<Longrightarrow> ev_inv s l \<Longrightarrow> ev_inv s m"
  by (induction rule: ev_step.induct)
    (auto simp: ev_inv_def ev_defs intro: prefix_longer split: option.splits loop_pc.splits)

lemma reachable_ev_inv: "ev_step\<^sup>*\<^sup>* (NewEventLoop s) l \<Longrightarrow> ev_inv s l"
  by (induction rule: rtranclp_induct) (auto intro: ev_inv_new ev_inv_step)

lemma loop_returned_stays:
  "ev_step l m \<Longrightarrow> ev_pc l = LoopReturned \<Longrightarrow> ev_pc m = LoopReturned \<and> executed m = executed l"
  by (induction rule: ev_step.induct) (auto simp: ev_defs)

lemma loop_returned_forever:
  "ev_step\<^sup>*\<^sup>* l m \<Longrightarrow> ev_pc l = LoopReturned \<Longrightarrow> ev_pc m = LoopReturned \<and> executed m = executed l"
  by (induction rule: rtranclp_induct) (auto dest: loop_returned_stays)

section \<open>A closed loop returns\<close>

text \<open>A loop never sleeps through work: while it is asleep and has reason to go on, a signal is to come.\<close>

definition will_wake :: "'st evloop \<Rightarrow> bool" where
  "will_wake l \<longleftrightarrow> (ev_pc l = LoopAsleep \<and> (ev_closed l \<or> functors l \<noteq> []) \<longrightarrow> 0 < ev_signals l)"

lemma will_wake_step: "ev_step l m \<Longrightarrow> will_wake l \<Longrightarrow> will_wake m"
  by (induction rule: ev_step.induct) (auto simp: will_wake_def ev_defs split: loop_pc.splits)

lemma reachable_will_wake: "ev_step\<^sup>*\<^sup>* (NewEventLoop s) l \<Longrightarrow> will_wake l"
  by (induction rule: rtranclp_induct) (simp add: will_wake_def NewEventLoop_def, rule will_wake_step)

text \<open>
  Closures may still be posted to a closed loop, so the work is counted in rounds: one round at
  most begins before \<open>closed\<close> is read, and then one batch is left.
\<close>

definition loop_work :: "'st evloop \<Rightarrow> nat \<times> nat" where
  "loop_work l =
     (case ev_pc l of
        LoopWaiting \<Rightarrow> (1, 0)
      | LoopAsleep \<Rightarrow> (1, 1)
      | LoopRunning fs cl \<Rightarrow> if cl then (0, Suc (length fs)) else (2, length fs)
      | LoopReturned \<Rightarrow> (0, 0))"

definition loop_returned :: "'st evloop \<Rightarrow> bool" where
  "loop_returned l \<longleftrightarrow> (case ev_pc l of LoopReturned \<Rightarrow> True | _ \<Rightarrow> False)"

definition loop_closing :: "'st evloop \<Rightarrow> bool" where
  "loop_closing l \<longleftrightarrow> ev_closed l \<and> will_wake l"

text \<open>The next step of the loop's own goroutine, none while it sleeps or has returned.\<close>

definition loop_next :: "'st evloop \<Rightarrow> 'st evloop option" where
  "loop_next l =
     (case ev_pc l of
        LoopWaiting \<Rightarrow> Some (if ev_closed l \<or> functors l \<noteq> [] then loop_swap l else loop_sleep l)
      | LoopAsleep \<Rightarrow> None
      | LoopRunning [] cl \<Rightarrow> Some (loop_round_end cl l)
      | LoopRunning (f # rest) cl \<Rightarrow> Some (loop_call f rest cl l)
      | LoopReturned \<Rightarrow> None)"

datatype loop_party = TheLoop | ASignaller

definition loop_turn :: "loop_party \<Rightarrow> 'st evloop \<Rightarrow> 'st evloop \<Rightarrow> bool" where
  "loop_turn p l m \<longleftrightarrow>
     (case p of TheLoop \<Rightarrow> loop_next l = Some m | ASignaller \<Rightarrow> 0 < ev_signals l \<and> m = ev_Signal l)"

definition loop_helper :: "'st evloop \<Rightarrow> loop_party" where
  "loop_helper l = (case ev_pc l of LoopAsleep \<Rightarrow> ASignaller | _ \<Rightarrow> TheLoop)"

lemma loop_closed_stays: "ev_step l m \<Longrightarrow> ev_closed l \<Longrightarrow> ev_closed m"
  by (induction rule: ev_step.induct) (auto simp: ev_defs)

lemma loop_turn_step: "loop_turn p l m \<Longrightarrow> ev_step l m"
  by (auto simp: loop_turn_def loop_next_def loop_ready_def loop_idle_def intro: ev_step.intros
      split: loop_party.splits loop_pc.splits list.splits if_splits)

lemma loop_helper_can: "loop_closing l \<Longrightarrow> \<not> loop_returned l \<Longrightarrow> \<exists>m. loop_turn (loop_helper l) l m"
  by (auto simp: loop_turn_def loop_helper_def loop_next_def loop_closing_def will_wake_def loop_returned_def
      split: loop_pc.splits list.splits)

lemma loop_helper_moves:
  "loop_closing l \<Longrightarrow> \<not> loop_returned l \<Longrightarrow> loop_turn (loop_helper l) l m \<Longrightarrow> ev_pc m \<noteq> ev_pc l"
  by (auto simp: loop_turn_def loop_helper_def loop_next_def loop_closing_def ev_defs
      split: loop_pc.splits list.splits if_splits)

interpretation loop_end: scheduled_winding_down ev_step loop_closing "\<lambda>l m. ev_pc m \<noteq> ev_pc l"
  loop_work loop_returned loop_turn loop_helper
proof unfold_locales
  fix l m :: "'st evloop"
  assume step: "ev_step l m" and closing: "loop_closing l"
  then show "loop_closing m"
    using will_wake_step [OF step] loop_closed_stays [OF step] by (simp add: loop_closing_def)
  show "loop_work m \<le> loop_work l" and "ev_pc m \<noteq> ev_pc l \<Longrightarrow> loop_work m < loop_work l"
    and "loop_returned l \<Longrightarrow> loop_returned m"
    and "\<not> loop_returned l \<Longrightarrow> loop_returned m \<Longrightarrow> ev_pc m \<noteq> ev_pc l"
    and "\<not> ev_pc m \<noteq> ev_pc l \<Longrightarrow> loop_helper m = loop_helper l"
    using step closing
    by (induction rule: ev_step.induct)
      (auto simp: loop_work_def loop_returned_def loop_closing_def loop_helper_def ev_defs split: if_splits loop_pc.splits)
next
  fix l :: "'st evloop"
  assume "loop_closing l" "\<not> loop_returned l"
  then show "\<exists>m. ev_step l m \<and> ev_pc m \<noteq> ev_pc l"
    using loop_helper_can loop_helper_moves loop_turn_step by blast
qed (auto dest: loop_helper_can loop_helper_moves)

section \<open>Timers and tickers\<close>

text \<open>
  A \<open>Timer\<close> posts its functor once when it fires, unless it was stopped before; a \<open>Ticker\<close>
  posts it at every tick until it is stopped. Each has a goroutine that waits on the timer's
  channel and on the cancelled context. \<open>TimerDue\<close> is a timer that has fired and whose
  goroutine has not posted yet: Go's \<open>Stop\<close> then returns false and does not cancel.
\<close>

datatype timer_state = TimerPending | TimerDue | TimerPosted | TimerStopped

definition newTimer :: timer_state where
  "newTimer = TimerPending"

definition timer_fire :: "timer_state \<Rightarrow> timer_state" where
  "timer_fire t = (case t of TimerPending \<Rightarrow> TimerDue | _ \<Rightarrow> t)"

definition timer_receiveTime ::
  "('st \<Rightarrow> 'st) \<Rightarrow> timer_state \<times> 'st evloop \<Rightarrow> timer_state \<times> 'st evloop" where
  "timer_receiveTime f = (\<lambda>(t, l). case t of
       TimerDue \<Rightarrow> (TimerPosted, RunInLoop f l)
     | _ \<Rightarrow> (t, l))"

definition timer_Stop :: "timer_state \<Rightarrow> bool \<times> timer_state" where
  "timer_Stop t = (case t of TimerPending \<Rightarrow> (True, TimerStopped) | _ \<Rightarrow> (False, t))"

record ticker_state =
  tick_waiting :: bool    \<comment> \<open>a tick is in the channel (its capacity is one)\<close>
  tick_stopped :: bool    \<comment> \<open>\<open>Stop\<close> was called: no more ticks, context cancelled\<close>
  tick_alive :: bool      \<comment> \<open>the goroutine has not returned\<close>

definition newTicker :: ticker_state where
  "newTicker = \<lparr>tick_waiting = False, tick_stopped = False, tick_alive = True\<rparr>"

definition ticker_tick :: "ticker_state \<Rightarrow> ticker_state" where
  "ticker_tick t = (if tick_stopped t then t else t\<lparr>tick_waiting := True\<rparr>)"

definition ticker_Stop :: "ticker_state \<Rightarrow> ticker_state" where
  "ticker_Stop t = t\<lparr>tick_stopped := True\<rparr>"

text \<open>The goroutine's \<open>select\<close>: with both channels ready Go takes either one.\<close>

inductive ticker_step ::
  "('st \<Rightarrow> 'st) \<Rightarrow> ticker_state \<times> 'st evloop \<Rightarrow> ticker_state \<times> 'st evloop \<Rightarrow> bool"
  for f :: "'st \<Rightarrow> 'st" where
  tick: "ticker_step f (t, l) (ticker_tick t, l)"
| stop: "ticker_step f (t, l) (ticker_Stop t, l)"
| receive: "tick_alive t \<Longrightarrow> tick_waiting t \<Longrightarrow>
    ticker_step f (t, l) (t\<lparr>tick_waiting := False\<rparr>, RunInLoop f l)"
| cancelled: "tick_alive t \<Longrightarrow> tick_stopped t \<Longrightarrow>
    ticker_step f (t, l) (t\<lparr>tick_alive := False\<rparr>, l)"

lemma ticker_stopped_step:
  assumes "ticker_step f x y" and "tick_stopped (fst x)"
  shows "tick_stopped (fst y) \<and>
    length (posted (snd y)) + (if tick_waiting (fst y) then 1 else 0)
      \<le> length (posted (snd x)) + (if tick_waiting (fst x) then 1 else 0)"
  using assms
  by (induction rule: ticker_step.induct) (auto simp: ticker_tick_def ticker_Stop_def RunInLoop_def)

lemma ticker_stopped_run:
  assumes "(ticker_step f)\<^sup>*\<^sup>* x y" and "tick_stopped (fst x)"
  shows "tick_stopped (fst y) \<and>
    length (posted (snd y)) + (if tick_waiting (fst y) then 1 else 0)
      \<le> length (posted (snd x)) + (if tick_waiting (fst x) then 1 else 0)"
  using assms
proof (induction rule: rtranclp_induct)
  case base
  then show ?case by simp
next
  case (step y z)
  then show ?case using ticker_stopped_step [of f y z] by fastforce
qed

section \<open>Properties\<close>

text \<open>
  C14: handlers never overlap. In every reachable state of the loop the captured state is the
  result of calling the executed functors one after the other from the initial state, and the
  executed functors are the first ones posted, in the order of posting, none twice.
\<close>

theorem loop_serialises_handlers:
  assumes "ev_step\<^sup>*\<^sup>* (NewEventLoop s) l"
  shows "captured l = fold (\<lambda>f. f) (executed l) s \<and> prefix (executed l) (posted l)"
  using reachable_ev_inv [OF assms] loop.finished_in_order [OF assms] by (simp add: ev_inv_def)

text \<open>A run of the loop: two posts, close, and the loop returns after calling both.\<close>

definition demo_loop :: "nat evloop" where
  "demo_loop = \<lparr>functors = [], ev_closed = True, ev_pc = LoopReturned, captured = 12, ev_signals = Suc (Suc (Suc 0)),
     posted = [(+) 5, (*) 2], executed = [(+) 5, (*) 2], before_close = Some [(+) 5, (*) 2]\<rparr>"

lemma demo_loop_reachable: "ev_step\<^sup>*\<^sup>* (NewEventLoop 1) demo_loop"
proof -
  note trans = rtranclp.rtrancl_into_rtrancl
  let ?l2 = "RunInLoop ((*) 2) (RunInLoop ((+) 5) (NewEventLoop (1 :: nat)))"
  let ?l3 = "loop_swap (ev_Close ?l2)"
  let ?l4 = "loop_call ((+) 5) [(*) 2] True ?l3"
  let ?l5 = "loop_call ((*) 2) [] True ?l4"
  have "ev_step\<^sup>*\<^sup>* (NewEventLoop 1) (RunInLoop ((+) 5) (NewEventLoop (1 :: nat)))"
    by (rule r_into_rtranclp) (rule ev_step.post)
  then have "ev_step\<^sup>*\<^sup>* (NewEventLoop 1) ?l2"
    by (rule trans) (rule ev_step.post)
  then have "ev_step\<^sup>*\<^sup>* (NewEventLoop 1) (ev_Close ?l2)"
    by (rule trans) (rule ev_step.close)
  then have "ev_step\<^sup>*\<^sup>* (NewEventLoop 1) ?l3"
    by (rule trans) (rule ev_step.swap, simp add: ev_defs)
  then have "ev_step\<^sup>*\<^sup>* (NewEventLoop 1) ?l4"
    by (rule trans) (rule ev_step.call, simp add: ev_defs)
  then have "ev_step\<^sup>*\<^sup>* (NewEventLoop 1) ?l5"
    by (rule trans) (rule ev_step.call, simp add: ev_defs)
  then have "ev_step\<^sup>*\<^sup>* (NewEventLoop 1) (loop_round_end True ?l5)"
    by (rule trans) (rule ev_step.round_end, simp add: ev_defs)
  then show ?thesis by (simp add: ev_defs demo_loop_def)
qed

theorem loop_serialises_handlers_witness:
  "captured demo_loop = fold (\<lambda>f. f) [(+) 5, (*) 2] 1
   \<and> prefix (executed demo_loop) [(+) 5, (*) 2]"
  using loop_serialises_handlers [OF demo_loop_reachable] by (simp add: demo_loop_def)

text \<open>
  C15: closing drains the queue. When \<open>Loop\<close> has returned, every functor posted before
  \<open>Close\<close> took effect has been called; and nothing posted later is ever called.
\<close>

theorem close_drains_the_loop:
  assumes "ev_step\<^sup>*\<^sup>* (NewEventLoop s) l" and "ev_pc l = LoopReturned"
  shows "\<exists>fs. before_close l = Some fs \<and> prefix fs (executed l)
    \<and> (\<forall>m. ev_step\<^sup>*\<^sup>* l m \<longrightarrow> executed m = executed l)"
proof -
  have "ev_inv s l" using assms(1) by (rule reachable_ev_inv)
  then have "\<exists>fs. before_close l = Some fs \<and> prefix fs (executed l)"
    using assms(2) by (auto simp: ev_inv_def split: option.splits)
  moreover have "\<forall>m. ev_step\<^sup>*\<^sup>* l m \<longrightarrow> executed m = executed l"
    using assms(2) loop_returned_forever by blast
  ultimately show ?thesis by blast
qed

theorem close_drains_the_loop_witness:
  "\<exists>fs. before_close demo_loop = Some fs \<and> prefix fs (executed demo_loop)
    \<and> (\<forall>m. ev_step\<^sup>*\<^sup>* demo_loop m \<longrightarrow> executed m = executed demo_loop)"
  by (rule close_drains_the_loop [OF demo_loop_reachable]) (simp add: demo_loop_def)

text \<open>
  after \<open>Ticker.Stop\<close> the functor is posted at most once more: by a tick that was already
  in the channel when the context was cancelled.
\<close>

theorem ticker_stop_allows_one_more:
  assumes "(ticker_step f)\<^sup>*\<^sup>* (ticker_Stop t, l) (t', l')"
  shows "length (posted l') \<le> length (posted l) + (if tick_waiting t then 1 else 0)"
  using ticker_stopped_run [OF assms] by (simp add: ticker_Stop_def split: if_splits)

theorem ticker_stop_allows_one_more_witness:
  "length (posted (RunInLoop id (NewEventLoop (0::nat)))) \<le> length (posted (NewEventLoop (0::nat))) + 1"
proof -
  let ?t = "ticker_tick newTicker"
  have "ticker_step id (ticker_Stop ?t, NewEventLoop (0::nat))
      ((ticker_Stop ?t)\<lparr>tick_waiting := False\<rparr>, RunInLoop id (NewEventLoop 0))"
    by (rule ticker_step.receive) (simp_all add: newTicker_def ticker_tick_def ticker_Stop_def)
  from ticker_stop_allows_one_more [OF r_into_rtranclp [of "ticker_step id", OF this]]
  show ?thesis by (simp add: newTicker_def ticker_tick_def)
qed

text \<open>
  C36: a closed loop returns. In every run of the loop and of those who use it, from a reachable state
  in which the loop is closed, the loop returns and stays returned, wherever \<open>Close\<close> found it: asleep
  in \<open>cond.Wait\<close>, about to sleep, or at work. All that is assumed is a fair scheduler: the loop's
  goroutine takes a step if it can take one all the time (asleep it cannot), and so do those that
  have unlocked the mutex and are about to signal. The closures that are posted in the meantime
  cannot keep the loop busy for ever.
\<close>
theorem closed_loop_returns:
  assumes "\<And>i. ev_step (f i) (f (Suc i))" and "ev_step\<^sup>*\<^sup>* (NewEventLoop s) (f 0)" and "ev_closed (f 0)"
    and "weakly_fair (loop_turn TheLoop) f" and "weakly_fair (loop_turn ASignaller) f"
  shows "\<exists>n. \<forall>m \<ge> n. loop_returned (f m)"
proof (rule loop_end.scheduled_run_ends)
  show "ev_step (f i) (f (Suc i))" for i by (rule assms(1))
  show "loop_closing (f 0)" using assms(3) reachable_will_wake [OF assms(2)] by (simp add: loop_closing_def)
  show "weakly_fair (loop_turn p) f" for p using assms(4,5) by (cases p) simp_all
qed

text \<open>The loop has gone to sleep; it is closed, woken by the signal, swaps, and returns.\<close>

definition demo_asleep :: "nat evloop" where
  "demo_asleep = ev_Close (loop_sleep (NewEventLoop 5))"

definition demo_closing :: "nat \<Rightarrow> nat evloop" where
  "demo_closing i =
     (if i = 0 then demo_asleep
      else if i = 1 then ev_Signal demo_asleep
      else if i = 2 then loop_swap (ev_Signal demo_asleep)
      else loop_round_end True (loop_swap (ev_Signal demo_asleep)))"

lemma demo_closing_steps: "ev_step (demo_closing i) (demo_closing (Suc i))"
proof -
  have "ev_step (demo_closing 0) (demo_closing 1)"
    using ev_step.signal [of demo_asleep] by (simp add: demo_closing_def demo_asleep_def ev_defs)
  moreover have "ev_step (demo_closing 1) (demo_closing 2)"
    using ev_step.swap [of "ev_Signal demo_asleep"] by (simp add: demo_closing_def demo_asleep_def ev_defs)
  moreover have "ev_step (demo_closing 2) (demo_closing 3)"
    using ev_step.round_end [of "loop_swap (ev_Signal demo_asleep)" True]
    by (simp add: demo_closing_def demo_asleep_def ev_defs)
  moreover have "ev_step (demo_closing 3) (demo_closing 3)"
    using ev_step.close [of "demo_closing 3"] by (simp add: demo_closing_def demo_asleep_def ev_defs)
  moreover have "i = 0 \<or> i = 1 \<or> i = 2 \<or> demo_closing i = demo_closing 3 \<and> demo_closing (Suc i) = demo_closing 3"
    by (simp add: demo_closing_def)
  ultimately show ?thesis by (auto simp: numeral_2_eq_2 numeral_3_eq_3)
qed

theorem closed_loop_returns_witness:
  "\<exists>n. \<forall>m \<ge> n. loop_returned (demo_closing m)"
proof (rule closed_loop_returns)
  show "ev_step (demo_closing i) (demo_closing (Suc i))" for i by (rule demo_closing_steps)
  have "ev_step (NewEventLoop 5) (loop_sleep (NewEventLoop (5::nat)))" by (rule ev_step.sleep) (simp add: ev_defs)
  then show "ev_step\<^sup>*\<^sup>* (NewEventLoop 5) (demo_closing 0)"
    by (simp add: demo_closing_def demo_asleep_def) (meson ev_step.close rtranclp.intros)
  show "ev_closed (demo_closing 0)" by (simp add: demo_closing_def demo_asleep_def ev_defs)
  have "\<not> loop_turn p (demo_closing i) t" if "3 \<le> i" for p i t
    using that by (cases p) (simp_all add: demo_closing_def demo_asleep_def loop_turn_def loop_next_def ev_defs)
  then show "weakly_fair (loop_turn TheLoop) demo_closing" "weakly_fair (loop_turn ASignaller) demo_closing"
    by (auto intro: weakly_fair_quiet [of 3])
qed

end
