(* ===== verification/DefaultCodec.thy ===== *)
theory DefaultCodec
  imports Framing
begin

text \<open>
  The codec without framing of \<open>base/network/codec.go\<close>. \<open>Read\<close> makes a fresh \<open>bufio.Reader\<close> for each
  call, so what it does rests on how \<open>bufio\<close> fills its buffer: \<open>Peek(1)\<close> asks the reader until
  one call returns bytes, at most a hundred empty calls in a row, and never for more than the 4096
  bytes of the buffer.

  Here a reader is the list of bursts that its calls return one after the other, each as many bytes
  as fit into the caller's slice; after the last comes EOF.
\<close>

datatype default_error = DefaultEOF | ErrNoProgress

definition bufio_size :: nat where "bufio_size = 4096"

text \<open>One call of the underlying \<open>Read\<close> with room for \<open>n\<close> bytes.\<close>

fun burst_read :: "nat \<Rightarrow> byte list list \<Rightarrow> byte list option \<times> byte list list" where
  "burst_read n [] = (None, [])"
| "burst_read n (c # cs) = (Some (take n c), if length c \<le> n then cs else drop n c # cs)"

text \<open>\<open>bufio.Reader.fill\<close>, with the empty calls left.\<close>

fun bufio_fill :: "nat \<Rightarrow> byte list list \<Rightarrow> (default_error + byte list) \<times> byte list list" where
  "bufio_fill 0 r = (Inl ErrNoProgress, r)"
| "bufio_fill (Suc i) r =
     (case burst_read bufio_size r of
        (None, r) \<Rightarrow> (Inl DefaultEOF, r)
      | (Some b, r) \<Rightarrow> if b = [] then bufio_fill i r else (Inr b, r))"

text \<open>\<open>Buffered\<close> is then the length of what was read, and the second read takes all of it.\<close>

definition DefaultCodec_Read :: "byte list list \<Rightarrow> (default_error + byte list) \<times> byte list list" where
  "DefaultCodec_Read r =
     (case bufio_fill 100 r of
        (Inl e, r) \<Rightarrow> (Inl e, r)
      | (Inr buffered, r) \<Rightarrow> (Inr (take (length buffered) buffered), r))"

definition DefaultCodec_Write :: "'w io_writer \<Rightarrow> byte list \<Rightarrow> 'w \<Rightarrow> codec_error option \<times> 'w" where
  "DefaultCodec_Write wr b w = (case wr b w of (Some e, w) \<Rightarrow> (Some e, w) | (None, w) \<Rightarrow> (None, w))"

text \<open>The reads of the connection's loop, until one fails.\<close>

fun read_all :: "nat \<Rightarrow> byte list list \<Rightarrow> byte list list \<times> default_error option" where
  "read_all 0 r = ([], None)"
| "read_all (Suc n) r =
     (case DefaultCodec_Read r of
        (Inl e, r) \<Rightarrow> ([], Some e)
      | (Inr b, r) \<Rightarrow> (let (bs, e) = read_all n r in (b # bs, e)))"

section \<open>Nothing stays behind in an abandoned buffer\<close>

lemma burst_read_keeps: "burst_read n r = (Some b, r') \<Longrightarrow> concat r = b @ concat r'"
  by (cases r) auto

lemma burst_read_end: "burst_read n r = (None, r') \<Longrightarrow> r = [] \<and> r' = []"
  by (cases r) auto

lemma bufio_fill_keeps:
  "bufio_fill i r = (Inr b, r') \<Longrightarrow> concat r = b @ concat r' \<and> b \<noteq> []"
proof (induction i arbitrary: r)
  case (Suc i)
  obtain x r1 where x: "burst_read bufio_size r = (x, r1)" by (cases "burst_read bufio_size r")
  then show ?case using Suc burst_read_keeps [of bufio_size r] by (auto split: option.splits if_splits)
qed simp

lemma bufio_fill_end: "bufio_fill i r = (Inl DefaultEOF, r') \<Longrightarrow> concat r = []"
proof (induction i arbitrary: r)
  case (Suc i)
  obtain x r1 where x: "burst_read bufio_size r = (x, r1)" by (cases "burst_read bufio_size r")
  then show ?case using Suc burst_read_keeps [of bufio_size r] burst_read_end [of bufio_size r]
    by (auto simp del: concat_eq_Nil_conv split: option.splits if_splits)
qed simp

lemma DefaultCodec_Read_keeps:
  "DefaultCodec_Read r = (Inr b, r') \<Longrightarrow> concat r = b @ concat r' \<and> b \<noteq> []"
  using bufio_fill_keeps by (auto simp: DefaultCodec_Read_def split: sum.splits prod.splits)

text \<open>Whatever the reads returned is a beginning of the stream, and all of it once EOF was met.\<close>

lemma default_reads_are_the_stream:
  "read_all n r = (bs, e) \<Longrightarrow> prefix (concat bs) (concat r) \<and> (e = Some DefaultEOF \<longrightarrow> concat bs = concat r)"
proof (induction n arbitrary: r bs)
  case (Suc n)
  obtain x r1 where x: "DefaultCodec_Read r = (x, r1)" by (cases "DefaultCodec_Read r")
  show ?case
  proof (cases x)
    case (Inl e')
    then have "bufio_fill 100 r = (Inl e', r1)"
      using x by (auto simp: DefaultCodec_Read_def split: sum.splits prod.splits)
    then show ?thesis using Suc.prems x Inl bufio_fill_end [of 100 r r1] by auto
  next
    case (Inr b)
    obtain cs where cs: "read_all n r1 = (cs, e)" "bs = b # cs"
      using Suc.prems x Inr by (auto split: prod.splits)
    then show ?thesis using Suc.IH [OF cs(1)] DefaultCodec_Read_keeps [of r b r1] x Inr by simp
  qed
qed simp

text \<open>A read that returns bytes shortens the stream, so enough reads reach an error.\<close>

lemma default_reads_end: "length (concat r) < n \<Longrightarrow> snd (read_all n r) \<noteq> None"
proof (induction n arbitrary: r)
  case (Suc n)
  obtain x r1 where x: "DefaultCodec_Read r = (x, r1)" by (cases "DefaultCodec_Read r")
  show ?case
  proof (cases x)
    case (Inr b)
    then have "length (concat r1) < n"
      using DefaultCodec_Read_keeps [of r b r1] x Suc.prems by (cases b) auto
    from Suc.IH [OF this] show ?thesis by (simp add: x Inr split_def Let_def)
  qed (simp add: x)
qed simp

end
