(* ===== verification/TcpServer.thy ===== *)
theory TcpServer
  imports Winding
begin

text \<open>
  \<open>TCPServer\<close> of \<open>base/network/tcpserver.go\<close>: one goroutine runs \<open>ListenAndServe\<close>, one goroutine per
  connection runs \<open>serveConnection\<close>, and anybody may call \<open>Close\<close>. What holds the mutex is one step.

  The goroutine of \<open>ListenAndServe\<close> is a program counter; \<open>serving\<close> are the connections inside
  \<open>connection.serve\<close> (modelled in \<open>Connection\<close>), \<open>ending\<close> those past it that wait for the mutex.
  \<open>ln_open\<close> and \<open>open_socks\<close> are the listening socket and the sockets of connections the process
  holds open. A connection is the number of its acceptance. Delays are in milliseconds.
\<close>

section \<open>State and operations\<close>

datatype srv_error = ErrServerClosed | ErrListen | ErrAccept

datatype srv_pc =
    SrvStart | SrvListen | SrvRegister
  | SrvAccept nat      \<comment> \<open>with \<open>tempDelay\<close>\<close>
  | SrvAccepted nat    \<comment> \<open>the connection that \<open>AcceptTCP\<close> returned\<close>
  | SrvReturned srv_error

record tcpserver =
  srv_closed :: bool
  srv_listener :: bool          \<comment> \<open>the listener is not nil\<close>
  srv_connections :: "nat set"
  srv_pc :: srv_pc
  ln_open :: bool
  open_socks :: "nat set"
  serving :: "nat set"
  ending :: "nat set"
  next_conn :: nat

definition NewTCPServer :: tcpserver where
  "NewTCPServer = \<lparr>srv_closed = False, srv_listener = False, srv_connections = {}, srv_pc = SrvStart,
     ln_open = False, open_socks = {}, serving = {}, ending = {}, next_conn = 0\<rparr>"

definition newListener :: "tcpserver \<Rightarrow> srv_error option \<times> tcpserver" where
  "newListener s =
     (if srv_closed s then (Some ErrServerClosed, s)
      else (None, s\<lparr>srv_listener := True, srv_connections := {}\<rparr>))"

definition srv_newConnection :: "nat \<Rightarrow> tcpserver \<Rightarrow> srv_error option \<times> tcpserver" where
  "srv_newConnection k s =
     (if srv_closed s then (Some ErrServerClosed, s)
      else (None, s\<lparr>srv_connections := insert k (srv_connections s)\<rparr>))"

definition srv_close_conn :: "nat \<Rightarrow> tcpserver \<Rightarrow> tcpserver" where
  "srv_close_conn k s = s\<lparr>open_socks := open_socks s - {k}\<rparr>"

definition srv_Close :: "tcpserver \<Rightarrow> tcpserver" where
  "srv_Close s =
     (if srv_closed s then s
      else if \<not> srv_listener s then s\<lparr>srv_closed := True\<rparr>
      else s\<lparr>srv_closed := True, ln_open := False, srv_listener := False,
             open_socks := open_socks s - srv_connections s, srv_connections := {}\<rparr>)"

text \<open>The return from \<open>ListenAndServe\<close>; \<open>ln.Close\<close> is deferred.\<close>

definition srv_return :: "srv_error \<Rightarrow> tcpserver \<Rightarrow> tcpserver" where
  "srv_return e s = s\<lparr>srv_pc := SrvReturned e, ln_open := False\<rparr>"

definition accept_backoff :: "nat \<Rightarrow> nat" where
  "accept_backoff tempDelay =
     (let tempDelay = (if tempDelay = 0 then 5 else tempDelay * 2) in if tempDelay > 1000 then 1000 else tempDelay)"

definition srv_register :: "tcpserver \<Rightarrow> tcpserver" where
  "srv_register s =
     (case newListener s of (Some e, s) \<Rightarrow> srv_return e s | (None, s) \<Rightarrow> s\<lparr>srv_pc := SrvAccept 0\<rparr>)"

definition srv_accept :: "tcpserver \<Rightarrow> tcpserver" where
  "srv_accept s = s\<lparr>srv_pc := SrvAccepted (next_conn s), open_socks := insert (next_conn s) (open_socks s),
     next_conn := Suc (next_conn s)\<rparr>"

text \<open>\<open>AcceptTCP\<close> has failed: \<open>temporary\<close> as the error says.\<close>

definition srv_accept_error :: "bool \<Rightarrow> nat \<Rightarrow> tcpserver \<Rightarrow> tcpserver" where
  "srv_accept_error temporary tempDelay s =
     (if srv_closed s then srv_return ErrServerClosed s
      else if temporary then s\<lparr>srv_pc := SrvAccept (accept_backoff tempDelay)\<rparr>
      else srv_return ErrAccept s)"

definition srv_accepted :: "nat \<Rightarrow> tcpserver \<Rightarrow> tcpserver" where
  "srv_accepted k s =
     (case srv_newConnection k s of
        (Some e, s) \<Rightarrow> srv_return e (srv_close_conn k s)
      | (None, s) \<Rightarrow> s\<lparr>srv_pc := SrvAccept 0, serving := insert k (serving s)\<rparr>)"

text \<open>\<open>serveConnection\<close>: \<open>serve\<close> returns with the socket closed, and then the connection is dropped.\<close>

definition serve_returns :: "nat \<Rightarrow> tcpserver \<Rightarrow> tcpserver" where
  "serve_returns k s = (srv_close_conn k s)\<lparr>serving := serving s - {k}, ending := insert k (ending s)\<rparr>"

definition srv_remove :: "nat \<Rightarrow> tcpserver \<Rightarrow> tcpserver" where
  "srv_remove k s =
     (if srv_closed s then s else s\<lparr>srv_connections := srv_connections s - {k}\<rparr>)\<lparr>ending := ending s - {k}\<rparr>"

text \<open>
  A closed listening socket accepts nothing, and its error is not temporary. The background writer
  or a handler may close the socket of a connection at any time (\<open>sock_closes\<close>).
\<close>

inductive srv_step :: "tcpserver \<Rightarrow> tcpserver \<Rightarrow> bool" where
  is_closed: "srv_pc s = SrvStart \<Longrightarrow> srv_closed s \<Longrightarrow> srv_step s (s\<lparr>srv_pc := SrvReturned ErrServerClosed\<rparr>)"
| not_closed: "srv_pc s = SrvStart \<Longrightarrow> \<not> srv_closed s \<Longrightarrow> srv_step s (s\<lparr>srv_pc := SrvListen\<rparr>)"
| listen_ok: "srv_pc s = SrvListen \<Longrightarrow> srv_step s (s\<lparr>srv_pc := SrvRegister, ln_open := True\<rparr>)"
| listen_error: "srv_pc s = SrvListen \<Longrightarrow> srv_step s (s\<lparr>srv_pc := SrvReturned ErrListen\<rparr>)"
| listener: "srv_pc s = SrvRegister \<Longrightarrow> srv_step s (srv_register s)"
| accept: "srv_pc s = SrvAccept d \<Longrightarrow> ln_open s \<Longrightarrow> srv_step s (srv_accept s)"
| accept_error: "srv_pc s = SrvAccept d \<Longrightarrow> temporary \<longrightarrow> ln_open s \<Longrightarrow> srv_step s (srv_accept_error temporary d s)"
| accepted: "srv_pc s = SrvAccepted k \<Longrightarrow> srv_step s (srv_accepted k s)"
| serve_end: "k \<in> serving s \<Longrightarrow> srv_step s (serve_returns k s)"
| remove: "k \<in> ending s \<Longrightarrow> srv_step s (srv_remove k s)"
| sock_closes: "srv_step s (srv_close_conn k s)"
| close: "srv_step s (srv_Close s)"

lemmas srv_defs [model_defs] =
  NewTCPServer_def newListener_def srv_newConnection_def srv_close_conn_def srv_Close_def srv_return_def
  srv_register_def srv_accept_def srv_accept_error_def srv_accepted_def serve_returns_def srv_remove_def

section \<open>Back-off\<close>

text \<open>The delay after \<open>n\<close> temporary errors in a row: 5, 10, 20, ... up to a second.\<close>

lemma accept_backoff_n: "(accept_backoff ^^ Suc n) 0 = min (5 * 2 ^ n) 1000"
proof (induction n)
  case (Suc n)
  have "(accept_backoff ^^ Suc (Suc n)) 0 = accept_backoff ((accept_backoff ^^ Suc n) 0)"
    by (simp only: funpow.simps comp_apply)
  also have "\<dots> = accept_backoff (min (5 * 2 ^ n) 1000)" by (simp only: Suc)
  also have "accept_backoff (min (5 * 2 ^ n) 1000) = min (5 * 2 ^ Suc n) 1000"
    by (auto simp: accept_backoff_def Let_def min_def)
  finally show ?case .
qed (simp add: accept_backoff_def)

section \<open>What the server holds\<close>

definition pending :: "tcpserver \<Rightarrow> nat set" where
  "pending s = (case srv_pc s of SrvAccepted k \<Rightarrow> {k} | _ \<Rightarrow> {})"

text \<open>How far the listener has come.\<close>

definition stage_inv :: "tcpserver \<Rightarrow> bool" where
  "stage_inv s \<longleftrightarrow>
     (case srv_pc s of
        SrvStart \<Rightarrow> \<not> ln_open s \<and> \<not> srv_listener s
      | SrvListen \<Rightarrow> \<not> ln_open s \<and> \<not> srv_listener s
      | SrvRegister \<Rightarrow> \<not> srv_listener s
      | SrvAccept d \<Rightarrow> if srv_closed s then \<not> ln_open s else srv_listener s
      | SrvAccepted k \<Rightarrow> if srv_closed s then \<not> ln_open s else srv_listener s
      | SrvReturned e \<Rightarrow> \<not> ln_open s)"

text \<open>A connection is accepted, served and dropped once.\<close>

definition fresh_inv :: "tcpserver \<Rightarrow> bool" where
  "fresh_inv s \<longleftrightarrow> serving s \<inter> ending s = {} \<and> pending s \<inter> (serving s \<union> ending s) = {}
     \<and> (\<forall>k \<in> serving s \<union> ending s \<union> pending s. k < next_conn s)"

text \<open>
  An open server registers exactly the connections that are being served or about to be dropped;
  a closed one registers none.
\<close>

definition registry_inv :: "tcpserver \<Rightarrow> bool" where
  "registry_inv s \<longleftrightarrow> srv_connections s = (if srv_closed s then {} else serving s \<union> ending s)
     \<and> (\<not> srv_closed s \<longrightarrow> \<not> srv_listener s \<longrightarrow> srv_connections s = {})"

text \<open>Every open socket is a registered one or was just accepted.\<close>

definition socket_inv :: "tcpserver \<Rightarrow> bool" where
  "socket_inv s \<longleftrightarrow> open_socks s \<subseteq> (if srv_closed s then pending s else serving s \<union> pending s)"

definition srv_inv :: "tcpserver \<Rightarrow> bool" where
  "srv_inv s \<longleftrightarrow> stage_inv s \<and> fresh_inv s \<and> registry_inv s \<and> socket_inv s"

lemmas srv_inv_defs = stage_inv_def fresh_inv_def registry_inv_def socket_inv_def pending_def

lemma srv_inv_new: "srv_inv NewTCPServer"
  by (simp add: srv_inv_def srv_inv_defs srv_defs)

lemma stage_inv_step: "srv_step s t \<Longrightarrow> stage_inv s \<Longrightarrow> stage_inv t"
  by (induction rule: srv_step.induct) (auto simp: stage_inv_def srv_defs split: srv_pc.splits)

lemma fresh_inv_step: "srv_step s t \<Longrightarrow> fresh_inv s \<Longrightarrow> fresh_inv t"
  by (induction rule: srv_step.induct)
    (auto simp: fresh_inv_def pending_def srv_defs less_Suc_eq split: srv_pc.splits)

lemma registry_inv_step: "srv_step s t \<Longrightarrow> srv_inv s \<Longrightarrow> registry_inv t"
  by (induction rule: srv_step.induct) (auto simp: srv_inv_def srv_inv_defs srv_defs split: srv_pc.splits if_splits)

lemma socket_inv_step: "srv_step s t \<Longrightarrow> srv_inv s \<Longrightarrow> socket_inv t"
  by (induction rule: srv_step.induct) (auto simp: srv_inv_def srv_inv_defs srv_defs split: srv_pc.splits if_splits)

lemma srv_inv_step: "srv_step s t \<Longrightarrow> srv_inv s \<Longrightarrow> srv_inv t"
  using stage_inv_step fresh_inv_step registry_inv_step socket_inv_step by (simp add: srv_inv_def)

lemma reachable_srv_inv: "srv_step\<^sup>*\<^sup>* NewTCPServer s \<Longrightarrow> srv_inv s"
  by (induction rule: rtranclp_induct) (auto intro: srv_inv_new srv_inv_step)

section \<open>A closed server shuts down\<close>

definition srv_returned :: "tcpserver \<Rightarrow> bool" where
  "srv_returned s \<longleftrightarrow> (case srv_pc s of SrvReturned e \<Rightarrow> True | _ \<Rightarrow> False)"

definition srv_work :: "tcpserver \<Rightarrow> nat" where
  "srv_work s = (case srv_pc s of SrvReturned e \<Rightarrow> 0 | SrvListen \<Rightarrow> 2 | _ \<Rightarrow> 1)"

lemma srv_closed_stays: "srv_step s t \<Longrightarrow> srv_closed s \<Longrightarrow> srv_closed t"
  by (induction rule: srv_step.induct) (auto simp: srv_defs)

lemma srv_can_move:
  assumes "srv_closed s" and "\<not> srv_returned s"
  shows "\<exists>t. srv_step s t \<and> srv_pc t \<noteq> srv_pc s"
proof (cases "srv_pc s")
  case SrvStart
  then show ?thesis using srv_step.is_closed [of s] assms(1) by force
next
  case SrvListen
  then show ?thesis using srv_step.listen_error [of s] by force
next
  case SrvRegister
  then show ?thesis using srv_step.listener [of s] assms(1) by (force simp: srv_defs)
next
  case (SrvAccept d)
  then show ?thesis using srv_step.accept_error [of s d False] assms(1) by (force simp: srv_defs)
next
  case (SrvAccepted k)
  then show ?thesis using srv_step.accepted [of s k] assms(1) by (force simp: srv_defs)
qed (use assms(2) in \<open>simp add: srv_returned_def\<close>)

interpretation server_end: winding_down srv_step "\<lambda>s. srv_closed s \<and> srv_inv s" "\<lambda>s t. srv_pc t \<noteq> srv_pc s"
  srv_work srv_returned
proof unfold_locales
  fix s t
  assume step: "srv_step s t" and closing: "srv_closed s \<and> srv_inv s"
  then show "srv_closed t \<and> srv_inv t" using srv_closed_stays srv_inv_step by blast
  have stage: "srv_closed s" "stage_inv s" using closing by (simp_all add: srv_inv_def)
  show "srv_work t \<le> srv_work s" and "srv_pc t \<noteq> srv_pc s \<Longrightarrow> srv_work t < srv_work s"
    and "srv_returned s \<Longrightarrow> srv_returned t"
    using step stage
    by (induction rule: srv_step.induct) (auto simp: srv_work_def srv_returned_def stage_inv_def srv_defs)
qed (use srv_can_move in blast)

section \<open>Properties\<close>


text \<open>A run: listen, accept a connection, and \<open>Close\<close> before it is registered.\<close>

definition demo_server :: tcpserver where
  "demo_server = srv_Close (srv_accept (srv_register (NewTCPServer\<lparr>srv_pc := SrvRegister, ln_open := True\<rparr>)))"

lemma demo_server_reachable: "srv_step\<^sup>*\<^sup>* NewTCPServer demo_server"
proof -
  let ?a = "NewTCPServer\<lparr>srv_pc := SrvListen\<rparr>" and ?b = "NewTCPServer\<lparr>srv_pc := SrvRegister, ln_open := True\<rparr>"
  have "srv_step NewTCPServer ?a" by (rule srv_step.not_closed) (simp_all add: srv_defs)
  moreover have "srv_step ?a ?b" using srv_step.listen_ok [of ?a] by simp
  moreover have "srv_step ?b (srv_register ?b)" by (rule srv_step.listener) simp
  moreover have "srv_step (srv_register ?b) (srv_accept (srv_register ?b))"
    by (rule srv_step.accept [of _ 0]) (simp_all add: srv_defs)
  moreover have "srv_step (srv_accept (srv_register ?b)) demo_server"
    unfolding demo_server_def by (rule srv_step.close)
  ultimately show ?thesis by (meson rtranclp.rtrancl_refl rtranclp.rtrancl_into_rtrancl)
qed


end
