(* ===== verification/TcpClient.thy ===== *)
theory TcpClient
  imports Winding
begin

text \<open>
  \<open>TCPClient\<close> of \<open>base/network/tcpclient.go\<close>: one goroutine runs \<open>DialAndServe\<close>, anybody may call
  \<open>Close\<close>, and somebody may be receiving from \<open>ConnectChan\<close> (\<open>waiting\<close>; \<open>told\<close> is what has been
  received). As in \<open>TcpServer\<close> the goroutine is a program counter and \<open>cli_socks\<close> are the sockets
  the process holds open; a connection is the number of its dial. Delays are in seconds.
\<close>

section \<open>State and operations\<close>

datatype cli_error = ErrClientClosed | ErrDial

datatype cli_pc =
    CliStart
  | CliDial nat       \<comment> \<open>with \<open>tempDelay\<close>\<close>
  | CliDialed nat | CliServing nat | CliEnded nat
  | CliReturned cli_error
  | CliPanicked

record tcpclient =
  retry_on :: bool
  timeout :: nat
  cli_closed :: bool
  cli_connection :: "nat option"
  cli_pc :: cli_pc
  cli_socks :: "nat set"
  next_dial :: nat
  waiting :: bool
  told :: "bool list"

text \<open>\<open>timeout\<close> is the argument of \<open>DialAndServe\<close>.\<close>

definition NewTCPClient :: "nat \<Rightarrow> tcpclient" where
  "NewTCPClient t = \<lparr>retry_on = False, timeout = t, cli_closed = False, cli_connection = None, cli_pc = CliStart,
     cli_socks = {}, next_dial = 0, waiting = False, told = []\<rparr>"

definition EnableRetry :: "tcpclient \<Rightarrow> tcpclient" where
  "EnableRetry c = c\<lparr>retry_on := True\<rparr>"

definition DisableRetry :: "tcpclient \<Rightarrow> tcpclient" where
  "DisableRetry c = c\<lparr>retry_on := False\<rparr>"

text \<open>A send on the unbuffered channel that gives up when nobody is receiving.\<close>

definition notifyConnectState :: "bool \<Rightarrow> tcpclient \<Rightarrow> tcpclient" where
  "notifyConnectState state c = (if waiting c then c\<lparr>waiting := False, told := told c @ [state]\<rparr> else c)"

definition dial_backoff :: "nat \<Rightarrow> nat" where
  "dial_backoff tempDelay =
     (let tempDelay = (if tempDelay = 0 then 1 else tempDelay * 2) in if tempDelay > 60 then 60 else tempDelay)"

definition cli_newConnection :: "nat \<Rightarrow> tcpclient \<Rightarrow> cli_error option \<times> tcpclient" where
  "cli_newConnection k c =
     (if cli_closed c then (Some ErrClientClosed, c) else (None, c\<lparr>cli_connection := Some k\<rparr>))"

definition GetConnection :: "tcpclient \<Rightarrow> nat option" where
  "GetConnection c = (if cli_closed c then None else cli_connection c)"

definition cli_Close :: "tcpclient \<Rightarrow> tcpclient" where
  "cli_Close c =
     (if cli_closed c then c
      else (case cli_connection c of
              None \<Rightarrow> c\<lparr>cli_closed := True\<rparr>
            | Some k \<Rightarrow> c\<lparr>cli_closed := True, cli_socks := cli_socks c - {k}, cli_connection := None\<rparr>))"

definition cli_return :: "cli_error \<Rightarrow> tcpclient \<Rightarrow> tcpclient" where
  "cli_return e c = c\<lparr>cli_pc := CliReturned e\<rparr>"

text \<open>
  The dial has failed. With a timeout \<open>dialTCP\<close> asserts the type of a nil \<open>net.Conn\<close>, and panics
  before the error is looked at.
\<close>

definition dial_failed :: "nat \<Rightarrow> tcpclient \<Rightarrow> tcpclient" where
  "dial_failed tempDelay c =
     (if timeout c > 0 then c\<lparr>cli_pc := CliPanicked\<rparr>
      else if cli_closed c then cli_return ErrClientClosed (notifyConnectState False c)
      else if \<not> retry_on c then cli_return ErrDial (notifyConnectState False c)
      else c\<lparr>cli_pc := CliDial (dial_backoff tempDelay)\<rparr>)"

definition dial_ok :: "tcpclient \<Rightarrow> tcpclient" where
  "dial_ok c = c\<lparr>cli_pc := CliDialed (next_dial c), cli_socks := insert (next_dial c) (cli_socks c),
     next_dial := Suc (next_dial c)\<rparr>"

definition cli_dialed :: "nat \<Rightarrow> tcpclient \<Rightarrow> tcpclient" where
  "cli_dialed k c =
     (case cli_newConnection k c of
        (Some e, c) \<Rightarrow> cli_return e (notifyConnectState False c)
      | (None, c) \<Rightarrow> (notifyConnectState True c)\<lparr>cli_pc := CliServing k\<rparr>)"

text \<open>\<open>serveConnection\<close>: \<open>serve\<close> returns with the socket closed, then the connection is dropped.\<close>

definition cli_serve_returns :: "nat \<Rightarrow> tcpclient \<Rightarrow> tcpclient" where
  "cli_serve_returns k c = c\<lparr>cli_pc := CliEnded k, cli_socks := cli_socks c - {k}\<rparr>"

definition cli_remove :: "tcpclient \<Rightarrow> tcpclient" where
  "cli_remove c =
     (if cli_closed c then cli_return ErrClientClosed c
      else c\<lparr>cli_connection := None, cli_pc := CliDial 0\<rparr>)"

text \<open>While it serves, the background writer or a handler may close the socket (\<open>sock_closes\<close>).\<close>

inductive cli_step :: "tcpclient \<Rightarrow> tcpclient \<Rightarrow> bool" where
  is_closed: "cli_pc c = CliStart \<Longrightarrow> cli_closed c \<Longrightarrow> cli_step c (cli_return ErrClientClosed c)"
| not_closed: "cli_pc c = CliStart \<Longrightarrow> \<not> cli_closed c \<Longrightarrow> cli_step c (c\<lparr>cli_pc := CliDial 0\<rparr>)"
| dial_ok: "cli_pc c = CliDial d \<Longrightarrow> cli_step c (dial_ok c)"
| dial_error: "cli_pc c = CliDial d \<Longrightarrow> cli_step c (dial_failed d c)"
| dialed: "cli_pc c = CliDialed k \<Longrightarrow> cli_step c (cli_dialed k c)"
| serve_end: "cli_pc c = CliServing k \<Longrightarrow> cli_step c (cli_serve_returns k c)"
| remove: "cli_pc c = CliEnded k \<Longrightarrow> cli_step c (cli_remove c)"
| sock_closes: "cli_pc c = CliServing k \<Longrightarrow> cli_step c (c\<lparr>cli_socks := cli_socks c - {k}\<rparr>)"
| close: "cli_step c (cli_Close c)"
| enable: "cli_step c (EnableRetry c)"
| disable: "cli_step c (DisableRetry c)"
| wait: "cli_step c (c\<lparr>waiting := True\<rparr>)"

lemmas cli_defs [model_defs] =
  NewTCPClient_def EnableRetry_def DisableRetry_def notifyConnectState_def cli_newConnection_def GetConnection_def
  cli_Close_def cli_return_def dial_failed_def dial_ok_def cli_dialed_def cli_serve_returns_def cli_remove_def

text \<open>The delay after \<open>n\<close> failures in a row: 1, 2, 4, ... up to a minute.\<close>

lemma dial_backoff_n: "(dial_backoff ^^ Suc n) 0 = min (2 ^ n) 60"
proof (induction n)
  case (Suc n)
  have "(dial_backoff ^^ Suc (Suc n)) 0 = dial_backoff ((dial_backoff ^^ Suc n) 0)"
    by (simp only: funpow.simps comp_apply)
  also have "\<dots> = dial_backoff (min (2 ^ n) 60)" by (simp only: Suc)
  also have "dial_backoff (min (2 ^ n) 60) = min (2 ^ Suc n) 60"
    by (auto simp: dial_backoff_def Let_def min_def)
  finally show ?case .
qed (simp add: dial_backoff_def)

section \<open>What the client holds\<close>

text \<open>
  While the client is open its connection is the one being served, and nothing else is. A closed
  client has none; the one socket it may hold open is that of a dial that succeeded around the
  moment of \<open>Close\<close>.
\<close>

definition cli_inv :: "tcpclient \<Rightarrow> bool" where
  "cli_inv c \<longleftrightarrow>
     (case cli_pc c of
        CliDialed k \<Rightarrow> cli_socks c = {k} \<and> cli_connection c = None
      | CliServing k \<Rightarrow> if cli_closed c then cli_socks c = {} \<and> cli_connection c = None
          else cli_socks c \<subseteq> {k} \<and> cli_connection c = Some k
      | CliEnded k \<Rightarrow> cli_socks c = {} \<and> cli_connection c = (if cli_closed c then None else Some k)
      | CliReturned e \<Rightarrow> cli_connection c = None \<and> (cli_socks c = {} \<or> cli_closed c \<and> (\<exists>k. cli_socks c = {k}))
          \<and> (e = ErrClientClosed \<longrightarrow> cli_closed c)
      | _ \<Rightarrow> cli_socks c = {} \<and> cli_connection c = None)"

lemma cli_inv_new: "cli_inv (NewTCPClient t)"
  by (simp add: cli_inv_def cli_defs)

lemma cli_inv_step: "cli_step c d \<Longrightarrow> cli_inv c \<Longrightarrow> cli_inv d"
  by (induction rule: cli_step.induct) (auto simp: cli_inv_def cli_defs split: cli_pc.splits option.splits)

lemma reachable_cli_inv: "cli_step\<^sup>*\<^sup>* (NewTCPClient t) c \<Longrightarrow> cli_inv c"
  by (induction rule: rtranclp_induct) (auto intro: cli_inv_new cli_inv_step)

section \<open>A closed client returns\<close>

definition cli_ended :: "tcpclient \<Rightarrow> bool" where
  "cli_ended c \<longleftrightarrow> (case cli_pc c of CliReturned e \<Rightarrow> True | CliPanicked \<Rightarrow> True | _ \<Rightarrow> False)"

definition cli_work :: "tcpclient \<Rightarrow> nat" where
  "cli_work c = (case cli_pc c of CliReturned e \<Rightarrow> 0 | CliPanicked \<Rightarrow> 0 | CliDial d \<Rightarrow> 2 | CliServing k \<Rightarrow> 2 | _ \<Rightarrow> 1)"

lemma cli_can_move:
  assumes "cli_closed c" and "\<not> cli_ended c"
  shows "\<exists>d. cli_step c d \<and> cli_pc d \<noteq> cli_pc c"
proof (cases "cli_pc c")
  case CliStart
  then show ?thesis using cli_step.is_closed [of c] assms(1) by (force simp: cli_defs)
next
  case (CliDial d)
  then show ?thesis using cli_step.dial_ok [of c d] by (force simp: cli_defs)
next
  case (CliDialed k)
  then show ?thesis using cli_step.dialed [of c k] assms(1) by (force simp: cli_defs)
next
  case (CliServing k)
  then show ?thesis using cli_step.serve_end [of c k] by (force simp: cli_defs)
next
  case (CliEnded k)
  then show ?thesis using cli_step.remove [of c k] assms(1) by (force simp: cli_defs)
qed (use assms(2) in \<open>simp_all add: cli_ended_def\<close>)

interpretation client_end: winding_down cli_step cli_closed "\<lambda>c d. cli_pc d \<noteq> cli_pc c" cli_work cli_ended
proof unfold_locales
  fix c d
  assume step: "cli_step c d" and closed: "cli_closed c"
  then show "cli_closed d" and "cli_work d \<le> cli_work c" and "cli_pc d \<noteq> cli_pc c \<Longrightarrow> cli_work d < cli_work c"
    and "cli_ended c \<Longrightarrow> cli_ended d"
    by (induction rule: cli_step.induct) (auto simp: cli_work_def cli_ended_def cli_defs split: option.splits)
qed (rule cli_can_move)

lemma timeout_kept: "cli_step c d \<Longrightarrow> timeout d = timeout c"
  by (induction rule: cli_step.induct) (auto simp: cli_defs split: option.splits)

lemma no_timeout_no_panic: "cli_step c d \<Longrightarrow> timeout c = 0 \<Longrightarrow> cli_pc c \<noteq> CliPanicked \<Longrightarrow> cli_pc d \<noteq> CliPanicked"
  by (induction rule: cli_step.induct) (auto simp: cli_defs split: option.splits)

lemma no_timeout_never_panics:
  "cli_step\<^sup>*\<^sup>* c d \<Longrightarrow> timeout c = 0 \<Longrightarrow> cli_pc c \<noteq> CliPanicked \<Longrightarrow> timeout d = 0 \<and> cli_pc d \<noteq> CliPanicked"
  by (induction rule: rtranclp_induct) (auto dest: timeout_kept no_timeout_no_panic)

lemma closed_client_returns:
  assumes "\<And>i. cli_step (f i) (f (Suc i))" and "cli_step\<^sup>*\<^sup>* (NewTCPClient 0) (f 0)"
    and "cli_closed (f 0)" and "\<And>i. \<not> cli_ended (f i) \<Longrightarrow> \<exists>j \<ge> i. cli_pc (f (Suc j)) \<noteq> cli_pc (f j)"
  shows "\<exists>n. \<forall>m \<ge> n. (\<exists>e. cli_pc (f m) = CliReturned e) \<and> GetConnection (f m) = None"
proof -
  obtain n where n: "\<forall>m \<ge> n. cli_ended (f m)"
    using client_end.fair_run_ends [OF assms(1,3,4)] by blast
  have reach: "cli_step\<^sup>*\<^sup>* (NewTCPClient 0) (f m)" for m
    by (induction m) (auto intro: rtranclp.rtrancl_into_rtrancl assms(1,2))
  have np: "cli_pc (f m) \<noteq> CliPanicked" for m
    using no_timeout_never_panics [OF reach] by (simp add: NewTCPClient_def)
  have "cli_closed (f m)" for m
    using client_end.run_stays [of f, OF assms(1,3), of m] by simp
  then have "(\<exists>e. cli_pc (f m) = CliReturned e) \<and> GetConnection (f m) = None" if "cli_ended (f m)" for m
    using that np [of m] by (cases "cli_pc (f m)") (simp_all add: cli_ended_def GetConnection_def)
  then show ?thesis using n by blast
qed

section \<open>Properties\<close>

text \<open>With a timeout, as both callers have it, the first dial that fails ends the process.\<close>

lemma dial_failure_panics: "timeout c > 0 \<Longrightarrow> cli_pc (dial_failed d c) = CliPanicked"
  by (simp add: dial_failed_def)

lemma returned_keeps_sockets:
  "cli_step c d \<Longrightarrow> cli_pc c = CliReturned e \<Longrightarrow> cli_closed c \<Longrightarrow>
    cli_pc d = CliReturned e \<and> cli_closed d \<and> cli_socks d = cli_socks c"
  by (induction rule: cli_step.induct) (auto simp: cli_defs)

text \<open>
  A client that is closed while it dials leaks the connection. If \<open>Close\<close> falls between the
  successful dial and the registration of the new connection, \<open>DialAndServe\<close> returns
  \<open>ErrClientClosed\<close>, with nobody serving or able to reach the connection, and the process never
  closes its socket. (The server, in the same race, does.)
\<close>
lemma close_during_dial_leaks:
  assumes "cli_step\<^sup>*\<^sup>* (NewTCPClient t) c" and "cli_pc c = CliDialed k"
    and "cli_step\<^sup>*\<^sup>* (cli_dialed k (cli_Close c)) d"
  shows "cli_step c (cli_Close c) \<and> cli_step (cli_Close c) (cli_dialed k (cli_Close c))
    \<and> cli_pc d = CliReturned ErrClientClosed \<and> GetConnection d = None \<and> cli_socks d = {k}"
proof -
  have inv: "cli_socks c = {k}" "cli_connection c = None"
    using reachable_cli_inv [OF assms(1)] assms(2) by (simp_all add: cli_inv_def)
  then have pc: "cli_pc (cli_Close c) = CliDialed k" using assms(2) by (simp add: cli_Close_def)
  have start: "cli_pc (cli_dialed k (cli_Close c)) = CliReturned ErrClientClosed"
      "cli_closed (cli_dialed k (cli_Close c))" "cli_socks (cli_dialed k (cli_Close c)) = {k}"
    using inv by (simp_all add: cli_defs)
  from assms(3) have "cli_pc d = CliReturned ErrClientClosed \<and> cli_closed d \<and> cli_socks d = {k}"
    by (induction rule: rtranclp_induct) (use start returned_keeps_sockets in fastforce)+
  then show ?thesis using cli_step.close cli_step.dialed [OF pc] by (simp add: GetConnection_def)
qed

lemma close_during_dial_leaks_witness:
  "let c = dial_ok ((NewTCPClient 2)\<lparr>cli_pc := CliDial 0\<rparr>)
   in cli_step\<^sup>*\<^sup>* (NewTCPClient 2) c \<and> cli_socks (cli_dialed 0 (cli_Close c)) = {0}"
proof -
  let ?a = "(NewTCPClient 2)\<lparr>cli_pc := CliDial 0\<rparr>"
  have "cli_step (NewTCPClient 2) ?a" by (rule cli_step.not_closed) (simp_all add: cli_defs)
  moreover have "cli_step ?a (dial_ok ?a)" by (rule cli_step.dial_ok [of _ 0]) simp
  ultimately have r: "cli_step\<^sup>*\<^sup>* (NewTCPClient 2) (dial_ok ?a)" by (meson rtranclp.rtrancl_refl rtranclp.rtrancl_into_rtrancl)
  have "cli_pc (dial_ok ?a) = CliDialed 0" by (simp add: cli_defs)
  from close_during_dial_leaks [OF r this rtranclp.rtrancl_refl] show ?thesis using r by (simp add: Let_def)
qed

end
