(* ===== verification/GateRun.thy ===== *)
theory GateRun
  imports TcpClient
begin

text \<open>
  \<open>IMSvr.run\<close> of \<open>gamegate/imclient.go\<close>: the goroutine that keeps the gate connected to a chat
  server. It runs beside the \<open>DialAndServe\<close> of its TCP client (\<open>TcpClient\<close>), waits to be told that
  the connection is up, registers, and watches the connection with a one-second timer until the
  manager's \<open>DieChan\<close> is closed. A panic anywhere ends the process: nothing recovers it.
\<close>

datatype run_pc = RunDialing | RunWaiting | RunArmed | RunSpent | RunDone | RunPanicked

record im_run =
  run_client :: tcpclient
  run_pc :: run_pc
  registered_on :: "nat list"   \<comment> \<open>the connections READY was sent on\<close>

text \<open>A new client with the two seconds of timeout, and \<open>DialAndServe\<close> started.\<close>

definition im_redial :: "im_run \<Rightarrow> im_run" where
  "im_redial r = r\<lparr>run_client := NewTCPClient 2, run_pc := RunDialing\<rparr>"

definition im_run_start :: im_run where
  "im_run_start = \<lparr>run_client = NewTCPClient 2, run_pc = RunDialing, registered_on = []\<rparr>"

text \<open>\<open>register\<close> sends on the connection of the client; on a nil connection that panics.\<close>

definition im_run_register :: "im_run \<Rightarrow> im_run" where
  "im_run_register r =
     (case GetConnection (run_client r) of
        None \<Rightarrow> r\<lparr>run_pc := RunPanicked\<rparr>
      | Some k \<Rightarrow> r\<lparr>registered_on := registered_on r @ [k], run_pc := RunArmed\<rparr>)"

definition im_run_told :: "bool \<Rightarrow> im_run \<Rightarrow> im_run" where
  "im_run_told ok r = (if ok then im_run_register r else im_redial r)"

text \<open>
  The timer fires once. A closed client has no connection, so the log line panics on its address
  before the loop can be left to dial again.
\<close>

definition im_run_tick :: "im_run \<Rightarrow> im_run" where
  "im_run_tick r =
     (if cli_closed (run_client r)
      then (case GetConnection (run_client r) of None \<Rightarrow> r\<lparr>run_pc := RunPanicked\<rparr> | Some k \<Rightarrow> im_redial r)
      else r\<lparr>run_pc := RunSpent\<rparr>)"

definition process_alive :: "im_run \<Rightarrow> bool" where
  "process_alive r \<longleftrightarrow> cli_pc (run_client r) \<noteq> CliPanicked \<and> run_pc r \<noteq> RunPanicked"

inductive im_run_step :: "im_run \<Rightarrow> im_run \<Rightarrow> bool" where
  client: "process_alive r \<Longrightarrow> cli_step (run_client r) c \<Longrightarrow> waiting c \<longrightarrow> waiting (run_client r)
    \<Longrightarrow> im_run_step r (r\<lparr>run_client := c\<rparr>)"
| receive: "process_alive r \<Longrightarrow> run_pc r = RunDialing
    \<Longrightarrow> im_run_step r (r\<lparr>run_client := (run_client r)\<lparr>waiting := True\<rparr>, run_pc := RunWaiting\<rparr>)"
| told: "process_alive r \<Longrightarrow> run_pc r = RunWaiting \<Longrightarrow> told (run_client r) = [ok]
    \<Longrightarrow> im_run_step r (im_run_told ok r)"
| tick: "process_alive r \<Longrightarrow> run_pc r = RunArmed \<Longrightarrow> im_run_step r (im_run_tick r)"
| die: "process_alive r \<Longrightarrow> run_pc r \<in> {RunArmed, RunSpent} \<Longrightarrow> im_run_step r (r\<lparr>run_pc := RunDone\<rparr>)"

lemmas im_run_defs [model_defs] =
  im_redial_def im_run_start_def im_run_register_def im_run_told_def im_run_tick_def process_alive_def

text \<open>The watch that finds its client closed panics; it never gets to dial again.\<close>

lemma watch_never_redials: "run_pc (im_run_tick r) \<noteq> RunDialing"
  by (simp add: im_run_defs GetConnection_def)

lemma closed_client_panics_the_watch: "cli_closed (run_client r) \<Longrightarrow> run_pc (im_run_tick r) = RunPanicked"
  by (simp add: im_run_tick_def GetConnection_def)

lemma spent_step:
  "im_run_step r s \<Longrightarrow> run_pc r \<in> {RunSpent, RunDone} \<Longrightarrow>
    run_pc s \<in> {RunSpent, RunDone} \<and> registered_on s = registered_on r"
  by (induction rule: im_run_step.induct) auto

text \<open>One registration for each successful wait, all on connections of the same client.\<close>

definition run_inv :: "im_run \<Rightarrow> bool" where
  "run_inv r \<longleftrightarrow> length (registered_on r) = (if run_pc r \<in> {RunArmed, RunSpent, RunDone} then 1 else 0)
     \<or> run_pc r = RunPanicked"

lemma run_inv_step: "im_run_step r s \<Longrightarrow> run_inv r \<Longrightarrow> run_inv s"
  by (induction rule: im_run_step.induct)
    (auto simp: run_inv_def im_run_defs GetConnection_def split: option.splits)

lemma reachable_run_inv: "im_run_step\<^sup>*\<^sup>* im_run_start r \<Longrightarrow> run_inv r"
  by (induction rule: rtranclp_induct) (simp add: run_inv_def im_run_start_def, blast intro: run_inv_step)

text \<open>
  C37: the gate registers with a chat server once, whatever becomes of the connection. After the
  watch has looked at the connection one second in, \<open>run\<close> does nothing any more but end: when the
  connection breaks, the TCP client dials again by itself, and the new connection is served without
  ever being registered. (If the client was closed by then, the watch panics instead.)
\<close>
theorem reconnections_are_not_registered:
  assumes "im_run_step\<^sup>*\<^sup>* im_run_start r" and "run_pc r = RunSpent" and "im_run_step\<^sup>*\<^sup>* r s"
  shows "run_pc s \<in> {RunSpent, RunDone} \<and> registered_on s = registered_on r \<and> length (registered_on s) = 1"
proof -
  from assms(3) have "run_pc s \<in> {RunSpent, RunDone} \<and> registered_on s = registered_on r"
    by (induction rule: rtranclp_induct) (use assms(2) spent_step in \<open>auto dest: spent_step\<close>)
  moreover have "length (registered_on r) = 1"
    using reachable_run_inv [OF assms(1)] assms(2) by (simp add: run_inv_def)
  ultimately show ?thesis by simp
qed

text \<open>A run: dial, register, the look at the connection; then the connection breaks and is dialled again.\<close>

definition demo_client :: "nat \<Rightarrow> tcpclient" where
  "demo_client k = \<lparr>retry_on = False, timeout = 2, cli_closed = False, cli_connection = Some k, cli_pc = CliServing k,
     cli_socks = {k}, next_dial = Suc k, waiting = False, told = [True]\<rparr>"

definition demo_run :: "nat \<Rightarrow> im_run" where
  "demo_run k = \<lparr>run_client = demo_client k, run_pc = RunSpent, registered_on = [0]\<rparr>"

lemma im_run_client:
  assumes "cli_step c d" and "waiting d \<longrightarrow> waiting c" and "process_alive \<lparr>run_client = c, run_pc = p, registered_on = l\<rparr>"
  shows "im_run_step \<lparr>run_client = c, run_pc = p, registered_on = l\<rparr> \<lparr>run_client = d, run_pc = p, registered_on = l\<rparr>"
  using im_run_step.client [of "\<lparr>run_client = c, run_pc = p, registered_on = l\<rparr>" d] assms by simp

lemma demo_run_reachable: "im_run_step\<^sup>*\<^sup>* im_run_start (demo_run 0)"
proof -
  let ?r = "\<lambda>c p l. \<lparr>run_client = c, run_pc = p, registered_on = l\<rparr>"
  let ?c0 = "(NewTCPClient 2)\<lparr>waiting := True\<rparr>"
  let ?c1 = "?c0\<lparr>cli_pc := CliDial 0\<rparr>" and ?c3 = "demo_client 0"
  let ?c2 = "dial_ok ?c1"
  have "im_run_step im_run_start (?r ?c0 RunWaiting [])"
    using im_run_step.receive [of im_run_start] by (simp add: im_run_defs cli_defs)
  moreover have "im_run_step (?r ?c0 RunWaiting []) (?r ?c1 RunWaiting [])"
    by (rule im_run_client [OF cli_step.not_closed]) (simp_all add: process_alive_def cli_defs)
  moreover have "im_run_step (?r ?c1 RunWaiting []) (?r ?c2 RunWaiting [])"
    by (rule im_run_client [OF cli_step.dial_ok [of _ 0]]) (simp_all add: process_alive_def cli_defs)
  moreover have "cli_step ?c2 ?c3"
    using cli_step.dialed [of ?c2 0] by (simp add: cli_defs demo_client_def)
  then have "im_run_step (?r ?c2 RunWaiting []) (?r ?c3 RunWaiting [])"
    by (rule im_run_client) (simp_all add: process_alive_def cli_defs demo_client_def)
  moreover have "im_run_step (?r ?c3 RunWaiting []) (?r ?c3 RunArmed [0])"
    using im_run_step.told [of "?r ?c3 RunWaiting []" True]
    by (simp add: im_run_defs demo_client_def GetConnection_def)
  moreover have "im_run_step (?r ?c3 RunArmed [0]) (demo_run 0)"
    using im_run_step.tick [of "?r ?c3 RunArmed [0]"] by (simp add: im_run_defs demo_client_def demo_run_def)
  ultimately show ?thesis by (meson rtranclp.rtrancl_refl rtranclp.rtrancl_into_rtrancl)
qed

lemma demo_run_reconnects: "im_run_step\<^sup>*\<^sup>* (demo_run 0) (demo_run 1)"
proof -
  let ?r = "\<lambda>c. \<lparr>run_client = c, run_pc = RunSpent, registered_on = [0]\<rparr>"
  let ?c1 = "cli_serve_returns 0 (demo_client 0)"
  let ?c2 = "cli_remove ?c1"
  let ?c3 = "dial_ok ?c2"
  have "im_run_step (?r (demo_client 0)) (?r ?c1)"
    by (rule im_run_client [OF cli_step.serve_end]) (simp_all add: process_alive_def cli_defs demo_client_def)
  moreover have "im_run_step (?r ?c1) (?r ?c2)"
    by (rule im_run_client [OF cli_step.remove [of _ 0]]) (simp_all add: process_alive_def cli_defs demo_client_def)
  moreover have "im_run_step (?r ?c2) (?r ?c3)"
    by (rule im_run_client [OF cli_step.dial_ok [of _ 0]]) (simp_all add: process_alive_def cli_defs demo_client_def)
  moreover have "cli_step ?c3 (demo_client 1)"
    using cli_step.dialed [of ?c3 1] by (simp add: cli_defs demo_client_def)
  then have "im_run_step (?r ?c3) (?r (demo_client 1))"
    by (rule im_run_client) (simp_all add: process_alive_def cli_defs demo_client_def)
  ultimately show ?thesis unfolding demo_run_def by (meson rtranclp.rtrancl_refl rtranclp.rtrancl_into_rtrancl)
qed

theorem reconnections_are_not_registered_witness:
  "GetConnection (run_client (demo_run 1)) = Some 1 \<and> length (registered_on (demo_run 1)) = 1"
  using reconnections_are_not_registered [OF demo_run_reachable _ demo_run_reconnects]
  by (simp add: demo_run_def demo_client_def GetConnection_def)

end
