(* ===== verification/Session.thy ===== *)
theory Session
  imports Connection
begin

text \<open>
  \<open>base/network/session/\<close>: a \<open>Session\<close> wraps a connection with a receive-rate limit, a
  verification deadline (a 30 second timer that shuts the connection down unless \<open>Verify\<close>
  stops it first) and user data; \<open>SessionProxy\<close> turns connection events into session events.

  Times are nanoseconds since the Unix epoch; a zero \<open>time.Time\<close> is year 1. A Go timer is
  running until it fires or is stopped; \<open>Stop\<close> reports whether it was running.
\<close>

section \<open>State\<close>

definition second_ns :: int where
  "second_ns = 1000000000"

definition zero_time :: int where
  "zero_time = - 62135596800 * second_ns"

definition kVerifyTime :: int where
  "kVerifyTime = 30 * second_ns"

datatype go_timer = TimerRunning | TimerStopped | TimerFired

definition stop_timer :: "go_timer \<Rightarrow> bool \<times> go_timer" where
  "stop_timer t = (case t of TimerRunning \<Rightarrow> (True, TimerStopped) | _ \<Rightarrow> (False, t))"

record 'u session =
  s_conn :: tcpconn
  limitPerSecond :: int
  lastCount :: int
  lastTime :: int
  verified :: bool
  verifyTimer :: go_timer
  Userdata :: "'u option"

definition newSession :: "tcpconn \<Rightarrow> 'u session" where
  "newSession conn = \<lparr>s_conn = conn, limitPerSecond = 0, lastCount = 0, lastTime = zero_time,
     verified = False, verifyTimer = TimerRunning, Userdata = None\<rparr>"

section \<open>Operations\<close>

definition SetReceiveLimitPerSecond :: "int \<Rightarrow> 'u session \<Rightarrow> 'u session" where
  "SetReceiveLimitPerSecond limit s = s\<lparr>limitPerSecond := limit\<rparr>"

definition receiveLimit :: "int \<Rightarrow> 'u session \<Rightarrow> bool \<times> 'u session" where
  "receiveLimit now s =
     (if limitPerSecond s = 0 then (False, s)
      else let s = s\<lparr>lastCount := lastCount s + 1\<rparr>
           in if lastCount s > limitPerSecond s
              then if now - lastTime s < second_ns then (True, s)
                   else (False, s\<lparr>lastTime := now, lastCount := 0\<rparr>)
              else (False, s))"

definition Verify :: "'u session \<Rightarrow> 'u session" where
  "Verify s =
     (if verified s then s
      else case stop_timer (verifyTimer s) of
        (True, t) \<Rightarrow> s\<lparr>verifyTimer := t, verified := True\<rparr>
      | (False, t) \<Rightarrow> s\<lparr>verifyTimer := t\<rparr>)"

definition IsVerified :: "'u session \<Rightarrow> bool" where
  "IsVerified s = verified s"

definition verifyTimeout :: "'u session \<Rightarrow> 'u session" where
  "verifyTimeout s = s\<lparr>s_conn := Shutdown (s_conn s)\<rparr>"

text \<open>The runtime fires a running timer and calls \<open>verifyTimeout\<close> (\<open>time.AfterFunc\<close>).\<close>

definition timer_fires :: "'u session \<Rightarrow> 'u session" where
  "timer_fires s =
     (if verifyTimer s = TimerRunning then verifyTimeout (s\<lparr>verifyTimer := TimerFired\<rparr>) else s)"

definition session_Send :: "byte list \<Rightarrow> 'u session \<Rightarrow> 'u session" where
  "session_Send b s = s\<lparr>s_conn := snd (Send [b] (s_conn s))\<rparr>"

definition session_Shutdown :: "'u session \<Rightarrow> 'u session" where
  "session_Shutdown s =
     (let s = (if verified s then s else s\<lparr>verifyTimer := snd (stop_timer (verifyTimer s))\<rparr>)
      in s\<lparr>s_conn := Shutdown (s_conn s)\<rparr>)"

text \<open>
  \<open>SessionProxy.Receive\<close>: \<open>None\<close> is the early return after a shutdown, \<open>Some b\<close> the call of
  the handler with the message.
\<close>

definition proxy_Connect :: "tcpconn \<Rightarrow> 'u session" where
  "proxy_Connect conn = newSession conn"

definition proxy_Receive :: "int \<Rightarrow> byte list \<Rightarrow> 'u session \<Rightarrow> byte list option \<times> 'u session" where
  "proxy_Receive now b s =
     (case receiveLimit now s of
        (True, s') \<Rightarrow> (None, session_Shutdown s')
      | (False, s') \<Rightarrow> (Some b, s'))"

lemmas session_defs [model_defs] =
  newSession_def SetReceiveLimitPerSecond_def Verify_def IsVerified_def verifyTimeout_def
  timer_fires_def session_Send_def session_Shutdown_def stop_timer_def

section \<open>The rate limit\<close>

text \<open>Messages at the given times, in order; the number the handler gets to see.\<close>

fun receive_all :: "int list \<Rightarrow> 'u session \<Rightarrow> nat \<times> 'u session" where
  "receive_all [] s = (0, s)"
| "receive_all (t # ts) s =
     (case proxy_Receive t [] s of
        (None, s') \<Rightarrow> receive_all ts s'
      | (Some _, s') \<Rightarrow> apfst Suc (receive_all ts s'))"

lemma Shutdown_limit [simp]:
  "limitPerSecond (session_Shutdown s) = limitPerSecond s"
  "lastCount (session_Shutdown s) = lastCount s" "lastTime (session_Shutdown s) = lastTime s"
  by (simp_all add: session_Shutdown_def Let_def)

lemma receive_all_no_reset:
  assumes "0 < limitPerSecond s" and "\<forall>t \<in> set ts. t - lastTime s < second_ns"
  shows "fst (receive_all ts s) \<le> nat (limitPerSecond s - lastCount s)"
  using assms
proof (induction ts arbitrary: s)
  case Nil
  then show ?case by simp
next
  case (Cons t ts)
  show ?case
  proof (cases "lastCount s + 1 > limitPerSecond s")
    case True
    let ?s = "session_Shutdown (s\<lparr>lastCount := lastCount s + 1\<rparr>)"
    have "proxy_Receive t [] s = (None, ?s)"
      using True Cons.prems by (simp add: proxy_Receive_def receiveLimit_def Let_def)
    then show ?thesis using Cons.IH [of ?s] Cons.prems True by simp
  next
    case False
    let ?s = "s\<lparr>lastCount := lastCount s + 1\<rparr>"
    have "proxy_Receive t [] s = (Some [], ?s)"
      using False Cons.prems by (simp add: proxy_Receive_def receiveLimit_def Let_def)
    then show ?thesis using Cons.IH [of ?s] Cons.prems False by simp
  qed
qed

lemma receive_all_window:
  assumes "0 < limitPerSecond s" and "\<forall>t \<in> set ts. a \<le> t \<and> t < a + second_ns"
  shows "fst (receive_all ts s)
    \<le> nat (limitPerSecond s - lastCount s) + 1 + nat (limitPerSecond s)"
  using assms
proof (induction ts arbitrary: s)
  case Nil
  then show ?case by simp
next
  case (Cons t ts)
  let ?c = "s\<lparr>lastCount := lastCount s + 1\<rparr>"
  consider "lastCount s + 1 > limitPerSecond s" "t - lastTime s < second_ns"
    | "lastCount s + 1 > limitPerSecond s" "\<not> t - lastTime s < second_ns"
    | "\<not> lastCount s + 1 > limitPerSecond s" by blast
  then show ?case
  proof cases
    case 1
    then have "proxy_Receive t [] s = (None, session_Shutdown ?c)"
      using Cons.prems by (simp add: proxy_Receive_def receiveLimit_def Let_def)
    then show ?thesis using Cons.IH [of "session_Shutdown ?c"] Cons.prems 1 by simp
  next
    case 2
    let ?r = "s\<lparr>lastCount := 0, lastTime := t\<rparr>"
    have "proxy_Receive t [] s = (Some [], ?r)"
      using 2 Cons.prems by (simp add: proxy_Receive_def receiveLimit_def Let_def)
    moreover have "fst (receive_all ts ?r) \<le> nat (limitPerSecond s)"
      using receive_all_no_reset [of ?r ts] Cons.prems by fastforce
    ultimately show ?thesis by simp
  next
    case 3
    then have "proxy_Receive t [] s = (Some [], ?c)"
      using Cons.prems by (simp add: proxy_Receive_def receiveLimit_def Let_def)
    then show ?thesis using Cons.IH [of ?c] Cons.prems 3 by simp
  qed
qed

lemma receive_all_append:
  "receive_all (xs @ ys) s = (let (m, s') = receive_all xs s; (n, s'') = receive_all ys s' in (m + n, s''))"
  by (induction xs arbitrary: s) (auto simp: split_beta Let_def apfst_def map_prod_def split: option.splits)

lemma receive_all_below:
  assumes "0 < limitPerSecond s" and "lastCount s + int n \<le> limitPerSecond s"
  shows "receive_all (replicate n t) s = (n, s\<lparr>lastCount := lastCount s + int n\<rparr>)"
  using assms
proof (induction n arbitrary: s)
  case 0
  then show ?case by simp
next
  case (Suc n)
  let ?c = "s\<lparr>lastCount := lastCount s + 1\<rparr>"
  have "proxy_Receive t [] s = (Some [], ?c)"
    using Suc.prems by (simp add: proxy_Receive_def receiveLimit_def Let_def)
  then show ?case using Suc.IH [of ?c] Suc.prems by (simp add: ac_simps)
qed

lemma receive_all_burst:
  assumes "0 < limitPerSecond s" and "lastCount s = 0" and "second_ns \<le> t - lastTime s"
  shows "fst (receive_all (replicate (nat (2 * limitPerSecond s + 1)) t) s)
    = nat (2 * limitPerSecond s + 1)"
proof -
  obtain n where n: "limitPerSecond s = int n" using assms(1) by (metis nonneg_int_cases less_le)
  let ?full = "s\<lparr>lastCount := int n\<rparr>" and ?r = "s\<lparr>lastCount := 0, lastTime := t\<rparr>"
  have "receive_all (replicate n t) s = (n, ?full)"
    using receive_all_below [of s n t] assms n by simp
  moreover have "proxy_Receive t [] ?full = (Some [], ?r)"
    using assms n by (simp add: proxy_Receive_def receiveLimit_def Let_def)
  then have "receive_all (t # replicate n t) ?full = (Suc n, ?r\<lparr>lastCount := int n\<rparr>)"
    using receive_all_below [of ?r n t] assms n by simp
  moreover have "nat (2 * limitPerSecond s + 1) = n + (1 + n)" using n by simp
  then have "replicate (nat (2 * limitPerSecond s + 1)) t = replicate n t @ t # replicate n t"
    by (simp only: replicate_add) simp
  ultimately show ?thesis
    by (simp add: receive_all_append del: receive_all.simps) (simp add: n)
qed

section \<open>Verification\<close>

text \<open>
  What can happen to a session: the timer fires, the handler verifies it, sends, sets its
  limit or shuts it down, messages arrive, and the connection moves on its own (its writer
  works, the socket fails). Each call is one step: the fields of a session have no lock, and
  a data race between two goroutines that call it at once is outside the model.
\<close>

inductive sess_step :: "'u session \<Rightarrow> 'u session \<Rightarrow> bool" where
  timer: "sess_step s (timer_fires s)"
| verify: "sess_step s (Verify s)"
| send: "sess_step s (session_Send b s)"
| limit: "sess_step s (SetReceiveLimitPerSecond n s)"
| shut: "sess_step s (session_Shutdown s)"
| recv: "sess_step s (snd (proxy_Receive t b s))"
| conn: "conn_step (s_conn s) c \<Longrightarrow> sess_step s (s\<lparr>s_conn := c\<rparr>)"

definition sess_inv :: "'u session \<Rightarrow> bool" where
  "sess_inv s \<longleftrightarrow> conn_step\<^sup>*\<^sup>* newTCPConnection (s_conn s)
     \<and> (verified s \<longrightarrow> verifyTimer s = TimerStopped)
     \<and> (verifyTimer s = TimerFired \<longrightarrow> closed (s_conn s))
     \<and> (verifyTimer s = TimerStopped \<and> \<not> verified s \<longrightarrow> closed (s_conn s))"

lemma closed_Shutdown [simp]: "closed (Shutdown c)"
  by (simp add: Shutdown_def stopBackgroundWrite_def)

lemma reach_Send: "conn_step\<^sup>*\<^sup>* c0 c \<Longrightarrow> conn_step\<^sup>*\<^sup>* c0 (snd (Send b c))"
  by (rule rtranclp.rtrancl_into_rtrancl) (auto intro: conn_step.send)

lemma reach_Shutdown: "conn_step\<^sup>*\<^sup>* c0 c \<Longrightarrow> conn_step\<^sup>*\<^sup>* c0 (Shutdown c)"
  by (rule rtranclp.rtrancl_into_rtrancl) (auto intro: conn_step.shutdown)

lemma sess_inv_new: "sess_inv (newSession newTCPConnection)"
  by (simp add: sess_inv_def newSession_def)

lemma sess_inv_Shutdown: "sess_inv s \<Longrightarrow> sess_inv (session_Shutdown s)"
  by (auto simp: sess_inv_def session_Shutdown_def Let_def intro: reach_Shutdown)

lemma sess_inv_counters:
  "sess_inv (s\<lparr>lastCount := a\<rparr>) = sess_inv s" "sess_inv (s\<lparr>lastTime := b\<rparr>) = sess_inv s"
  by (simp_all add: sess_inv_def)

lemma sess_inv_receiveLimit: "sess_inv s \<Longrightarrow> sess_inv (snd (receiveLimit t s))"
  by (simp add: receiveLimit_def Let_def sess_inv_counters)

lemma sess_inv_step: "sess_step s s' \<Longrightarrow> sess_inv s \<Longrightarrow> sess_inv s'"
proof (induction rule: sess_step.induct)
  case (timer s)
  then show ?case by (auto simp: sess_inv_def timer_fires_def verifyTimeout_def intro: reach_Shutdown)
next
  case (verify s)
  then show ?case
    by (auto simp: sess_inv_def Verify_def stop_timer_def split: go_timer.splits)
next
  case (send s b)
  then have "conn_step\<^sup>*\<^sup>* newTCPConnection (snd (Send [b] (s_conn s)))"
    by (auto simp: sess_inv_def intro: reach_Send)
  moreover have "closed (s_conn s) \<Longrightarrow> closed (snd (Send [b] (s_conn s)))"
    by (simp add: Send_def)
  ultimately show ?case using send by (auto simp: sess_inv_def session_Send_def)
next
  case (limit s n)
  then show ?case by (simp add: sess_inv_def SetReceiveLimitPerSecond_def)
next
  case (shut s)
  then show ?case by (rule sess_inv_Shutdown)
next
  case (recv s t b)
  then have "sess_inv (snd (receiveLimit t s))" by (rule sess_inv_receiveLimit)
  then show ?case
    by (auto simp: proxy_Receive_def split: prod.splits bool.splits dest: sess_inv_Shutdown)
next
  case (conn s c)
  then have "conn_step\<^sup>*\<^sup>* newTCPConnection (s_conn s)" by (simp add: sess_inv_def)
  then have "conn_step\<^sup>*\<^sup>* newTCPConnection c"
    using conn.hyps by (rule rtranclp.rtrancl_into_rtrancl)
  moreover have "closed (s_conn s) \<Longrightarrow> closed c" using conn.hyps by (simp add: closed_stays)
  ultimately show ?case using conn.prems by (auto simp: sess_inv_def)
qed

lemma reachable_sess_inv: "sess_step\<^sup>*\<^sup>* (newSession newTCPConnection) s \<Longrightarrow> sess_inv s"
  by (induction rule: rtranclp_induct) (auto intro: sess_inv_new sess_inv_step)

section \<open>Properties\<close>

text \<open>
  C25: the receive limit bounds what a session hands to its handler. Whatever state the
  counter is in, of the messages that arrive within one second at most \<open>2 * limit + 1\<close> get
  through; and this is sharp: a burst at once into a session whose counter is at zero and
  whose last reset is a second ago passes exactly \<open>2 * limit + 1\<close> messages, more than twice
  the limit per second the setter names.
\<close>

theorem receive_limit_bounds_a_second:
  assumes "0 < limitPerSecond s" and "0 \<le> lastCount s"
    and "\<forall>t \<in> set ts. a \<le> t \<and> t < a + second_ns"
  shows "fst (receive_all ts s) \<le> nat (2 * limitPerSecond s + 1)
    \<and> (lastCount s = 0 \<and> second_ns \<le> t - lastTime s \<longrightarrow>
        fst (receive_all (replicate (nat (2 * limitPerSecond s + 1)) t) s)
          = nat (2 * limitPerSecond s + 1))"
  using receive_all_window [OF assms(1,3)] receive_all_burst [OF assms(1)] assms(1,2) by auto

theorem receive_limit_bounds_a_second_witness:
  "let s = SetReceiveLimitPerSecond 2 (newSession newTCPConnection) :: nat session
   in fst (receive_all [0, 1] s) \<le> 5 \<and> fst (receive_all (replicate 5 0) s) = 5"
  using receive_limit_bounds_a_second [of "SetReceiveLimitPerSecond 2 (newSession newTCPConnection) :: nat session" "[0, 1]" 0 0]
  by (simp add: SetReceiveLimitPerSecond_def newSession_def zero_time_def second_ns_def)

text \<open>
  A session is verified or timed out, never both. In every reachable state a verified
  session has its deadline stopped and cannot be shut down by it any more; a session whose
  deadline has fired, or was stopped by \<open>Shutdown\<close>, is unverified and its connection no longer
  accepts messages; and \<open>Verify\<close> changes nothing once the deadline has fired.
\<close>

lemma verified_xor_timed_out:
  assumes "sess_step\<^sup>*\<^sup>* (newSession newTCPConnection) s"
  shows "(IsVerified s \<longrightarrow> verifyTimer s = TimerStopped \<and> timer_fires s = s)
    \<and> (verifyTimer s = TimerFired \<longrightarrow> \<not> IsVerified s \<and> closed (s_conn s) \<and> Verify s = s)
    \<and> (verifyTimer s \<noteq> TimerRunning \<and> \<not> IsVerified s \<longrightarrow> session_Send b s = s)"
proof -
  have inv: "sess_inv s" using assms by (rule reachable_sess_inv)
  have "IsVerified s \<longrightarrow> verifyTimer s = TimerStopped \<and> timer_fires s = s"
    using inv by (simp add: sess_inv_def IsVerified_def timer_fires_def)
  moreover have "verifyTimer s = TimerFired \<longrightarrow> \<not> IsVerified s \<and> closed (s_conn s) \<and> Verify s = s"
    using inv by (auto simp: sess_inv_def IsVerified_def Verify_def stop_timer_def)
  moreover have "verifyTimer s \<noteq> TimerRunning \<and> \<not> IsVerified s \<longrightarrow> closed (s_conn s)"
    using inv by (cases "verifyTimer s") (simp_all add: sess_inv_def IsVerified_def)
  then have "verifyTimer s \<noteq> TimerRunning \<and> \<not> IsVerified s \<longrightarrow> session_Send b s = s"
    by (simp add: session_Send_def Send_def)
  ultimately show ?thesis by blast
qed

lemma verified_xor_timed_out_witness:
  "\<not> IsVerified (timer_fires (newSession newTCPConnection :: nat session))
   \<and> session_Send [1] (timer_fires (newSession newTCPConnection :: nat session))
     = timer_fires (newSession newTCPConnection)"
  using verified_xor_timed_out [OF r_into_rtranclp [of "sess_step :: nat session \<Rightarrow> _", OF sess_step.timer], of "[1]"]
  by (simp add: timer_fires_def verifyTimeout_def newSession_def IsVerified_def)

end
