(* ===== verification/HashRing.thy ===== *)
theory HashRing
  imports Packet GoStrings "HOL-Library.AList" "HOL-Library.Sublist"
begin

text \<open>
  The consistent-hashing ring of \<open>base/util/hashring.go\<close>, by which the cluster spreads keys over
  its nodes: every node owns virtual keys on a circle of 32-bit hashes, and a string belongs to
  the owner of the first virtual key after its hash.

  \<open>md5_Sum\<close> (Go's \<open>crypto/md5\<close>) is an argument of the definitions: nothing proved here depends
  on which digest it is. A Go map is an association list with distinct keys; the order of the
  list stands for the order in which a \<open>range\<close> loop visits the map, which Go leaves open.
  Weights are Go's 64-bit \<open>int\<close>: the total and the product \<open>40 * len * weight\<close> wrap (\<open>int64\<close>).
  The virtual-node count \<open>int(math.Floor(float64(a) / float64(b)))\<close> is computed as the hardware
  does: both operands are rounded to 53 significant bits, ties to even, and so is their
  quotient (\<open>float_of\<close>, \<open>floor_quot\<close>). Below \<open>2^53\<close> this is the integer quotient
  (\<open>floor_quot_exact\<close>). A total weight of zero makes the quotient an infinity or a NaN, and a
  quotient of \<open>2^63\<close> does not fit an \<open>int\<close>: the conversion gives a negative number on amd64, and
  no virtual node.
\<close>

section \<open>Data and helpers\<close>

type_synonym HashKey = u32

record hashring =
  ring :: "(HashKey \<times> string) list"
  sortedKeys :: "HashKey list"
  nodes :: "string list"
  weights :: "(string \<times> int) list"

definition hashVal :: "byte list \<Rightarrow> HashKey" where
  "hashVal b = push_bit 24 (ucast (b ! 3)) OR push_bit 16 (ucast (b ! 2))
     OR push_bit 8 (ucast (b ! 1)) OR ucast (b ! 0)"

definition hashDigest :: "(byte list \<Rightarrow> byte list) \<Rightarrow> string \<Rightarrow> byte list" where
  "hashDigest md5_Sum key = md5_Sum (bytes_of_string key)"

definition GenKey :: "(byte list \<Rightarrow> byte list) \<Rightarrow> string \<Rightarrow> HashKey" where
  "GenKey md5_Sum key = hashVal (slice (hashDigest md5_Sum key) 0 4)"

text \<open>\<open>sort.Search\<close> of the Go library: binary search for the first index where \<open>f\<close> holds.\<close>

function search_loop :: "(nat \<Rightarrow> bool) \<Rightarrow> nat \<Rightarrow> nat \<Rightarrow> nat" where
  "search_loop f i j =
     (if i < j then let h = (i + j) div 2 in if \<not> f h then search_loop f (h + 1) j else search_loop f i h
      else i)"
  by pat_completeness auto
termination by (relation "measure (\<lambda>(f, i, j). j - i)") auto

declare search_loop.simps [simp del]

definition sort_Search :: "nat \<Rightarrow> (nat \<Rightarrow> bool) \<Rightarrow> nat" where
  "sort_Search n f = search_loop f 0 n"

section \<open>Building the circle\<close>

text \<open>Go's \<open>int\<close> arithmetic wraps at 64 bits.\<close>

definition int64 :: "int \<Rightarrow> int" where
  "int64 x = signed_take_bit 63 x"

text \<open>
  \<open>float64\<close>, for magnitudes: \<open>nearest n d\<close> is the integer nearest to \<open>n / d\<close>, ties to even;
  \<open>float_of n\<close> is \<open>float64(n)\<close>, and \<open>floor_quot n d\<close> is \<open>math.Floor\<close> of the rounded quotient of two
  such numbers. The significand has 53 bits.
\<close>

fun bit_len :: "nat \<Rightarrow> nat" where
  "bit_len n = (if n = 0 then 0 else Suc (bit_len (n div 2)))"

declare bit_len.simps [simp del]

definition nearest :: "nat \<Rightarrow> nat \<Rightarrow> nat" where
  "nearest n d = (let q = n div d; r = n mod d in if 2 * r < d \<or> 2 * r = d \<and> even q then q else q + 1)"

definition float_of :: "nat \<Rightarrow> nat" where
  "float_of n = (let l = bit_len n in if l \<le> 53 then n else nearest n (2 ^ (l - 53)) * 2 ^ (l - 53))"

definition floor_quot :: "nat \<Rightarrow> nat \<Rightarrow> nat" where
  "floor_quot n d =
     (let l = bit_len (n div d)
      in if l \<le> 53 then nearest (n * 2 ^ (53 - l)) d div 2 ^ (53 - l)
         else nearest n (d * 2 ^ (l - 53)) * 2 ^ (l - 53))"

definition totalWeight :: "(string \<times> int) list \<Rightarrow> string list \<Rightarrow> int" where
  "totalWeight ws ns =
     fold (\<lambda>node t. case map_of ws node of Some w \<Rightarrow> int64 (t + w) | None \<Rightarrow> int64 (t + 1)) ns 0"

definition factor :: "(string \<times> int) list \<Rightarrow> string list \<Rightarrow> string \<Rightarrow> nat" where
  "factor ws ns node =
     (let weight = (case map_of ws node of Some w \<Rightarrow> w | None \<Rightarrow> 1);
          product = int64 (int64 (40 * int (length ns)) * weight);
          total = totalWeight ws ns;
          count = floor_quot (float_of (nat \<bar>product\<bar>)) (float_of (nat \<bar>total\<bar>))
      in if product * total \<le> 0 \<or> 2 ^ 63 \<le> count then 0 else count)"

definition virtual_keys :: "(byte list \<Rightarrow> byte list) \<Rightarrow> string \<Rightarrow> nat \<Rightarrow> HashKey list" where
  "virtual_keys md5_Sum node j =
     (let bKey = hashDigest md5_Sum (node @ ''-'' @ show_nat j)
      in map (\<lambda>i. hashVal (slice bKey (i * 4) (i * 4 + 4))) [0..<3])"

definition add_key :: "string \<Rightarrow> HashKey \<Rightarrow> hashring \<Rightarrow> hashring" where
  "add_key node key h = h\<lparr>ring := AList.update key node (ring h), sortedKeys := sortedKeys h @ [key]\<rparr>"

definition add_virtual_nodes :: "(byte list \<Rightarrow> byte list) \<Rightarrow> string \<Rightarrow> hashring \<Rightarrow> hashring" where
  "add_virtual_nodes md5_Sum node h =
     fold (\<lambda>j h. fold (add_key node) (virtual_keys md5_Sum node j) h)
       [0..<factor (weights h) (nodes h) node] h"

definition generateCircle :: "(byte list \<Rightarrow> byte list) \<Rightarrow> hashring \<Rightarrow> hashring" where
  "generateCircle md5_Sum h =
     (let h = fold (add_virtual_nodes md5_Sum) (nodes h) h
      in h\<lparr>sortedKeys := sort (sortedKeys h)\<rparr>)"

definition NewHashring :: "(byte list \<Rightarrow> byte list) \<Rightarrow> string list \<Rightarrow> hashring" where
  "NewHashring md5_Sum ns =
     generateCircle md5_Sum \<lparr>ring = [], sortedKeys = [], nodes = ns, weights = []\<rparr>"

definition NewHashringWithWeights :: "(byte list \<Rightarrow> byte list) \<Rightarrow> (string \<times> int) list \<Rightarrow> hashring" where
  "NewHashringWithWeights md5_Sum ws =
     generateCircle md5_Sum \<lparr>ring = [], sortedKeys = [], nodes = map fst ws, weights = ws\<rparr>"

section \<open>Queries\<close>

definition hr_Size :: "hashring \<Rightarrow> nat" where
  "hr_Size h = length (nodes h)"

definition GetNodePos :: "(byte list \<Rightarrow> byte list) \<Rightarrow> string \<Rightarrow> hashring \<Rightarrow> nat option" where
  "GetNodePos md5_Sum stringKey h =
     (if length (ring h) = 0 then None
      else let key = GenKey md5_Sum stringKey; ks = sortedKeys h;
               pos = sort_Search (length ks) (\<lambda>i. ks ! i > key)
           in if pos = length ks then Some 0 else Some pos)"

text \<open>\<open>h.ring[key]\<close>: the zero value, the empty string, for a key the map does not hold.\<close>

definition ring_at :: "hashring \<Rightarrow> HashKey \<Rightarrow> string" where
  "ring_at h key = (case map_of (ring h) key of Some node \<Rightarrow> node | None \<Rightarrow> [])"

definition GetNode :: "(byte list \<Rightarrow> byte list) \<Rightarrow> string \<Rightarrow> hashring \<Rightarrow> string option" where
  "GetNode md5_Sum stringKey h =
     (case GetNodePos md5_Sum stringKey h of
        None \<Rightarrow> None
      | Some p \<Rightarrow> Some (ring_at h (sortedKeys h ! p)))"

text \<open>
  The loop of \<open>GetNodes\<close>: \<open>returnedValues\<close> holds what \<open>resultSlice\<close> holds. The result is
  \<open>(nodes, ok)\<close>; \<open>make\<close> with a negative capacity panics.
\<close>

fun collect_nodes :: "hashring \<Rightarrow> nat \<Rightarrow> nat list \<Rightarrow> string list \<Rightarrow> string list" where
  "collect_nodes h n [] acc = acc"
| "collect_nodes h n (i # rest) acc =
     (let val = ring_at h (sortedKeys h ! (i mod length (sortedKeys h)));
          acc = (if val \<notin> set acc then acc @ [val] else acc)
      in if length acc = n then acc else collect_nodes h n rest acc)"

definition GetNodes ::
  "(byte list \<Rightarrow> byte list) \<Rightarrow> string \<Rightarrow> int \<Rightarrow> hashring \<Rightarrow> (string list \<times> bool) outcome" where
  "GetNodes md5_Sum stringKey n h =
     (case GetNodePos md5_Sum stringKey h of
        None \<Rightarrow> Ret ([], False)
      | Some p \<Rightarrow>
          if n > int (length (nodes h)) then Ret ([], False)
          else if n < 0 then Panic
          else let result = collect_nodes h (nat n) [p..<p + length (sortedKeys h)] []
               in Ret (result, length result = nat n))"

section \<open>Updates\<close>

definition AddWeightedNode ::
  "(byte list \<Rightarrow> byte list) \<Rightarrow> string \<Rightarrow> int \<Rightarrow> hashring \<Rightarrow> hashring" where
  "AddWeightedNode md5_Sum node weight h =
     (if weight \<le> 0 then h
      else if node \<in> set (nodes h) then h
      else generateCircle md5_Sum
        \<lparr>ring = [], sortedKeys = [], nodes = nodes h @ [node],
         weights = AList.update node weight (weights h)\<rparr>)"

definition AddNode :: "(byte list \<Rightarrow> byte list) \<Rightarrow> string \<Rightarrow> hashring \<Rightarrow> hashring" where
  "AddNode md5_Sum node h = AddWeightedNode md5_Sum node 1 h"

definition UpdateWeightedNode ::
  "(byte list \<Rightarrow> byte list) \<Rightarrow> string \<Rightarrow> int \<Rightarrow> hashring \<Rightarrow> hashring" where
  "UpdateWeightedNode md5_Sum node weight h =
     (if weight \<le> 0 then h
      else if map_of (weights h) node = None \<or> map_of (weights h) node = Some weight then h
      else generateCircle md5_Sum
        \<lparr>ring = [], sortedKeys = [], nodes = nodes h,
         weights = AList.update node weight (weights h)\<rparr>)"

definition RemoveNode :: "(byte list \<Rightarrow> byte list) \<Rightarrow> string \<Rightarrow> hashring \<Rightarrow> hashring" where
  "RemoveNode md5_Sum node h =
     (let ns = filter (\<lambda>eNode. eNode \<noteq> node) (nodes h)
      in if length ns = length (nodes h) then h
         else generateCircle md5_Sum
           \<lparr>ring = [], sortedKeys = [], nodes = ns,
            weights = filter (\<lambda>(eNode, _). eNode \<noteq> node) (weights h)\<rparr>)"

definition UpdateWithWeights ::
  "(byte list \<Rightarrow> byte list) \<Rightarrow> (string \<times> int) list \<Rightarrow> hashring \<Rightarrow> hashring" where
  "UpdateWithWeights md5_Sum ws h =
     (if length ws \<noteq> length (weights h)
        \<or> list_ex (\<lambda>(node, newWeight). map_of (weights h) node \<noteq> Some newWeight) ws
      then NewHashringWithWeights md5_Sum ws
      else h)"

section \<open>The count of virtual nodes\<close>

lemma int64_id: "- (2 ^ 63) \<le> x \<Longrightarrow> x < 2 ^ 63 \<Longrightarrow> int64 x = x"
  by (simp add: int64_def signed_take_bit_int_eq_self)

lemma int64_wrap: "int64 x = (x + 2 ^ 63) mod 2 ^ 64 - 2 ^ 63"
  by (simp add: int64_def signed_take_bit_eq_take_bit_shift take_bit_eq_mod)

lemma bit_len_bounds: "n < 2 ^ bit_len n" "0 < n \<Longrightarrow> 2 ^ (bit_len n - 1) \<le> n"
proof (induction n rule: bit_len.induct)
  case (1 n)
  { case 1
    show ?case using "1.IH"(1) by (cases "n = 0") (simp_all add: bit_len.simps [of n])
  next
    case 2
    show ?case
    proof (cases "n div 2 = 0")
      case True
      then show ?thesis using 2 by (simp add: bit_len.simps [of n] bit_len.simps [of 0])
    next
      case False
      then have "2 ^ (bit_len (n div 2) - 1) \<le> n div 2" "bit_len (n div 2) \<noteq> 0"
        using "1.IH"(2) 2 by (simp_all add: bit_len.simps [of "n div 2"])
      then have "2 * 2 ^ (bit_len (n div 2) - 1) \<le> n" by linarith
      then show ?thesis
        using 2 \<open>bit_len (n div 2) \<noteq> 0\<close> by (simp add: bit_len.simps [of n] flip: power_Suc)
    qed }
qed

lemma bit_len_le: "n < 2 ^ k \<Longrightarrow> bit_len n \<le> k"
proof (rule ccontr)
  assume n: "n < 2 ^ k" and "\<not> bit_len n \<le> k"
  then have "k \<le> bit_len n - 1" "0 < n" by (auto simp: bit_len.simps [of n] split: if_splits)
  then have "(2 :: nat) ^ k \<le> n" using bit_len_bounds(2) [of n] by (meson le_trans one_le_numeral power_increasing)
  then show False using n by simp
qed

lemma float_of_exact: "n < 2 ^ 53 \<Longrightarrow> float_of n = n"
  using bit_len_le [of n 53] by (simp add: float_of_def)

lemma floor_quot_exact:
  assumes "n < 2 ^ 53" and "0 < d" and "d < 2 ^ 53"
  shows "floor_quot n d = n div d"
proof -
  define q l where "q = n div d" and "l = bit_len q"
  define k where "k = 53 - l"
  have "q \<le> n" by (simp add: q_def)
  then have l: "l \<le> 53" unfolding l_def using assms(1) by (intro bit_len_le) simp
  have small: "d < 2 ^ Suc k"
  proof (cases "q = 0")
    case True
    then show ?thesis using assms(3) by (simp add: k_def l_def bit_len.simps [of 0])
  next
    case False
    then have "0 < l" by (simp add: l_def bit_len.simps [of q])
    have "2 ^ (l - 1) * d \<le> q * d" using bit_len_bounds(2) [of q] False by (simp add: l_def)
    also have "\<dots> \<le> n" by (simp add: q_def)
    also have "n < 2 ^ (l - 1) * 2 ^ Suc k"
      using assms(1) l \<open>0 < l\<close> by (simp add: k_def flip: power_add power_Suc)
    finally show ?thesis by simp
  qed
  define r where "r = n mod d"
  have n: "n = q * d + r" "r < d" using assms(2) by (simp_all add: q_def r_def)
  have p: "n * 2 ^ k = q * 2 ^ k * d + r * 2 ^ k" by (simp add: n(1) algebra_simps)
  define s t where "s = (r * 2 ^ k) div d" and "t = (r * 2 ^ k) mod d"
  have st: "r * 2 ^ k = s * d + t" "t < d" using assms(2) by (simp_all add: s_def t_def)
  have dm: "(n * 2 ^ k) div d = q * 2 ^ k + s" "(n * 2 ^ k) mod d = t"
    using assms(2) by (simp_all add: p s_def t_def)
  have m: "nearest (n * 2 ^ k) d = q * 2 ^ k + s \<or> nearest (n * 2 ^ k) d = q * 2 ^ k + s + 1"
    "2 * t < d \<Longrightarrow> nearest (n * 2 ^ k) d = q * 2 ^ k + s"
    by (simp_all add: nearest_def dm Let_def)
  have "(r + 1) * 2 ^ k \<le> d * 2 ^ k" using n(2) by (intro mult_le_mono1) simp
  then have top: "s * d + t + 2 ^ k \<le> 2 ^ k * d" using st(1) by (simp add: algebra_simps)
  have "s < 2 ^ k"
  proof (rule ccontr)
    assume "\<not> s < 2 ^ k"
    then have "2 ^ k * d \<le> s * d" by simp
    moreover have "(0 :: nat) < 2 ^ k" by simp
    ultimately show False using top by linarith
  qed
  moreover have "2 * t < d" if "s + 1 = 2 ^ k"
  proof -
    have "s * d + d = 2 ^ k * d" using that by (metis add_mult_distrib mult_1)
    then have "t + 2 ^ k \<le> d" using top by simp
    then show ?thesis using small by simp
  qed
  ultimately have "nearest (n * 2 ^ k) d < q * 2 ^ k + 2 ^ k"
    using m by (cases "s + 1 = 2 ^ k") linarith+
  moreover have "q * 2 ^ k \<le> nearest (n * 2 ^ k) d" using m(1) by linarith
  ultimately have "nearest (n * 2 ^ k) d div 2 ^ k = q"
    by (intro div_nat_eqI) (simp_all add: mult.commute)
  then show ?thesis using l by (simp add: floor_quot_def flip: q_def l_def k_def)
qed

text \<open>
  Past 64 bits the count is wrong: a node of weight \<open>2^58\<close> alone on its ring has
  no virtual node, because \<open>40 * 2^58\<close> is negative as an \<open>int\<close>.
\<close>

lemma heavy_node_has_no_keys: "factor [(n, 2 ^ 58)] [n] n = 0"
  by (simp add: factor_def totalWeight_def int64_wrap Let_def)

section \<open>The circle as a list of owned keys\<close>

definition circle_pairs ::
  "(byte list \<Rightarrow> byte list) \<Rightarrow> (string \<times> int) list \<Rightarrow> string list \<Rightarrow> string list \<Rightarrow> (HashKey \<times> string) list" where
  "circle_pairs md5 ws ns0 ns =
     concat (map (\<lambda>n. map (\<lambda>k. (k, n)) (concat (map (virtual_keys md5 n) [0..<factor ws ns0 n]))) ns)"

lemma fold_add_key:
  "nodes (fold (add_key n) ks h) = nodes h" "weights (fold (add_key n) ks h) = weights h"
  "sortedKeys (fold (add_key n) ks h) = sortedKeys h @ ks"
  "map_of (ring (fold (add_key n) ks h)) = map_of (ring h) ++ map_of (rev (map (\<lambda>k. (k, n)) ks))"
  "distinct (map fst (ring h)) \<Longrightarrow> distinct (map fst (ring (fold (add_key n) ks h)))"
  by (induction ks arbitrary: h)
    (auto simp: add_key_def update_conv' distinct_update map_add_def split: option.splits)

lemma fold_add_node:
  "fold (\<lambda>j h. fold (add_key n) (vk j) h) js h = fold (add_key n) (concat (map vk js)) h"
  by (induction js arbitrary: h) simp_all

definition owned :: "(byte list \<Rightarrow> byte list) \<Rightarrow> hashring \<Rightarrow> (HashKey \<times> string) list" where
  "owned md5 h = circle_pairs md5 (weights h) (nodes h) (nodes h)"

definition circle :: "(byte list \<Rightarrow> byte list) \<Rightarrow> hashring \<Rightarrow> bool" where
  "circle md5 h \<longleftrightarrow> distinct (map fst (ring h))
     \<and> sortedKeys h = sort (map fst (owned md5 h))
     \<and> map_of (ring h) = map_of (rev (owned md5 h))"

lemma add_virtual_nodes_eq:
  "add_virtual_nodes md5 n h
    = fold (add_key n) (concat (map (virtual_keys md5 n) [0..<factor (weights h) (nodes h) n])) h"
  by (simp only: add_virtual_nodes_def fold_add_node)

lemma fold_circle:
  "nodes (fold (add_virtual_nodes md5) ns h) = nodes h \<and> weights (fold (add_virtual_nodes md5) ns h) = weights h
   \<and> sortedKeys (fold (add_virtual_nodes md5) ns h)
     = sortedKeys h @ map fst (circle_pairs md5 (weights h) (nodes h) ns)
   \<and> map_of (ring (fold (add_virtual_nodes md5) ns h))
     = map_of (ring h) ++ map_of (rev (circle_pairs md5 (weights h) (nodes h) ns))
   \<and> (distinct (map fst (ring h)) \<longrightarrow> distinct (map fst (ring (fold (add_virtual_nodes md5) ns h))))"
proof (induction ns arbitrary: h)
  case (Cons n ns)
  define h' where "h' = add_virtual_nodes md5 n h"
  have f: "nodes h' = nodes h" "weights h' = weights h"
    by (simp_all add: h'_def add_virtual_nodes_eq fold_add_key)
  have "sortedKeys h' = sortedKeys h @ map fst (circle_pairs md5 (weights h) (nodes h) [n])"
    by (simp add: h'_def add_virtual_nodes_eq fold_add_key circle_pairs_def o_def)
  moreover have "map_of (ring h') = map_of (ring h) ++ map_of (rev (circle_pairs md5 (weights h) (nodes h) [n]))"
    by (simp add: h'_def add_virtual_nodes_eq fold_add_key circle_pairs_def)
  moreover have "distinct (map fst (ring h)) \<Longrightarrow> distinct (map fst (ring h'))"
    by (simp add: h'_def add_virtual_nodes_eq fold_add_key)
  moreover have "circle_pairs md5 ws ns0 (n # ns) = circle_pairs md5 ws ns0 [n] @ circle_pairs md5 ws ns0 ns"
    for ws ns0 by (simp add: circle_pairs_def)
  ultimately show ?case
    using Cons.IH [of h'] f by (simp flip: h'_def)
qed (simp add: circle_pairs_def)

lemma generateCircle_fields:
  "nodes (generateCircle md5 h) = nodes h" "weights (generateCircle md5 h) = weights h"
  by (simp_all add: generateCircle_def Let_def fold_circle)

lemma generateCircle_circle:
  assumes "ring h = []" and "sortedKeys h = []"
  shows "circle md5 (generateCircle md5 h)"
  using assms by (simp add: circle_def owned_def generateCircle_fields)
    (simp add: generateCircle_def Let_def fold_circle)

lemma circle_keys:
  assumes "circle md5 h"
  shows "fst ` set (ring h) = fst ` set (owned md5 h)" "set (sortedKeys h) = fst ` set (owned md5 h)"
    "sorted (sortedKeys h)"
proof -
  have "dom (map_of (ring h)) = dom (map_of (rev (owned md5 h)))"
    using assms by (simp add: circle_def)
  then show "fst ` set (ring h) = fst ` set (owned md5 h)"
    by (simp add: dom_map_of_conv_image_fst)
qed (use assms in \<open>simp_all add: circle_def\<close>)

lemma circle_empty: "circle md5 h \<Longrightarrow> ring h = [] \<longleftrightarrow> owned md5 h = []"
  using circle_keys(1) [of md5 h] by auto

section \<open>Search\<close>

lemma search_loop_correct:
  assumes mono: "\<And>a b. a \<le> b \<Longrightarrow> b < n \<Longrightarrow> f a \<Longrightarrow> f b"
  shows "i \<le> j \<Longrightarrow> j \<le> n \<Longrightarrow> \<forall>k < i. \<not> f k \<Longrightarrow> \<forall>k. j \<le> k \<and> k < n \<longrightarrow> f k \<Longrightarrow>
    search_loop f i j \<le> n \<and> (\<forall>k < search_loop f i j. \<not> f k)
    \<and> (\<forall>k. search_loop f i j \<le> k \<and> k < n \<longrightarrow> f k)"
proof (induction "j - i" arbitrary: i j rule: less_induct)
  case less
  define h where "h = (i + j) div 2"
  show ?case
  proof (cases "i < j")
    case False
    then have "search_loop f i j = i" by (subst search_loop.simps) simp
    moreover have "i = j" using False less.prems(1) by simp
    ultimately show ?thesis using less.prems by metis
  next
    case lt: True
    then have h: "i \<le> h" "h < j" by (simp_all add: h_def)
    show ?thesis
    proof (cases "f h")
      case True
      have eq: "search_loop f i j = search_loop f i h"
        using lt True by (simp add: search_loop.simps [of f i j] h_def [symmetric] Let_def)
      have "\<forall>k. h \<le> k \<and> k < n \<longrightarrow> f k" using True mono by blast
      then show ?thesis
        unfolding eq by (intro less.hyps) (use h less.prems in simp_all)
    next
      case False
      have eq: "search_loop f i j = search_loop f (h + 1) j"
        using lt False by (simp add: search_loop.simps [of f i j] h_def [symmetric] Let_def)
      have "h < n" using h less.prems(2) by simp
      then have "\<forall>k < h + 1. \<not> f k" using False mono by (metis less_Suc_eq_le Suc_eq_plus1)
      then show ?thesis
        unfolding eq by (intro less.hyps) (use h less.prems in simp_all)
    qed
  qed
qed

lemma sort_Search_correct:
  assumes "\<And>a b. a \<le> b \<Longrightarrow> b < n \<Longrightarrow> f a \<Longrightarrow> f b"
  shows "sort_Search n f \<le> n \<and> (\<forall>k < sort_Search n f. \<not> f k)
    \<and> (\<forall>k. sort_Search n f \<le> k \<and> k < n \<longrightarrow> f k)"
  unfolding sort_Search_def using assms by (rule search_loop_correct) (simp_all, linarith?)

text \<open>The first key after \<open>x\<close> on the circle, wrapping around past the greatest.\<close>

definition clockwise :: "HashKey \<Rightarrow> HashKey set \<Rightarrow> HashKey" where
  "clockwise x K = (if \<exists>k \<in> K. x < k then Min {k \<in> K. x < k} else Min K)"

lemma clockwise_in: "finite K \<Longrightarrow> K \<noteq> {} \<Longrightarrow> clockwise x K \<in> K"
  using Min_in [of "{k \<in> K. x < k}"] by (auto simp: clockwise_def)

lemma clockwise_subset:
  assumes "finite K" and "K' \<subseteq> K" and "clockwise x K \<in> K'"
  shows "clockwise x K' = clockwise x K"
proof (cases "\<exists>k \<in> K. x < k")
  case True
  let ?m = "Min {k \<in> K. x < k}"
  have c: "clockwise x K = ?m" using True by (simp add: clockwise_def)
  have "?m \<in> {k \<in> K. x < k}" using True assms(1) by (intro Min_in) auto
  then have m: "?m \<in> {k \<in> K'. x < k}" using assms(3) c by simp
  then have "Min {k \<in> K'. x < k} = ?m"
    using assms(1,2) by (intro Min_eqI) (auto intro: finite_subset intro!: Min_le)
  then show ?thesis using m c by (auto simp: clockwise_def)
next
  case False
  then have c: "clockwise x K = Min K" by (simp add: clockwise_def)
  moreover have "clockwise x K' = Min K'" using False assms(2) by (auto simp: clockwise_def)
  moreover have "Min K' = Min K"
    using assms c by (intro Min_eqI) (auto intro: finite_subset)
  ultimately show ?thesis by simp
qed

lemma sorted_clockwise:
  fixes ks :: "HashKey list" and x :: HashKey
  assumes "sorted ks" and "ks \<noteq> []"
  defines "p \<equiv> sort_Search (length ks) (\<lambda>i. ks ! i > x)"
  shows "ks ! (if p = length ks then 0 else p) = clockwise x (set ks)" and "p \<le> length ks"
proof -
  have mono: "x < ks ! b" if "a \<le> b" "b < length ks" "x < ks ! a" for a b
    using that assms(1) by (meson order_less_le_trans sorted_nth_mono)
  have s: "p \<le> length ks \<and> (\<forall>k < p. \<not> x < ks ! k) \<and> (\<forall>k. p \<le> k \<and> k < length ks \<longrightarrow> x < ks ! k)"
    unfolding p_def by (rule sort_Search_correct) (rule mono)
  then show le: "p \<le> length ks" by blast
  have below: "k < p \<Longrightarrow> \<not> x < ks ! k" for k using s by blast
  show "ks ! (if p = length ks then 0 else p) = clockwise x (set ks)"
  proof (cases "p = length ks")
    case True
    then have "\<not> (\<exists>k \<in> set ks. x < k)" using below by (auto simp: in_set_conv_nth)
    moreover have "ks ! 0 = Min (set ks)"
      using assms(1,2) by (intro Min_eqI [symmetric]) (auto simp: in_set_conv_nth intro!: sorted_nth_mono)
    ultimately show ?thesis using True by (simp add: clockwise_def)
  next
    case False
    then have p: "p < length ks" using le by simp
    then have gt: "x < ks ! p" using s by blast
    have "Min {k \<in> set ks. x < k} = ks ! p"
    proof (rule Min_eqI)
      fix k assume "k \<in> {k \<in> set ks. x < k}"
      then obtain i where "k = ks ! i" "i < length ks" "x < ks ! i" by (auto simp: in_set_conv_nth)
      then show "ks ! p \<le> k" using below [of i] assms(1)
        by (metis leI sorted_nth_mono)
    qed (use gt p in auto)
    then show ?thesis using gt p False by (auto simp: clockwise_def)
  qed
qed

section \<open>Every ring the operations build\<close>

inductive built :: "(byte list \<Rightarrow> byte list) \<Rightarrow> hashring \<Rightarrow> bool" for md5 where
  "built md5 (NewHashring md5 ns)"
| "distinct (map fst ws) \<Longrightarrow> built md5 (NewHashringWithWeights md5 ws)"
| "built md5 h \<Longrightarrow> built md5 (AddNode md5 n h)"
| "built md5 h \<Longrightarrow> built md5 (AddWeightedNode md5 n w h)"
| "built md5 h \<Longrightarrow> built md5 (UpdateWeightedNode md5 n w h)"
| "built md5 h \<Longrightarrow> built md5 (RemoveNode md5 n h)"
| "built md5 h \<Longrightarrow> distinct (map fst ws) \<Longrightarrow> built md5 (UpdateWithWeights md5 ws h)"

lemmas ring_ops =
  NewHashring_def NewHashringWithWeights_def AddNode_def AddWeightedNode_def
  UpdateWeightedNode_def RemoveNode_def UpdateWithWeights_def

lemma built_circle: "built md5 h \<Longrightarrow> circle md5 h"
  by (induction rule: built.induct) (simp_all add: ring_ops Let_def generateCircle_circle)

definition owner :: "(byte list \<Rightarrow> byte list) \<Rightarrow> (HashKey \<times> string) list \<Rightarrow> string \<Rightarrow> string option" where
  "owner md5 ps s = map_of (rev ps) (clockwise (GenKey md5 s) (fst ` set ps))"

lemma owner_Some: "ps \<noteq> [] \<Longrightarrow> \<exists>n. owner md5 ps s = Some n \<and> n \<in> snd ` set ps"
proof -
  assume "ps \<noteq> []"
  then have "clockwise (GenKey md5 s) (fst ` set ps) \<in> fst ` set (rev ps)"
    by (simp add: clockwise_in)
  then obtain n where n: "owner md5 ps s = Some n"
    by (metis owner_def domD dom_map_of_conv_image_fst)
  then have "n \<in> snd ` set (rev ps)" unfolding owner_def by (metis map_of_SomeD snd_conv image_eqI)
  then show ?thesis using n by simp
qed

lemma GetNodePos_circle:
  assumes "circle md5 h" and "owned md5 h \<noteq> []"
  shows "\<exists>p < length (sortedKeys h). GetNodePos md5 s h = Some p
    \<and> sortedKeys h ! p = clockwise (GenKey md5 s) (fst ` set (owned md5 h))"
proof -
  have ne: "sortedKeys h \<noteq> []" "ring h \<noteq> []"
    using assms circle_keys(2) [of md5 h] circle_empty [of md5 h] by auto
  show ?thesis
    using sorted_clockwise [OF circle_keys(3) [OF assms(1)] ne(1), of "GenKey md5 s"] ne
      circle_keys(2) [OF assms(1)]
    by (auto simp: GetNodePos_def Let_def)
qed

lemma GetNode_owner:
  assumes "circle md5 h"
  shows "GetNode md5 s h = (if owned md5 h = [] then None else owner md5 (owned md5 h) s)"
proof (cases "owned md5 h = []")
  case True
  then show ?thesis using circle_empty [OF assms] by (simp add: GetNode_def GetNodePos_def)
next
  case False
  obtain n where "owner md5 (owned md5 h) s = Some n" using owner_Some [OF False] by blast
  then show ?thesis
    using GetNodePos_circle [OF assms False, of s] False assms
    by (auto simp: GetNode_def ring_at_def owner_def circle_def)
qed

lemma owned_member: "snd ` set (owned md5 h) \<subseteq> set (nodes h)"
  by (auto simp: owned_def circle_pairs_def)

section \<open>Removing and adding nodes\<close>

lemma map_of_filter_snd:
  "map_of ps k = Some m \<Longrightarrow> m \<noteq> n \<Longrightarrow> map_of (filter (\<lambda>p. snd p \<noteq> n) ps) k = Some m"
  by (induction ps) (auto split: if_splits)

lemma owner_filter:
  assumes "owner md5 ps s = Some m" and "m \<noteq> n"
  shows "owner md5 (filter (\<lambda>p. snd p \<noteq> n) ps) s = Some m"
proof -
  let ?ps = "filter (\<lambda>p. snd p \<noteq> n) ps" and ?k = "clockwise (GenKey md5 s) (fst ` set ps)"
  have k: "map_of (rev ?ps) ?k = Some m"
    using map_of_filter_snd [of "rev ps" ?k m n] assms by (simp add: owner_def rev_filter)
  then have "?k \<in> fst ` set ?ps" by (metis map_of_SomeD fst_conv image_eqI set_rev)
  then have "clockwise (GenKey md5 s) (fst ` set ?ps) = ?k"
    by (intro clockwise_subset) auto
  then show ?thesis using k by (simp add: owner_def)
qed

text \<open>All nodes weigh the same \<open>w\<close>; a node without an explicit weight weighs 1.\<close>

definition uniform :: "int \<Rightarrow> hashring \<Rightarrow> bool" where
  "uniform w h \<longleftrightarrow> 0 < w \<and>
     (\<forall>n \<in> set (nodes h). (case map_of (weights h) n of Some x \<Rightarrow> x | None \<Rightarrow> 1) = w)"

lemma totalWeight_uniform:
  assumes "\<forall>n \<in> set ns. (case map_of ws n of Some x \<Rightarrow> x | None \<Rightarrow> 1) = w"
    and "0 < w" and "int (length ns) * w < 2 ^ 63"
  shows "totalWeight ws ns = int (length ns) * w"
proof -
  have "fold (\<lambda>node t. case map_of ws node of Some w \<Rightarrow> int64 (t + w) | None \<Rightarrow> int64 (t + 1)) ns t0
      = t0 + int (length ns) * w" if "0 \<le> t0" "t0 + int (length ns) * w < 2 ^ 63" for t0
    using assms(1) that
  proof (induction ns arbitrary: t0)
    case (Cons n ns)
    have le: "0 \<le> int (length ns) * w" using assms(2) by simp
    have "t0 + w < 2 ^ 63" using Cons.prems(3) le by (simp add: distrib_right)
    then have "int64 (t0 + w) = t0 + w" using Cons.prems(2) assms(2) by (intro int64_id) simp_all
    moreover have "(case map_of ws n of Some x \<Rightarrow> int64 (t0 + x) | None \<Rightarrow> int64 (t0 + 1)) = int64 (t0 + w)"
      using Cons.prems(1) by (cases "map_of ws n") simp_all
    ultimately show ?case
      using Cons.IH [of "t0 + w"] Cons.prems assms(2) by (simp add: distrib_right)
  qed simp
  then show ?thesis using assms(3) by (simp add: totalWeight_def)
qed

text \<open>The ring is small enough for its weights to be exact as \<open>float64\<close>.\<close>

definition light :: "int \<Rightarrow> nat \<Rightarrow> bool" where
  "light w n \<longleftrightarrow> 40 * int n * w < 2 ^ 53"

lemma light_mono: "0 < w \<Longrightarrow> m \<le> n \<Longrightarrow> light w n \<Longrightarrow> light w m"
  unfolding light_def by (rule le_less_trans [of _ "40 * int n * w"]) (simp_all add: mult_right_mono)

lemma factor_uniform:
  assumes "uniform w h" and "light w (length (nodes h))" and "n \<in> set (nodes h)"
  shows "factor (weights h) (nodes h) n = 40"
proof -
  define t where "t = int (length (nodes h)) * w"
  have len: "0 < length (nodes h)" using assms(3) by (cases "nodes h") auto
  have w: "(case map_of (weights h) n of Some x \<Rightarrow> x | None \<Rightarrow> 1) = w" "0 < w"
    using assms by (auto simp: uniform_def)
  then have t: "0 < t" "40 * t < 2 ^ 53" using len assms(2) by (simp_all add: t_def light_def mult.assoc)
  have "int (length (nodes h)) * 1 \<le> t" unfolding t_def using w(2) by (intro mult_left_mono) simp_all
  then have "int64 (40 * int (length (nodes h))) = 40 * int (length (nodes h))" "int64 (40 * t) = 40 * t"
    using t by (intro int64_id; simp)+
  moreover have "40 * int (length (nodes h)) * w = 40 * t" by (simp add: t_def)
  ultimately have p: "int64 (int64 (40 * int (length (nodes h))) * w) = 40 * t" by (simp only:)
  have s: "totalWeight (weights h) (nodes h) = t"
    unfolding t_def
  proof (rule totalWeight_uniform)
    show "int (length (nodes h)) * w < 2 ^ 63" using t by (simp flip: t_def)
  qed (use assms(1) in \<open>simp_all add: uniform_def\<close>)
  have "nat \<bar>40 * t\<bar> = 40 * nat t" "nat t < 2 ^ 53" "40 * nat t < 2 ^ 53" "0 < nat t" using t by simp_all
  then have "floor_quot (float_of (nat \<bar>40 * t\<bar>)) (float_of (nat \<bar>t\<bar>)) = 40"
    using t(1) by (simp add: float_of_exact floor_quot_exact)
  moreover have "\<not> 40 * t * t \<le> 0" using mult_pos_pos [OF t(1) t(1)] by simp
  ultimately show ?thesis using w(1) by (simp add: factor_def Let_def p s)
qed

lemma owned_uniform:
  assumes "uniform w h" and "light w (length (nodes h))"
  shows "owned md5 h = concat (map (\<lambda>n. map (\<lambda>k. (k, n)) (concat (map (virtual_keys md5 n) [0..<40]))) (nodes h))"
  unfolding owned_def circle_pairs_def
  by (rule arg_cong [where f = concat], rule map_cong) (simp_all add: factor_uniform [OF assms])

lemma filter_owned_uniform:
  assumes "uniform w h" and "uniform w h'" and "nodes h' = filter (\<lambda>m. m \<noteq> n) (nodes h)"
    and "light w (length (nodes h))"
  shows "owned md5 h' = filter (\<lambda>p. snd p \<noteq> n) (owned md5 h)"
proof -
  have "filter (\<lambda>p. snd p \<noteq> n) (map (\<lambda>k. (k, m)) ks) = (if m = n then [] else map (\<lambda>k. (k, m)) ks)"
    for m and ks :: "HashKey list" by (induction ks) auto
  then have "concat (map (\<lambda>n. map (\<lambda>k. (k, n)) (concat (map (virtual_keys md5 n) [0..<40]))) (filter (\<lambda>m. m \<noteq> n) ns))
    = filter (\<lambda>p. snd p \<noteq> n) (concat (map (\<lambda>n. map (\<lambda>k. (k, n)) (concat (map (virtual_keys md5 n) [0..<40]))) ns))"
    for ns :: "string list"
    by (induction ns) simp_all
  moreover have "light w (length (nodes h'))"
    by (rule light_mono [OF _ _ assms(4)]) (use assms(1,3) in \<open>simp_all add: uniform_def\<close>)
  ultimately show ?thesis using assms by (simp only: owned_uniform)
qed

lemma GetNode_shrink:
  assumes "circle md5 h" "circle md5 h'" "uniform w h" "uniform w h'"
    and "nodes h' = filter (\<lambda>m. m \<noteq> n) (nodes h)" and "light w (length (nodes h))"
    and "GetNode md5 s h = Some m" and "m \<noteq> n"
  shows "GetNode md5 s h' = Some m"
proof -
  have "owner md5 (owned md5 h') s = Some m"
    using assms filter_owned_uniform [OF assms(3-6), of md5]
    by (simp add: GetNode_owner owner_filter split: if_splits)
  then show ?thesis
    using assms(2) by (auto simp: GetNode_owner owner_def)
qed

lemma RemoveNode_fields:
  "nodes (RemoveNode md5 n h) = filter (\<lambda>m. m \<noteq> n) (nodes h)"
  "uniform w h \<Longrightarrow> uniform w (RemoveNode md5 n h)"
proof -
  show f: "nodes (RemoveNode md5 n h) = filter (\<lambda>m. m \<noteq> n) (nodes h)"
    by (auto simp: RemoveNode_def Let_def generateCircle_fields)
      (metis filter_id_conv length_filter_less less_irrefl)
  have "m \<noteq> n \<Longrightarrow> map_of (filter (\<lambda>(e, _). e \<noteq> n) ws) m = map_of ws m" for m and ws :: "(string \<times> int) list"
    by (induction ws) auto
  then have "m \<noteq> n \<Longrightarrow> map_of (weights (RemoveNode md5 n h)) m = map_of (weights h) m" for m
    by (simp add: RemoveNode_def Let_def generateCircle_fields)
  then show "uniform w h \<Longrightarrow> uniform w (RemoveNode md5 n h)"
    by (simp add: uniform_def f)
qed

lemma AddWeightedNode_fields:
  assumes "n \<notin> set (nodes h)" "0 < w"
  shows "nodes (AddWeightedNode md5 n w h) = nodes h @ [n]"
    "uniform w h \<Longrightarrow> uniform w (AddWeightedNode md5 n w h)"
  using assms by (auto simp: AddWeightedNode_def uniform_def generateCircle_fields update_conv')

section \<open>Several nodes for a key\<close>

lemma collect_nodes_spec:
  fixes h :: hashring
  defines "val \<equiv> (\<lambda>i. ring_at h (sortedKeys h ! (i mod length (sortedKeys h))))"
  assumes "distinct acc" and "length acc < n"
  shows "distinct (collect_nodes h n js acc) \<and> prefix acc (collect_nodes h n js acc)
    \<and> length (collect_nodes h n js acc) \<le> n
    \<and> set (collect_nodes h n js acc) \<subseteq> set acc \<union> val ` set js
    \<and> (length (collect_nodes h n js acc) < n \<longrightarrow>
        set (collect_nodes h n js acc) = set acc \<union> val ` set js)"
  using assms(2,3)
proof (induction js arbitrary: acc)
  case (Cons j js)
  let ?acc = "if val j \<notin> set acc then acc @ [val j] else acc"
  have c: "collect_nodes h n (j # js) acc = (if length ?acc = n then ?acc else collect_nodes h n js ?acc)"
    by (simp add: val_def Let_def)
  have a: "distinct ?acc" "prefix acc ?acc" "set ?acc = insert (val j) (set acc)" "length ?acc \<le> n"
    using Cons.prems by auto
  show ?case
  proof (cases "length ?acc = n")
    case True
    then have "collect_nodes h n (j # js) acc = ?acc" using c by simp
    then show ?thesis using a True by (simp only:) auto
  next
    case False
    then have "length ?acc < n" using a(4) by simp
    note IH = Cons.IH [OF a(1) this]
    have "prefix acc (collect_nodes h n js ?acc)"
      using IH a(2) prefix_order.order_trans by blast
    then show ?thesis unfolding c using IH a(3) False by simp
  qed
qed simp

lemma collect_nodes_head:
  assumes "0 < n" and "js \<noteq> []"
  shows "\<exists>rest. collect_nodes h n js [] =
    ring_at h (sortedKeys h ! (hd js mod length (sortedKeys h))) # rest"
proof -
  obtain j js' where js: "js = j # js'" using assms(2) by (cases js) auto
  let ?v = "ring_at h (sortedKeys h ! (j mod length (sortedKeys h)))"
  have "prefix [?v] (collect_nodes h n js' [?v])" if "1 < n"
    using collect_nodes_spec [of "[?v]" n h js'] that by simp
  then show ?thesis using assms(1) by (auto simp: js prefix_def Let_def)
qed

lemma visit_all: "(\<lambda>i. f (i mod n)) ` {p..<p + n} = f ` {0..<n}" if "0 < n" for n p :: nat
proof -
  have "(\<lambda>i. i mod n) ` {p..<p + n} = {0..<n}"
  proof
    show "{0..<n} \<subseteq> (\<lambda>i. i mod n) ` {p..<p + n}"
    proof
      fix k assume k: "k \<in> {0..<n}"
      let ?i = "p + (k + (n - p mod n)) mod n"
      have "(p + (k + (n - p mod n))) mod n = (p mod n + (n - p mod n) + k) mod n"
        by (metis add.assoc add.commute mod_add_left_eq)
      also have "p mod n + (n - p mod n) = n" using that by (simp add: less_imp_le)
      finally have "?i mod n = k" using k by (simp add: mod_simps)
      moreover have "?i \<in> {p..<p + n}" using that by simp
      ultimately show "k \<in> (\<lambda>i. i mod n) ` {p..<p + n}" by (metis image_eqI)
    qed
  qed (use that in auto)
  then show ?thesis by (simp add: image_image [of f "\<lambda>i. i mod n", symmetric])
qed

lemma ring_values:
  assumes "circle md5 h"
  shows "(\<lambda>i. ring_at h (sortedKeys h ! i)) ` {0..<length (sortedKeys h)} = snd ` set (ring h)"
proof -
  have d: "distinct (map fst (ring h))" using assms by (simp add: circle_def)
  have "(\<lambda>i. ring_at h (sortedKeys h ! i)) ` {0..<length (sortedKeys h)}
      = ring_at h ` (!) (sortedKeys h) ` {0..<length (sortedKeys h)}"
    by (simp add: image_image)
  also have "(!) (sortedKeys h) ` {0..<length (sortedKeys h)} = set (sortedKeys h)"
    by (auto simp: set_conv_nth)
  also have "set (sortedKeys h) = fst ` set (ring h)" by (simp only: circle_keys [OF assms])
  also have "ring_at h ` fst ` set (ring h) = snd ` set (ring h)"
    using d by (force simp: ring_at_def image_image)
  finally show ?thesis .
qed

lemma GetNodes_spec:
  assumes "circle md5 h" and "owned md5 h \<noteq> []" and "1 \<le> n" and "n \<le> length (nodes h)"
  shows "\<exists>ns. GetNodes md5 s (int n) h = Ret (ns, length ns = n) \<and> distinct ns
    \<and> GetNode md5 s h = Some (hd ns) \<and> length ns \<le> n \<and> set ns \<subseteq> snd ` set (ring h)
    \<and> (length ns < n \<longrightarrow> set ns = snd ` set (ring h))"
proof -
  obtain p where p: "p < length (sortedKeys h)" "GetNodePos md5 s h = Some p"
    using GetNodePos_circle [OF assms(1,2), of s] by blast
  let ?len = "length (sortedKeys h)" and ?ns = "collect_nodes h n [p..<p + length (sortedKeys h)] []"
  have "0 < ?len" using p(1) by linarith
  then have vals: "(\<lambda>i. ring_at h (sortedKeys h ! (i mod ?len))) ` {p..<p + ?len} = snd ` set (ring h)"
    using visit_all [of ?len "\<lambda>i. ring_at h (sortedKeys h ! i)" p] ring_values [OF assms(1)] by (simp only:)
  have "distinct ?ns \<and> length ?ns \<le> n \<and> set ?ns \<subseteq> snd ` set (ring h)
      \<and> (length ?ns < n \<longrightarrow> set ?ns = snd ` set (ring h))"
    using collect_nodes_spec [of "[]" n h "[p..<p + ?len]"] assms(3) vals by simp
  moreover have "GetNode md5 s h = Some (hd ?ns)"
  proof -
    have "[p..<p + ?len] \<noteq> []" and "hd [p..<p + ?len] mod ?len = p" using p(1) by (auto simp: upt_rec)
    then obtain rest where "?ns = ring_at h (sortedKeys h ! p) # rest"
      using collect_nodes_head [of n "[p..<p + ?len]" h] assms(3) by auto
    then show ?thesis by (simp add: GetNode_def p(2))
  qed
  moreover have "GetNodes md5 s (int n) h = Ret (?ns, length ?ns = n)"
    using p assms(4) by (simp add: GetNodes_def Let_def)
  ultimately show ?thesis by blast
qed

lemma card_owners:
  assumes "distinct ns" and "set ns \<subseteq> S" and "length ns < n \<longrightarrow> set ns = S" and "finite S"
    and "length ns \<le> n"
  shows "length ns = n \<longleftrightarrow> n \<le> card S"
  using assms card_mono [of S "set ns"] by (auto simp: distinct_card)

lemma distinct_filter_fst: "distinct (map fst xs) \<Longrightarrow> distinct (map fst (filter P xs))"
  by (induction xs) auto

lemma built_weights_distinct: "built md5 h \<Longrightarrow> distinct (map fst (weights h))"
  by (induction rule: built.induct)
    (simp_all add: ring_ops Let_def generateCircle_fields distinct_update distinct_filter_fst)

lemma same_map:
  assumes "distinct (map fst xs)" and "distinct (map fst ys)" and "length xs = length ys"
    and "\<forall>(n, w) \<in> set xs. map_of ys n = Some w"
  shows "map_of xs = map_of ys"
proof -
  have sub: "set xs \<subseteq> set ys" using assms(4) by (auto dest: map_of_SomeD)
  have "card (set xs) = card (set ys)"
    using assms(1-3) by (simp add: distinct_card distinct_map)
  then have "set xs = set ys" using sub by (simp add: card_subset_eq)
  then show ?thesis using assms(1,2) by (simp add: map_of_inject_set)
qed

section \<open>A ring to look at\<close>

text \<open>With a digest that sends everything to zero the last node owns the only key.\<close>

definition zero_digest :: "byte list \<Rightarrow> byte list" where
  "zero_digest b = replicate 16 0"

abbreviation demo_ring :: hashring where
  "demo_ring \<equiv> NewHashring zero_digest [''a'', ''b'']"

lemma demo_ring_basic:
  "built zero_digest demo_ring" "nodes demo_ring = [''a'', ''b'']" "uniform 1 demo_ring"
  by (rule built.intros) (simp_all add: NewHashring_def generateCircle_fields uniform_def)

lemma demo_ring_owned:
  "owned zero_digest demo_ring = map (\<lambda>k. (k, ''a'')) (replicate 120 0) @ map (\<lambda>k. (k, ''b'')) (replicate 120 0)"
  by (simp add: owned_uniform [OF demo_ring_basic(3)] light_def demo_ring_basic(2) virtual_keys_def hashVal_def
      hashDigest_def zero_digest_def Let_def slice_def upt_rec numeral_eq_Suc)

lemma demo_ring_node: "GetNode zero_digest s demo_ring = Some ''b''"
proof -
  have "fst ` set (owned zero_digest demo_ring) = {0}" by (simp add: demo_ring_owned)
  moreover have "map_of (rev (owned zero_digest demo_ring)) 0 = Some ''b''"
    by (simp add: demo_ring_owned numeral_eq_Suc)
  ultimately show ?thesis
    using GetNode_owner [OF built_circle [OF demo_ring_basic(1)], of s]
    by (simp add: owner_def clockwise_def demo_ring_owned)
qed

section \<open>Properties\<close>

text \<open>
  C3: on every ring the operations build, and for every digest, \<open>GetNode\<close> finds no node
  exactly when the ring is empty; otherwise it returns the member that owns the first virtual
  key clockwise after the hash of the string, wrapping around past the greatest. The binary
  search over the sorted keys computes this least key.
\<close>

theorem GetNode_is_the_clockwise_owner:
  assumes "built md5 h"
  shows "case GetNode md5 s h of
      None \<Rightarrow> ring h = []
    | Some n \<Rightarrow> n \<in> set (nodes h)
        \<and> map_of (ring h) (clockwise (GenKey md5 s) (fst ` set (ring h))) = Some n"
proof -
  have c: "circle md5 h" using assms by (rule built_circle)
  show ?thesis
  proof (cases "owned md5 h = []")
    case True
    then show ?thesis using c by (simp add: GetNode_owner circle_empty)
  next
    case False
    then obtain n where n: "owner md5 (owned md5 h) s = Some n" "n \<in> snd ` set (owned md5 h)"
      using owner_Some by blast
    moreover have "map_of (ring h) (clockwise (GenKey md5 s) (fst ` set (ring h))) = Some n"
      using n(1) c unfolding owner_def circle_keys(1) [OF c] by (simp add: circle_def)
    ultimately show ?thesis using False c owned_member [of md5 h] by (auto simp: GetNode_owner)
  qed
qed

theorem GetNode_is_the_clockwise_owner_witness:
  "map_of (ring demo_ring) (clockwise (GenKey zero_digest ''k'') (fst ` set (ring demo_ring))) = Some ''b''"
  using GetNode_is_the_clockwise_owner [OF demo_ring_basic(1), of "''k''"] by (simp add: demo_ring_node)

text \<open>
  C17: consistent hashing, removal. On a ring whose nodes weigh the same, and whose 40 shares of
  the whole weight stay below \<open>2^53\<close>, removing a node moves only the strings that belonged to
  it: every other string keeps its node. No assumption on the digest is needed, hash
  collisions included.
\<close>

theorem RemoveNode_moves_only_its_strings:
  assumes "built md5 h" and "uniform w h" and "light w (length (nodes h))"
    and "GetNode md5 s h = Some m" and "m \<noteq> n"
  shows "GetNode md5 s (RemoveNode md5 n h) = Some m"
proof -
  have c: "circle md5 h" "circle md5 (RemoveNode md5 n h)"
    using assms(1) by (auto intro: built_circle built.intros)
  show ?thesis
    by (rule GetNode_shrink [OF c assms(2) _ _ assms(3-5)]) (simp_all add: RemoveNode_fields assms(2))
qed

theorem RemoveNode_moves_only_its_strings_witness:
  "GetNode zero_digest ''k'' (RemoveNode zero_digest ''a'' demo_ring) = Some ''b''"
  by (rule RemoveNode_moves_only_its_strings [OF demo_ring_basic(1,3) _ demo_ring_node])
    (simp_all add: light_def demo_ring_basic(2))

text \<open>
  C18: consistent hashing, growth. On a ring whose nodes weigh the same, adding a node of that
  weight moves strings to the new node only, as long as 40 shares of the grown ring's whole
  weight stay below \<open>2^53\<close>.
\<close>

theorem AddWeightedNode_moves_only_to_it:
  assumes "built md5 h" and "uniform w h" and "light w (length (nodes h) + 1)" and "n \<notin> set (nodes h)"
  shows "GetNode md5 s (AddWeightedNode md5 n w h) \<in> {GetNode md5 s h, Some n}"
proof -
  let ?h = "AddWeightedNode md5 n w h"
  have w: "0 < w" using assms(2) by (simp add: uniform_def)
  have c: "circle md5 ?h" "circle md5 h" using assms(1) by (auto intro: built_circle built.intros)
  have u: "uniform w ?h" and ns: "nodes ?h = nodes h @ [n]"
    using AddWeightedNode_fields [OF assms(4) w] assms(2) by simp_all
  then have light: "light w (length (nodes ?h))" using assms(3) by simp
  have "filter (\<lambda>m. m \<noteq> n) (nodes h) = nodes h"
    using assms(4) by (intro filter_True) auto
  then have shrunk: "nodes h = filter (\<lambda>m. m \<noteq> n) (nodes ?h)" by (simp add: ns)
  show ?thesis
  proof (cases "GetNode md5 s ?h")
    case None
    then have "owned md5 ?h = []"
      using c(1) owner_Some [of "owned md5 ?h" md5 s] by (auto simp: GetNode_owner split: if_splits)
    then have "owned md5 h = []"
      using filter_owned_uniform [OF u assms(2) shrunk light, of md5] by simp
    then show ?thesis using None c(2) by (simp add: GetNode_owner)
  next
    case (Some m)
    then show ?thesis
      using GetNode_shrink [OF c u assms(2) shrunk light Some] by (cases "m = n") simp_all
  qed
qed

theorem AddWeightedNode_moves_only_to_it_witness:
  "GetNode zero_digest ''k'' (AddWeightedNode zero_digest ''c'' 1 demo_ring) \<in> {Some ''b'', Some ''c''}"
  using AddWeightedNode_moves_only_to_it [OF demo_ring_basic(1,3), of "''c''" "''k''"]
  by (simp add: demo_ring_basic(2) demo_ring_node light_def)

text \<open>
  C26: \<open>GetNodes\<close> asked for \<open>n\<close> replicas returns distinct owners beginning with the node of
  \<open>GetNode\<close>, at most \<open>n\<close>, and reports success exactly when the ring has \<open>n\<close> owners; a
  failure still returns all of them.
\<close>

theorem GetNodes_distinct_owners:
  assumes "built md5 h" and "ring h \<noteq> []" and "1 \<le> n" and "n \<le> length (nodes h)"
  shows "\<exists>ns. GetNodes md5 s (int n) h = Ret (ns, n \<le> card (snd ` set (ring h)))
    \<and> distinct ns \<and> GetNode md5 s h = Some (hd ns) \<and> set ns \<subseteq> snd ` set (ring h)
    \<and> length ns = min n (card (snd ` set (ring h)))"
proof -
  have c: "circle md5 h" using assms(1) by (rule built_circle)
  then have "owned md5 h \<noteq> []" using assms(2) by (simp add: circle_empty)
  then obtain ns where ns: "GetNodes md5 s (int n) h = Ret (ns, length ns = n)" "distinct ns"
      "GetNode md5 s h = Some (hd ns)" "length ns \<le> n" "set ns \<subseteq> snd ` set (ring h)"
      "length ns < n \<longrightarrow> set ns = snd ` set (ring h)"
    using GetNodes_spec [OF c _ assms(3,4), of s] by blast
  then have ok: "length ns = n \<longleftrightarrow> n \<le> card (snd ` set (ring h))" by (intro card_owners) simp_all
  moreover have "length ns = min n (card (snd ` set (ring h)))"
  proof (cases "length ns = n")
    case False
    then have "length ns = card (snd ` set (ring h))" using ns by (metis distinct_card order_less_le)
    then show ?thesis using ns(4) by simp
  qed (use ok in simp)
  ultimately show ?thesis using ns by auto
qed

theorem GetNodes_distinct_owners_witness:
  "\<exists>ns. GetNodes zero_digest ''k'' 2 demo_ring = Ret (ns, 2 \<le> card (snd ` set (ring demo_ring)))
    \<and> hd ns = ''b'' \<and> length ns = min 2 (card (snd ` set (ring demo_ring)))"
proof -
  have "ring demo_ring \<noteq> []"
    using GetNode_is_the_clockwise_owner [OF demo_ring_basic(1), of "''k''"] by (auto simp: demo_ring_node)
  then show ?thesis
    using GetNodes_distinct_owners [OF demo_ring_basic(1), of 2 "''k''"]
    by (simp add: demo_ring_node demo_ring_basic(2)) metis
qed

text \<open>
  \<open>UpdateWithWeights\<close> installs the new weights: afterwards the ring's weights are the ones
  given, and unless they were so before, the ring is the one built freshly from them; when
  nothing changed the ring is left as it is.
\<close>

lemma UpdateWithWeights_installs:
  assumes "built md5 h" and "distinct (map fst ws)"
  shows "map_of (weights (UpdateWithWeights md5 ws h)) = map_of ws
    \<and> UpdateWithWeights md5 ws h
      = (if map_of (weights h) = map_of ws then h else NewHashringWithWeights md5 ws)"
proof -
  let ?changed = "length ws \<noteq> length (weights h)
    \<or> list_ex (\<lambda>(node, newWeight). map_of (weights h) node \<noteq> Some newWeight) ws"
  have d: "distinct (map fst (weights h))" using assms(1) by (rule built_weights_distinct)
  have "map_of (weights h) = map_of ws" if "\<not> ?changed"
  proof -
    have "length ws = length (weights h)" and "\<forall>(n, w) \<in> set ws. map_of (weights h) n = Some w"
      using that by (auto simp: list_ex_iff)
    then show ?thesis using same_map [OF assms(2) d] by simp
  qed
  moreover have "\<not> ?changed" if e: "map_of (weights h) = map_of ws"
  proof -
    have "set (weights h) = set ws" using e d assms(2) by (simp add: map_of_inject_set)
    then have "length ws = length (weights h)"
      using d assms(2) by (metis distinct_card distinct_map)
    then show ?thesis using e assms(2) by (auto simp: list_ex_iff)
  qed
  ultimately have "?changed \<longleftrightarrow> map_of (weights h) \<noteq> map_of ws" by blast
  then show ?thesis
    by (simp add: UpdateWithWeights_def NewHashringWithWeights_def generateCircle_fields)
qed

lemma UpdateWithWeights_installs_witness:
  "map_of (weights (UpdateWithWeights zero_digest [(''c'', 3)] demo_ring)) = [''c'' \<mapsto> 3]"
  using UpdateWithWeights_installs [OF demo_ring_basic(1), of "[(''c'', 3)]", THEN conjunct1] by simp

end
