(* ===== verification/Processor.thy ===== *)
theory Processor
  imports Common "HOL-Library.AList"
begin

text \<open>
  The message registry of \<open>protocol/protobuf.go\<close> and \<open>protocol/protoFactory.go\<close>: 16-bit
  message ids against message types, in both directions.

  A \<open>reflect.Type\<close> is a value of \<open>'t\<close>. The protobuf library is not part of the repository: its
  \<open>proto.Marshal\<close> is an argument \<open>encode\<close> that may fail, its \<open>proto.UnmarshalMerge\<close> into a
  fresh message of type \<open>t\<close> an argument \<open>decode t\<close>, and \<open>type_of\<close> is \<open>reflect.TypeOf\<close>. The
  results pair the Go error with the other results.
\<close>

datatype proto_error = DuplicateType | NotRegistered | ProtobufError

record 't processor =
  msgType :: "(u16 \<times> 't) list"
  msgID :: "('t \<times> u16) list"

definition NewProcessor :: "'t processor" where
  "NewProcessor = \<lparr>msgType = [], msgID = []\<rparr>"

definition RegisterType :: "u16 \<Rightarrow> 't \<Rightarrow> 't processor \<Rightarrow> proto_error option \<times> 't processor" where
  "RegisterType i t p =
     (case map_of (msgType p) i of
        Some _ \<Rightarrow> (Some DuplicateType, p)
      | None \<Rightarrow>
        (case map_of (msgID p) t of
           Some _ \<Rightarrow> (Some DuplicateType, p)
         | None \<Rightarrow> (None, p\<lparr>msgType := AList.update i t (msgType p), msgID := AList.update t i (msgID p)\<rparr>)))"

definition Register ::
  "('m \<Rightarrow> 't) \<Rightarrow> u16 \<Rightarrow> 'm \<Rightarrow> 't processor \<Rightarrow> proto_error option \<times> 't processor" where
  "Register type_of i msg p =
     (case map_of (msgType p) i of
        Some _ \<Rightarrow> (Some DuplicateType, p)
      | None \<Rightarrow>
        let t = type_of msg
        in (case map_of (msgID p) t of
              Some _ \<Rightarrow> (Some DuplicateType, p)
            | None \<Rightarrow> (None, p\<lparr>msgType := AList.update i t (msgType p), msgID := AList.update t i (msgID p)\<rparr>)))"

definition Marshal ::
  "('m \<Rightarrow> 't) \<Rightarrow> ('m \<Rightarrow> byte list option) \<Rightarrow> 't processor \<Rightarrow> 'm
   \<Rightarrow> proto_error + (byte list \<times> u16)" where
  "Marshal type_of encode p msg =
     (case map_of (msgID p) (type_of msg) of
        None \<Rightarrow> Inl NotRegistered
      | Some i \<Rightarrow> (case encode msg of None \<Rightarrow> Inl ProtobufError | Some d \<Rightarrow> Inr (d, i)))"

text \<open>\<open>data[2:]\<close> panics on a slice shorter than two.\<close>

definition Unmarshal ::
  "('t \<Rightarrow> byte list \<Rightarrow> 'm option) \<Rightarrow> 't processor \<Rightarrow> u16 \<Rightarrow> byte list
   \<Rightarrow> (proto_error + 'm) outcome" where
  "Unmarshal decode p i d =
     (case map_of (msgType p) i of
        None \<Rightarrow> Ret (Inl NotRegistered)
      | Some t \<Rightarrow>
          if length d < 2 then Panic
          else Ret (case decode t (drop 2 d) of None \<Rightarrow> Inl ProtobufError | Some m \<Rightarrow> Inr m))"

definition IsProtocolExist :: "'t processor \<Rightarrow> u16 \<Rightarrow> bool" where
  "IsProtocolExist p i = (map_of (msgType p) i \<noteq> None)"

section \<open>The registry of this program\<close>

datatype pb_type =
    T_MessageSyncServer | T_MessageGroupMsgNoti | T_MessagePing | T_MessagePong
  | T_MessageCharLoginReq | T_MessageCharLoginRes | T_MessageErrorNoti

definition MsgID_MessageSyncServer :: "'a::numeral" where [go_consts]: "MsgID_MessageSyncServer = 4613"
definition MsgID_MessageGroupMsgNoti :: "'a::numeral" where [go_consts]: "MsgID_MessageGroupMsgNoti = 4614"
definition MsgID_MessagePing :: "'a::numeral" where [go_consts]: "MsgID_MessagePing = 4097"
definition MsgID_MessagePong :: "'a::numeral" where [go_consts]: "MsgID_MessagePong = 4098"
definition MsgID_MessageCharLoginReq :: "'a::numeral" where [go_consts]: "MsgID_MessageCharLoginReq = 4099"
definition MsgID_MessageCharLoginRes :: "'a::numeral" where [go_consts]: "MsgID_MessageCharLoginRes = 4100"
definition MsgID_MessageErrorNoti :: "'a::numeral" where [go_consts]: "MsgID_MessageErrorNoti = 4101"

text \<open>
  \<open>init\<close> registers a nil pointer of each generated type, of which only the type matters, and
  ignores the error results of \<open>Register\<close>.
\<close>

definition init_processor :: "pb_type processor" where
  "init_processor =
     fold (\<lambda>(i, t) p. snd (Register (\<lambda>t. t) i t p))
       [(MsgID_MessageSyncServer, T_MessageSyncServer), (MsgID_MessageGroupMsgNoti, T_MessageGroupMsgNoti),
        (MsgID_MessagePing, T_MessagePing), (MsgID_MessagePong, T_MessagePong),
        (MsgID_MessageCharLoginReq, T_MessageCharLoginReq), (MsgID_MessageCharLoginRes, T_MessageCharLoginRes),
        (MsgID_MessageErrorNoti, T_MessageErrorNoti)] NewProcessor"

section \<open>The two maps are inverse to each other\<close>

definition registry :: "'t processor \<Rightarrow> bool" where
  "registry p \<longleftrightarrow> (\<forall>i t. map_of (msgType p) i = Some t \<longleftrightarrow> map_of (msgID p) t = Some i)"

lemma registry_new: "registry NewProcessor"
  by (simp add: registry_def NewProcessor_def)

lemma Register_is_RegisterType: "Register type_of i msg p = RegisterType i (type_of msg) p"
  by (simp add: Register_def RegisterType_def Let_def split: option.split)

lemma registry_RegisterType: "registry p \<Longrightarrow> registry (snd (RegisterType i t p))"
  unfolding registry_def RegisterType_def
  by (auto simp: update_conv' split: option.splits) (metis option.distinct(1))+

definition register_all :: "(u16 \<times> 't) list \<Rightarrow> 't processor \<Rightarrow> 't processor" where
  "register_all = fold (\<lambda>(i, t) p. snd (RegisterType i t p))"

lemma registry_register_all: "registry p \<Longrightarrow> registry (register_all ps p)"
  by (induction ps arbitrary: p)
    (auto simp: register_all_def registry_RegisterType split: prod.splits)

lemma init_processor_maps:
  "msgType init_processor = [(4613, T_MessageSyncServer), (4614, T_MessageGroupMsgNoti), (4097, T_MessagePing),
     (4098, T_MessagePong), (4099, T_MessageCharLoginReq), (4100, T_MessageCharLoginRes), (4101, T_MessageErrorNoti)]"
  "msgID init_processor = [(T_MessageSyncServer, 4613), (T_MessageGroupMsgNoti, 4614), (T_MessagePing, 4097),
     (T_MessagePong, 4098), (T_MessageCharLoginReq, 4099), (T_MessageCharLoginRes, 4100), (T_MessageErrorNoti, 4101)]"
  by (simp_all add: init_processor_def Register_is_RegisterType RegisterType_def NewProcessor_def go_consts)

section \<open>Properties\<close>

text \<open>
  Whatever is registered, in any order and with duplicates, ids and types stay in one to
  one correspondence: an id names a type exactly when that type marshals under that id. A
  duplicate id or type is refused and changes nothing.
\<close>

lemma registry_is_one_to_one:
  "map_of (msgType (register_all ps NewProcessor)) i = Some t
     \<longleftrightarrow> map_of (msgID (register_all ps NewProcessor)) t = Some i"
  using registry_register_all [OF registry_new, of ps] by (simp add: registry_def)

text \<open>
  \<open>Processor.Unmarshal\<close> does not undo \<open>Processor.Marshal\<close>. \<open>Marshal\<close> returns the bare
  protobuf bytes, \<open>Unmarshal\<close> drops two bytes first: a marshalled message of fewer than two
  bytes panics and a longer one is decoded without its first two bytes; only with two bytes
  put in front does it come back, given that protobuf itself round-trips.
\<close>

lemma Unmarshal_skips_two_bytes:
  assumes "registry p" and "Marshal type_of encode p m = Inr (d, i)"
    and protobuf: "\<And>x b. encode x = Some b \<Longrightarrow> decode (type_of x) b = Some x"
  shows "Unmarshal decode p i d =
      (if length d < 2 then Panic
       else Ret (case decode (type_of m) (drop 2 d) of None \<Rightarrow> Inl ProtobufError | Some m' \<Rightarrow> Inr m'))
    \<and> Unmarshal decode p i (a # b # d) = Ret (Inr m)"
proof -
  have "map_of (msgID p) (type_of m) = Some i" and "encode m = Some d"
    using assms(2) by (auto simp: Marshal_def split: option.splits)
  then have "map_of (msgType p) i = Some (type_of m)" and "decode (type_of m) d = Some m"
    using assms(1) protobuf by (auto simp: registry_def)
  then show ?thesis by (simp add: Unmarshal_def)
qed

text \<open>
  A stand-in for protobuf: messages are pings, with no field, and pongs, with a byte; protobuf
  encodes a message without fields as no bytes.
\<close>

definition demo_encode :: "byte option \<Rightarrow> byte list option" where
  "demo_encode m = (case m of None \<Rightarrow> Some [] | Some b \<Rightarrow> Some [8, b])"

definition demo_decode :: "pb_type \<Rightarrow> byte list \<Rightarrow> byte option option" where
  "demo_decode t d = (if t = T_MessagePing then Some None else if length d = 2 then Some (Some (d ! 1)) else None)"

definition demo_type :: "byte option \<Rightarrow> pb_type" where
  "demo_type m = (case m of None \<Rightarrow> T_MessagePing | Some _ \<Rightarrow> T_MessagePong)"

lemma Unmarshal_skips_two_bytes_witness:
  "Unmarshal demo_decode init_processor 4097 [] = Panic
   \<and> Unmarshal demo_decode init_processor 4097 [0, 0] = Ret (Inr None)"
proof -
  have "registry init_processor"
    using registry_register_all [OF registry_new]
    by (simp only: init_processor_def register_all_def Register_is_RegisterType)
  moreover have "Marshal demo_type demo_encode init_processor None = Inr ([], 4097)"
    by (simp add: Marshal_def init_processor_maps demo_type_def demo_encode_def)
  moreover have "demo_encode x = Some b \<Longrightarrow> demo_decode (demo_type x) b = Some x" for x b
    by (auto simp: demo_encode_def demo_decode_def demo_type_def split: option.splits)
  ultimately show ?thesis
    using Unmarshal_skips_two_bytes [of init_processor demo_type demo_encode None "[]" 4097 demo_decode 0 0]
    by simp
qed

text \<open>
  the start-up registrations all succeed: each of the seven message types marshals under
  its own id, the id leads back to it, and no other id is known.
\<close>

theorem init_processor_complete:
  "RegisterType 4613 T_MessageSyncServer NewProcessor
      = (None, \<lparr>msgType = [(4613, T_MessageSyncServer)], msgID = [(T_MessageSyncServer, 4613)]\<rparr>)
   \<and> map_of (msgID init_processor) t \<noteq> None
   \<and> (map_of (msgID init_processor) t = Some i \<longleftrightarrow> map_of (msgType init_processor) i = Some t)
   \<and> (IsProtocolExist init_processor i \<longleftrightarrow> i \<in> {4613, 4614, 4097, 4098, 4099, 4100, 4101})"
proof -
  have "registry init_processor"
    using registry_register_all [OF registry_new]
    by (simp only: init_processor_def register_all_def Register_is_RegisterType)
  then have "map_of (msgID init_processor) t = Some i \<longleftrightarrow> map_of (msgType init_processor) i = Some t"
    by (simp add: registry_def)
  moreover have "map_of (msgID init_processor) t \<noteq> None"
    by (cases t) (simp_all add: init_processor_maps)
  moreover have "IsProtocolExist init_processor i \<longleftrightarrow> i \<in> {4613, 4614, 4097, 4098, 4099, 4100, 4101}"
    by (auto simp: IsProtocolExist_def init_processor_maps)
  ultimately show ?thesis by (simp add: RegisterType_def NewProcessor_def)
qed

end
