(* ===== verification/RouterServer.thy ===== *)
theory RouterServer
  imports Session EventLoop Processor "HOL-Library.Multiset"
begin

text \<open>
  The router (\<open>router/\<close>): gates ("portals") connect to one listener, game and team servers to
  the other; the router keeps who is registered under which id, forwards messages between the
  two sides and tells every portal which servers there are.

  The state is the heap the handlers work on: sessions by address (\<open>sess\<close>), the
  \<open>routeClient\<close> objects by address (\<open>rclients\<close>, the position in the list; objects are only
  ever added), and the three maps of \<open>Server\<close>. A session's user data is the address of its
  client object. All handlers run on the event loop, so each is a function on this state
  (\<open>internal_Receive\<close> and its siblings post them).

  What is not under src/ or differs from run to run is collected in \<open>router_env\<close>: the
  configured server id, protobuf's encoder for the generated \<open>MessageSyncServer\<close>, and the
  order in which Go's \<open>range\<close> visits a map.
\<close>

section \<open>State\<close>

record routeClient =
  rc_session :: nat
  rc_id :: u16
  svrType :: byte
  sendCnt :: u64
  lastSendCnt :: u64

record router =
  sess :: "nat \<Rightarrow> nat session"
  rclients :: "routeClient list"
  portalClients :: "(u16 \<times> nat) list"
  gameClients :: "(u16 \<times> nat) list"
  teamClients :: "(u16 \<times> nat) list"
  msgToPortalCnt :: u64
  lastMsgToPortalCnt :: u64

record MessageSyncServer =
  ServerIDs :: "u32 list"
  ServerType :: u32

record router_env =
  conf_ServerID :: u16
  pb_encode :: "MessageSyncServer \<Rightarrow> byte list option"
  range_order :: "(u16 \<times> nat) list \<Rightarrow> (u16 \<times> nat) list"

definition NewServer :: router where
  "NewServer = \<lparr>sess = (\<lambda>_. newSession newTCPConnection), rclients = [], portalClients = [],
     gameClients = [], teamClients = [], msgToPortalCnt = 0, lastMsgToPortalCnt = 0\<rparr>"

definition on_session :: "nat \<Rightarrow> (nat session \<Rightarrow> nat session) \<Rightarrow> router \<Rightarrow> router" where
  "on_session s f r = r\<lparr>sess := (sess r)(s := f (sess r s))\<rparr>"

section \<open>Clients: \<open>client.go\<close>\<close>

text \<open>The result is the address of the new object.\<close>

definition newRouterClient :: "nat \<Rightarrow> u16 \<Rightarrow> byte \<Rightarrow> router \<Rightarrow> nat \<times> router" where
  "newRouterClient s i ty r =
     (length (rclients r),
      r\<lparr>rclients := rclients r @ [\<lparr>rc_session = s, rc_id = i, svrType = ty, sendCnt = 0, lastSendCnt = 0\<rparr>]\<rparr>)"

definition client_SendMsg :: "nat \<Rightarrow> SSMessage \<Rightarrow> router \<Rightarrow> router" where
  "client_SendMsg c msg r =
     (let cl = rclients r ! c; r = on_session (rc_session cl) (session_Send (PackSSMessage msg)) r
      in r\<lparr>rclients := (rclients r)[c := cl\<lparr>sendCnt := sendCnt cl + 1\<rparr>]\<rparr>)"

definition client_Close :: "nat \<Rightarrow> router \<Rightarrow> router" where
  "client_Close c r = on_session (rc_session (rclients r ! c)) session_Shutdown r"

section \<open>The three registries: \<open>server.go\<close>\<close>

definition AddPortalClient :: "nat \<Rightarrow> router \<Rightarrow> router" where
  "AddPortalClient c r =
     (let i = rc_id (rclients r ! c);
          r = (case map_of (portalClients r) i of Some old \<Rightarrow> client_Close old r | None \<Rightarrow> r)
      in r\<lparr>portalClients := AList.update i c (portalClients r)\<rparr>)"

definition RemovePortalClient :: "nat \<Rightarrow> router \<Rightarrow> router" where
  "RemovePortalClient c r =
     (let i = rc_id (rclients r ! c)
      in if map_of (portalClients r) i = None then r
         else r\<lparr>portalClients := AList.delete i (portalClients r)\<rparr>)"

definition GetPortalClient :: "u16 \<Rightarrow> router \<Rightarrow> nat option" where
  "GetPortalClient i r = map_of (portalClients r) i"

definition AddGameClient :: "nat \<Rightarrow> router \<Rightarrow> router" where
  "AddGameClient c r =
     (let i = rc_id (rclients r ! c);
          r = (case map_of (gameClients r) i of Some old \<Rightarrow> client_Close old r | None \<Rightarrow> r)
      in r\<lparr>gameClients := AList.update i c (gameClients r)\<rparr>)"

definition RemoveGameClient :: "nat \<Rightarrow> router \<Rightarrow> router" where
  "RemoveGameClient c r =
     (let i = rc_id (rclients r ! c)
      in if map_of (gameClients r) i = None then r
         else r\<lparr>gameClients := AList.delete i (gameClients r)\<rparr>)"

definition GetGameClient :: "u16 \<Rightarrow> router \<Rightarrow> nat option" where
  "GetGameClient i r = map_of (gameClients r) i"

definition AddTeamClient :: "nat \<Rightarrow> router \<Rightarrow> router" where
  "AddTeamClient c r =
     (let i = rc_id (rclients r ! c);
          r = (case map_of (teamClients r) i of Some old \<Rightarrow> client_Close old r | None \<Rightarrow> r)
      in r\<lparr>teamClients := AList.update i c (teamClients r)\<rparr>)"

definition RemoveTeamClient :: "nat \<Rightarrow> router \<Rightarrow> router" where
  "RemoveTeamClient c r =
     (let i = rc_id (rclients r ! c)
      in if map_of (teamClients r) i = None then r
         else r\<lparr>teamClients := AList.delete i (teamClients r)\<rparr>)"

definition GetTeamClient :: "u16 \<Rightarrow> router \<Rightarrow> nat option" where
  "GetTeamClient i r = map_of (teamClients r) i"

section \<open>Synchronisation messages\<close>

text \<open>\<open>None\<close> is the error return.\<close>

definition PackGameMessage :: "router_env \<Rightarrow> router \<Rightarrow> SSMessage option" where
  "PackGameMessage env r =
     (let svrIds = map (\<lambda>(_, c). ucast (rc_id (rclients r ! c))) (range_order env (gameClients r))
      in case Marshal (\<lambda>_. T_MessageSyncServer) (pb_encode env) init_processor
                \<lparr>ServerIDs = svrIds, ServerType = EntityType_GameSvr\<rparr> of
           Inl _ \<Rightarrow> None
         | Inr (pbBody, i) \<Rightarrow>
             (case SSMessageBody_Marshal (zero_body\<lparr>sb_MessageID := i, sb_Body := pbBody\<rparr>) of
                Ret body \<Rightarrow> Some \<lparr>ss_Head = \<lparr>SSCmd = SSCMD_SYNC, TransType = TransType_ByKey,
                    SrcType = EntityType_Router, DstType = 0, SrcID = conf_ServerID env, DstID = 0\<rparr>,
                    ss_Body = body\<rparr>
              | _ \<Rightarrow> None))"

definition PackTeamMessage :: "router_env \<Rightarrow> router \<Rightarrow> SSMessage option" where
  "PackTeamMessage env r =
     (let svrIds = map (\<lambda>(_, c). ucast (rc_id (rclients r ! c))) (range_order env (teamClients r))
      in case Marshal (\<lambda>_. T_MessageSyncServer) (pb_encode env) init_processor
                \<lparr>ServerIDs = svrIds, ServerType = EntityType_TeamSvr\<rparr> of
           Inl _ \<Rightarrow> None
         | Inr (pbBody, i) \<Rightarrow>
             (case SSMessageBody_Marshal (zero_body\<lparr>sb_MessageID := i, sb_Body := pbBody\<rparr>) of
                Ret body \<Rightarrow> Some \<lparr>ss_Head = \<lparr>SSCmd = SSCMD_SYNC, TransType = TransType_ByKey,
                    SrcType = EntityType_Router, DstType = 0, SrcID = conf_ServerID env, DstID = 0\<rparr>,
                    ss_Body = body\<rparr>
              | _ \<Rightarrow> None))"

definition BroadcastPortals :: "router_env \<Rightarrow> SSMessage \<Rightarrow> router \<Rightarrow> router" where
  "BroadcastPortals env msg r =
     fold (\<lambda>(_, c). client_SendMsg c msg) (range_order env (portalClients r)) r"

definition BroadcastGames :: "router_env \<Rightarrow> SSMessage \<Rightarrow> router \<Rightarrow> router" where
  "BroadcastGames env msg r =
     fold (\<lambda>(_, c). client_SendMsg c msg) (range_order env (gameClients r)) r"

definition BroadcastTeams :: "router_env \<Rightarrow> SSMessage \<Rightarrow> router \<Rightarrow> router" where
  "BroadcastTeams env msg r =
     fold (\<lambda>(_, c). client_SendMsg c msg) (range_order env (teamClients r)) r"

definition statistics_portal :: "nat \<Rightarrow> router \<Rightarrow> router" where
  "statistics_portal c r =
     (let cl = rclients r ! c in r\<lparr>rclients := (rclients r)[c := cl\<lparr>lastSendCnt := sendCnt cl\<rparr>]\<rparr>)"

definition Statistics :: "router_env \<Rightarrow> router \<Rightarrow> router" where
  "Statistics env r =
     fold (\<lambda>(_, c). statistics_portal c) (range_order env (portalClients r))
       (r\<lparr>lastMsgToPortalCnt := msgToPortalCnt r\<rparr>)"

section \<open>Game and team servers: \<open>internal.go\<close>\<close>

definition internal_handleClosed :: "router_env \<Rightarrow> nat \<Rightarrow> router \<Rightarrow> router" where
  "internal_handleClosed env s r =
     (if \<not> IsVerified (sess r s) then r
      else case Userdata (sess r s) of
        None \<Rightarrow> r
      | Some c \<Rightarrow>
          let r = on_session s (\<lambda>x. x\<lparr>Userdata := None\<rparr>) r; ty = svrType (rclients r ! c)
          in if ty = EntityType_GameSvr then
               let r = RemoveGameClient c r
               in (case PackGameMessage env r of None \<Rightarrow> r | Some m \<Rightarrow> BroadcastPortals env m r)
             else if ty = EntityType_TeamSvr then
               let r = RemoveTeamClient c r
               in (case PackTeamMessage env r of None \<Rightarrow> r | Some m \<Rightarrow> BroadcastPortals env m r)
             else r)"

definition internal_handleReady :: "router_env \<Rightarrow> nat \<Rightarrow> SSMessage \<Rightarrow> router \<Rightarrow> router" where
  "internal_handleReady env s msg r =
     (let srcType = SrcType (ss_Head msg); svrId = SrcID (ss_Head msg)
      in if srcType = EntityType_GameSvr then
           let (c, r) = newRouterClient s svrId EntityType_GameSvr r;
               r = on_session s Verify r;
               r = on_session s (\<lambda>x. x\<lparr>Userdata := Some c\<rparr>) r;
               r = AddGameClient c r
           in (case PackGameMessage env r of None \<Rightarrow> r | Some m \<Rightarrow> BroadcastPortals env m r)
         else if srcType = EntityType_TeamSvr then
           let (c, r) = newRouterClient s svrId EntityType_TeamSvr r;
               r = on_session s Verify r;
               r = on_session s (\<lambda>x. x\<lparr>Userdata := Some c\<rparr>) r;
               r = AddTeamClient c r
           in (case PackTeamMessage env r of None \<Rightarrow> r | Some m \<Rightarrow> BroadcastPortals env m r)
         else r)"

definition internal_handleMsg :: "router_env \<Rightarrow> nat \<Rightarrow> SSMessage \<Rightarrow> router \<Rightarrow> router" where
  "internal_handleMsg env c msg r =
     (let svrId = DstID (ss_Head msg); transType = TransType (ss_Head msg)
      in if transType = TransType_ByKey then
           (case GetPortalClient svrId r of None \<Rightarrow> r | Some p \<Rightarrow> client_SendMsg p msg r)
         else if transType = TransType_Broadcast then BroadcastPortals env msg r
         else r)"

definition internal_handleHeartBeat :: "nat \<Rightarrow> SSMessage \<Rightarrow> router \<Rightarrow> router" where
  [simp]: "internal_handleHeartBeat c msg r = client_SendMsg c msg r"

definition internal_handleDisconnect :: "nat \<Rightarrow> SSMessage \<Rightarrow> router \<Rightarrow> router" where
  [simp]: "internal_handleDisconnect c msg r = client_Close c r"

definition internal_handleVerifyMsg :: "router_env \<Rightarrow> nat \<Rightarrow> SSMessage \<Rightarrow> router \<Rightarrow> router" where
  "internal_handleVerifyMsg env c msg r =
     (let cmd = SSCmd (ss_Head msg)
      in if cmd = SSCMD_HEARTBEAT then internal_handleHeartBeat c msg r
         else if cmd = SSCMD_DISCONNECT then internal_handleDisconnect c msg r
         else if cmd = SSCMD_MSG then internal_handleMsg env c msg r
         else r)"

definition internal_handleMessage :: "router_env \<Rightarrow> nat \<Rightarrow> SSMessage \<Rightarrow> router \<Rightarrow> router" where
  "internal_handleMessage env s msg r =
     (if SSCmd (ss_Head msg) = SSCMD_READY then internal_handleReady env s msg r
      else if IsVerified (sess r s) then
        (case Userdata (sess r s) of Some c \<Rightarrow> internal_handleVerifyMsg env c msg r | None \<Rightarrow> r)
      else r)"

definition internal_Receive :: "router_env \<Rightarrow> nat \<Rightarrow> byte list \<Rightarrow> router evloop \<Rightarrow> router evloop" where
  "internal_Receive env s b l =
     (case UnpackSSMessage b of
        None \<Rightarrow> l
      | Some msg \<Rightarrow> RunInLoop (internal_handleMessage env s msg) l)"

definition internal_Disconnect :: "router_env \<Rightarrow> nat \<Rightarrow> router evloop \<Rightarrow> router evloop" where
  "internal_Disconnect env s l = RunInLoop (internal_handleClosed env s) l"

section \<open>Portals: \<open>portal.go\<close>\<close>

definition portal_handleClosed :: "nat \<Rightarrow> router \<Rightarrow> router" where
  "portal_handleClosed s r =
     (if \<not> IsVerified (sess r s) then r
      else case Userdata (sess r s) of
        None \<Rightarrow> r
      | Some c \<Rightarrow> RemovePortalClient c (on_session s (\<lambda>x. x\<lparr>Userdata := None\<rparr>) r))"

definition portal_handleReady :: "router_env \<Rightarrow> nat \<Rightarrow> SSMessage \<Rightarrow> router \<Rightarrow> router" where
  "portal_handleReady env s msg r =
     (let (c, r) = newRouterClient s (SrcID (ss_Head msg)) EntityType_Portal r;
          r = on_session s Verify r;
          r = on_session s (\<lambda>x. x\<lparr>Userdata := Some c\<rparr>) r;
          r = AddPortalClient c r;
          r = (case PackGameMessage env r of Some m \<Rightarrow> client_SendMsg c m r | None \<Rightarrow> r)
      in (case PackTeamMessage env r of Some m \<Rightarrow> client_SendMsg c m r | None \<Rightarrow> r))"

definition portal_handleMsg :: "router_env \<Rightarrow> nat \<Rightarrow> SSMessage \<Rightarrow> router \<Rightarrow> router" where
  "portal_handleMsg env c msg r =
     (let dstType = DstType (ss_Head msg); svrId = DstID (ss_Head msg); transType = TransType (ss_Head msg)
      in if dstType = EntityType_GameSvr then
           (if transType = TransType_ByKey then
              (case GetGameClient svrId r of None \<Rightarrow> r | Some g \<Rightarrow> client_SendMsg g msg r)
            else if transType = TransType_Broadcast then BroadcastGames env msg r
            else r)
         else if dstType = EntityType_TeamSvr then
           (if transType = TransType_ByKey then
              (case GetTeamClient svrId r of None \<Rightarrow> r | Some t \<Rightarrow> client_SendMsg t msg r)
            else if transType = TransType_Broadcast then BroadcastTeams env msg r
            else r)
         else r)"

definition portal_handleHeartBeat :: "nat \<Rightarrow> SSMessage \<Rightarrow> router \<Rightarrow> router" where
  [simp]: "portal_handleHeartBeat c msg r = client_SendMsg c msg r"

definition portal_handleDisconnect :: "nat \<Rightarrow> SSMessage \<Rightarrow> router \<Rightarrow> router" where
  [simp]: "portal_handleDisconnect c msg r = client_Close c r"

definition portal_handleVerifyMsg :: "router_env \<Rightarrow> nat \<Rightarrow> SSMessage \<Rightarrow> router \<Rightarrow> router" where
  "portal_handleVerifyMsg env c msg r =
     (let cmd = SSCmd (ss_Head msg)
      in if cmd = SSCMD_HEARTBEAT then portal_handleHeartBeat c msg r
         else if cmd = SSCMD_DISCONNECT then portal_handleDisconnect c msg r
         else if cmd = SSCMD_MSG then portal_handleMsg env c msg r
         else r)"

definition portal_handleMessage :: "router_env \<Rightarrow> nat \<Rightarrow> SSMessage \<Rightarrow> router \<Rightarrow> router" where
  "portal_handleMessage env s msg r =
     (let r = (if SSCmd (ss_Head msg) = SSCMD_READY then portal_handleReady env s msg r
               else if IsVerified (sess r s) then
                 (case Userdata (sess r s) of Some c \<Rightarrow> portal_handleVerifyMsg env c msg r | None \<Rightarrow> r)
               else r)
      in r\<lparr>msgToPortalCnt := msgToPortalCnt r + 1\<rparr>)"

definition portal_Receive :: "router_env \<Rightarrow> nat \<Rightarrow> byte list \<Rightarrow> router evloop \<Rightarrow> router evloop" where
  "portal_Receive env s b l =
     (case UnpackSSMessage b of
        None \<Rightarrow> l
      | Some msg \<Rightarrow> RunInLoop (portal_handleMessage env s msg) l)"

definition portal_Disconnect :: "nat \<Rightarrow> router evloop \<Rightarrow> router evloop" where
  "portal_Disconnect s l = RunInLoop (portal_handleClosed s) l"

section \<open>Field by field\<close>

text \<open>
  The operations on sessions leave the registries and the identity of the client objects
  alone; the facts below let the handlers be read one field at a time.
\<close>

named_theorems router_frame

lemma on_session_frame [router_frame, simp]:
  "rclients (on_session s f r) = rclients r" "portalClients (on_session s f r) = portalClients r"
  "gameClients (on_session s f r) = gameClients r" "teamClients (on_session s f r) = teamClients r"
  "sess (on_session s f r) = (sess r)(s := f (sess r s))"
  by (simp_all add: on_session_def)

lemma client_SendMsg_frame [router_frame, simp]:
  "portalClients (client_SendMsg c m r) = portalClients r" "gameClients (client_SendMsg c m r) = gameClients r"
  "teamClients (client_SendMsg c m r) = teamClients r"
  "length (rclients (client_SendMsg c m r)) = length (rclients r)"
  "rc_session (rclients (client_SendMsg c m r) ! d) = rc_session (rclients r ! d)"
  "rc_id (rclients (client_SendMsg c m r) ! d) = rc_id (rclients r ! d)"
  "svrType (rclients (client_SendMsg c m r) ! d) = svrType (rclients r ! d)"
  "sess (client_SendMsg c m r) = (sess r)(rc_session (rclients r ! c)
     := session_Send (PackSSMessage m) (sess r (rc_session (rclients r ! c))))"
  by (cases "c < length (rclients r)"; cases "c = d";
      simp add: client_SendMsg_def Let_def nth_list_update list_update_beyond)+

lemma client_Close_frame [router_frame, simp]:
  "rclients (client_Close c r) = rclients r" "portalClients (client_Close c r) = portalClients r"
  "gameClients (client_Close c r) = gameClients r" "teamClients (client_Close c r) = teamClients r"
  "sess (client_Close c r) = (sess r)(rc_session (rclients r ! c)
     := session_Shutdown (sess r (rc_session (rclients r ! c))))"
  by (simp_all add: client_Close_def)

text \<open>A message to a list of registrations: each session gets it once per registration.\<close>

abbreviation send_all :: "SSMessage \<Rightarrow> (u16 \<times> nat) list \<Rightarrow> router \<Rightarrow> router" where
  "send_all msg xs r \<equiv> fold (\<lambda>(_, c). client_SendMsg c msg) xs r"

definition sessions_of :: "router \<Rightarrow> (u16 \<times> nat) list \<Rightarrow> nat list" where
  "sessions_of r xs = map (\<lambda>(_, c). rc_session (rclients r ! c)) xs"

lemma send_all_frame [router_frame, simp]:
  "portalClients (send_all m xs r) = portalClients r" "gameClients (send_all m xs r) = gameClients r"
  "teamClients (send_all m xs r) = teamClients r"
  "length (rclients (send_all m xs r)) = length (rclients r)"
  "rc_session (rclients (send_all m xs r) ! d) = rc_session (rclients r ! d)"
  "rc_id (rclients (send_all m xs r) ! d) = rc_id (rclients r ! d)"
  "svrType (rclients (send_all m xs r) ! d) = svrType (rclients r ! d)"
  by (induction xs arbitrary: r) (simp_all add: split_beta)

lemma send_all_sess:
  "sess (send_all m xs r) t
    = (session_Send (PackSSMessage m) ^^ count_list (sessions_of r xs) t) (sess r t)"
proof (induction xs arbitrary: r)
  case Nil
  then show ?case by (simp add: sessions_of_def)
next
  case (Cons x xs)
  obtain i c where x: "x = (i, c)" by (cases x)
  have "sessions_of (client_SendMsg c m r) xs = sessions_of r xs" by (simp add: sessions_of_def)
  then show ?case
    using Cons.IH [of "client_SendMsg c m r"]
    by (simp add: x sessions_of_def funpow_swap1)
qed

text \<open>The order in which the map is visited does not matter to what each session gets.\<close>

definition ok_env :: "router_env \<Rightarrow> bool" where
  "ok_env env \<longleftrightarrow> (\<forall>xs. mset (range_order env xs) = mset xs)"

lemma count_sessions_order:
  assumes "ok_env env"
  shows "count_list (sessions_of r (range_order env xs)) t = count_list (sessions_of r xs) t"
proof -
  have "mset (sessions_of r (range_order env xs)) = mset (sessions_of r xs)"
    using assms by (simp add: sessions_of_def ok_env_def)
  then show ?thesis by (metis count_mset)
qed

lemma set_range_order: "ok_env env \<Longrightarrow> set (range_order env xs) = set xs"
  by (metis ok_env_def set_mset_mset)

section \<open>The contract of a registry\<close>

text \<open>
  What the handlers rely on, for each of the three maps: a look-up after an insertion or a
  removal. The removal does not ask who is registered under the id.
\<close>

locale client_registry =
  fixes add :: "nat \<Rightarrow> 'r \<Rightarrow> 'r" and remove :: "nat \<Rightarrow> 'r \<Rightarrow> 'r"
    and get :: "u16 \<Rightarrow> 'r \<Rightarrow> nat option" and id_of :: "'r \<Rightarrow> nat \<Rightarrow> u16"
  assumes get_add: "get i (add c r) = (if i = id_of r c then Some c else get i r)"
    and get_remove: "get i (remove c r) = (if i = id_of r c then None else get i r)"
    and id_add: "id_of (add c r) d = id_of r d"
    and id_remove: "id_of (remove c r) d = id_of r d"
begin

lemma last_one_wins: "id_of r c = id_of r d \<Longrightarrow> get (id_of r c) (add d (add c r)) = Some d"
  by (simp add: get_add id_add)

lemma evicted_by_namesake:
  "id_of r c = id_of r d \<Longrightarrow> get (id_of r d) (remove c (add d (add c r))) = None"
  by (simp add: get_remove id_add)

lemma add_remove: "get i (remove c (add c r)) = (if i = id_of r c then None else get i r)"
  by (simp add: get_add get_remove id_add)

end

interpretation portals: client_registry AddPortalClient RemovePortalClient GetPortalClient
    "\<lambda>r c. rc_id (rclients r ! c)"
  by unfold_locales
    (auto simp: AddPortalClient_def RemovePortalClient_def GetPortalClient_def Let_def update_conv'
      delete_conv' split: option.split)

interpretation games: client_registry AddGameClient RemoveGameClient GetGameClient
    "\<lambda>r c. rc_id (rclients r ! c)"
  by unfold_locales
    (auto simp: AddGameClient_def RemoveGameClient_def GetGameClient_def Let_def update_conv'
      delete_conv' split: option.split)

interpretation teams: client_registry AddTeamClient RemoveTeamClient GetTeamClient
    "\<lambda>r c. rc_id (rclients r ! c)"
  by unfold_locales
    (auto simp: AddTeamClient_def RemoveTeamClient_def GetTeamClient_def Let_def update_conv'
      delete_conv' split: option.split)

end
