(* ===== verification/RouterSync.thy ===== *)
theory RouterSync
  imports RouterServer
begin

text \<open>
  The router as a system: the steps of its event loop and of its connections, the invariant of
  the registries, and what a portal that follows the synchronisation messages knows.
\<close>

section \<open>Steps\<close>

text \<open>
  A handler runs, the statistics are taken, or a session moves on its own: its deadline fires,
  a message passes the receive limit (before its handler is posted) or the connection works
  without anyone sending. \<open>encode\<close> is protobuf's encoder; the map order is any, at every step.
\<close>

inductive router_step ::
  "(MessageSyncServer \<Rightarrow> byte list option) \<Rightarrow> router \<Rightarrow> router \<Rightarrow> bool" for encode where
  internal_message: "ok_env env \<Longrightarrow> pb_encode env = encode \<Longrightarrow>
    router_step encode r (internal_handleMessage env s msg r)"
| internal_closed: "ok_env env \<Longrightarrow> pb_encode env = encode \<Longrightarrow>
    router_step encode r (internal_handleClosed env s r)"
| portal_message: "ok_env env \<Longrightarrow> pb_encode env = encode \<Longrightarrow>
    router_step encode r (portal_handleMessage env s msg r)"
| portal_closed: "router_step encode r (portal_handleClosed s r)"
| statistics: "ok_env env \<Longrightarrow> router_step encode r (Statistics env r)"
| deadline: "router_step encode r (on_session s timer_fires r)"
| arrival: "router_step encode r (on_session s (\<lambda>x. snd (proxy_Receive t b x)) r)"
| conn: "conn_step (s_conn (sess r s)) c \<Longrightarrow> accepted c = accepted (s_conn (sess r s)) \<Longrightarrow>
    router_step encode r (on_session s (\<lambda>x. x\<lparr>s_conn := c\<rparr>) r)"

section \<open>The registries\<close>

text \<open>
  Every registration is of a client object with that id and the map's type, and a session's
  user data is a client object of that very session.
\<close>

definition entries_ok :: "byte \<Rightarrow> (u16 \<times> nat) list \<Rightarrow> routeClient list \<Rightarrow> bool" where
  "entries_ok ty xs cls \<longleftrightarrow> distinct (map fst xs) \<and>
     (\<forall>(i, c) \<in> set xs. c < length cls \<and> rc_id (cls ! c) = i \<and> svrType (cls ! c) = ty)"

definition users_ok :: "(nat \<Rightarrow> nat session) \<Rightarrow> routeClient list \<Rightarrow> bool" where
  "users_ok ss cls \<longleftrightarrow>
     (\<forall>s c. Userdata (ss s) = Some c \<longrightarrow> c < length cls \<and> rc_session (cls ! c) = s)"

definition reg_inv :: "router \<Rightarrow> bool" where
  "reg_inv r \<longleftrightarrow> entries_ok EntityType_Portal (portalClients r) (rclients r)
     \<and> entries_ok EntityType_GameSvr (gameClients r) (rclients r)
     \<and> entries_ok EntityType_TeamSvr (teamClients r) (rclients r)
     \<and> users_ok (sess r) (rclients r)"

text \<open>What may change under the invariant: counters, connections and limits, and new objects.\<close>

definition same_ids :: "routeClient list \<Rightarrow> routeClient list \<Rightarrow> bool" where
  "same_ids cls cls' \<longleftrightarrow> length cls \<le> length cls' \<and>
     (\<forall>c < length cls. rc_session (cls' ! c) = rc_session (cls ! c) \<and> rc_id (cls' ! c) = rc_id (cls ! c)
        \<and> svrType (cls' ! c) = svrType (cls ! c))"

lemma same_ids_refl [simp]: "same_ids cls cls"
  by (simp add: same_ids_def)

lemma same_ids_append [simp]: "same_ids cls (cls @ xs)"
  by (simp add: same_ids_def nth_append)

lemma entries_ok_mono: "entries_ok ty xs cls \<Longrightarrow> same_ids cls cls' \<Longrightarrow> entries_ok ty xs cls'"
  by (fastforce simp: entries_ok_def same_ids_def)

lemma users_ok_mono:
  "users_ok ss cls \<Longrightarrow> same_ids cls cls' \<Longrightarrow> (\<And>s. Userdata (ss' s) = Userdata (ss s)) \<Longrightarrow> users_ok ss' cls'"
  by (fastforce simp: users_ok_def same_ids_def)

text \<open>\<open>keeps r r'\<close>: the registries and user data are the same and objects keep their identity.\<close>

definition keeps :: "router \<Rightarrow> router \<Rightarrow> bool" where
  "keeps r r' \<longleftrightarrow> portalClients r' = portalClients r \<and> gameClients r' = gameClients r
     \<and> teamClients r' = teamClients r \<and> same_ids (rclients r) (rclients r')
     \<and> (\<forall>s. Userdata (sess r' s) = Userdata (sess r s))"

lemma reg_inv_keeps: "reg_inv r \<Longrightarrow> keeps r r' \<Longrightarrow> reg_inv r'"
  unfolding reg_inv_def keeps_def
  by (intro conjI) (auto elim: entries_ok_mono users_ok_mono)

lemma Userdata_kept [simp]:
  "Userdata (session_Send b x) = Userdata x" "Userdata (session_Shutdown x) = Userdata x"
  "Userdata (Verify x) = Userdata x" "Userdata (timer_fires x) = Userdata x"
  "Userdata (snd (proxy_Receive t b x)) = Userdata x"
  by (simp_all add: session_Send_def session_Shutdown_def Verify_def timer_fires_def verifyTimeout_def
      proxy_Receive_def receiveLimit_def Let_def split: prod.split bool.split)

lemma keeps_refl [simp]: "keeps r r"
  by (simp add: keeps_def)

lemma keeps_trans [trans]: "keeps r r' \<Longrightarrow> keeps r' r'' \<Longrightarrow> keeps r r''"
  by (auto simp: keeps_def same_ids_def)

lemma keeps_on_session: "(\<And>x. Userdata (f x) = Userdata x) \<Longrightarrow> keeps r (on_session s f r)"
  by (simp add: keeps_def)

lemma keeps_SendMsg [simp]: "keeps r (client_SendMsg c m r)"
  by (simp add: keeps_def same_ids_def)

lemma keeps_Close [simp]: "keeps r (client_Close c r)"
  by (simp add: keeps_def)

lemma keeps_fold:
  assumes "\<And>x r. keeps r (g x r)"
  shows "keeps r (fold g xs r)"
proof (induction xs arbitrary: r)
  case (Cons x xs)
  have "keeps r (g x r)" by (rule assms)
  also have "keeps (g x r) (fold g xs (g x r))" by (rule Cons.IH)
  finally show ?case by simp
qed simp

lemma keeps_send_all [simp]: "keeps r (send_all m xs r)"
  by (rule keeps_fold) (simp add: split_beta)

lemma keeps_broadcasts [simp]:
  "keeps r (BroadcastPortals env m r)" "keeps r (BroadcastGames env m r)" "keeps r (BroadcastTeams env m r)"
  by (simp_all add: BroadcastPortals_def BroadcastGames_def BroadcastTeams_def)

lemma keeps_handleMsg [simp]:
  "keeps r (internal_handleMsg env c m r)" "keeps r (portal_handleMsg env c m r)"
  by (simp_all add: internal_handleMsg_def portal_handleMsg_def Let_def split: option.split)

lemma keeps_handleVerifyMsg [simp]:
  "keeps r (internal_handleVerifyMsg env c m r)" "keeps r (portal_handleVerifyMsg env c m r)"
  by (simp_all add: internal_handleVerifyMsg_def portal_handleVerifyMsg_def Let_def)

lemma statistics_portal_frame [simp]:
  "keeps r (statistics_portal c r)" "sess (statistics_portal c r) = sess r"
proof -
  have "rc_session (rclients (statistics_portal c r) ! d) = rc_session (rclients r ! d)
    \<and> rc_id (rclients (statistics_portal c r) ! d) = rc_id (rclients r ! d)
    \<and> svrType (rclients (statistics_portal c r) ! d) = svrType (rclients r ! d)" for d
    by (cases "c < length (rclients r)"; cases "c = d")
      (simp_all add: statistics_portal_def Let_def list_update_beyond)
  then show "keeps r (statistics_portal c r)"
    by (simp add: keeps_def same_ids_def) (simp add: statistics_portal_def Let_def)
qed (simp add: statistics_portal_def Let_def)

lemma keeps_Statistics [simp]: "keeps r (Statistics env r)"
proof -
  have "keeps (r\<lparr>lastMsgToPortalCnt := msgToPortalCnt r\<rparr>) (Statistics env r)"
    unfolding Statistics_def by (rule keeps_fold) (simp add: split_beta)
  moreover have "keeps r (r\<lparr>lastMsgToPortalCnt := msgToPortalCnt r\<rparr>)" by (simp add: keeps_def)
  ultimately show ?thesis using keeps_trans by blast
qed

lemma sess_Statistics [simp]: "sess (Statistics env r) = sess r"
proof -
  have "sess (fold (\<lambda>(_, c). statistics_portal c) xs q) = sess q" for q and xs :: "(u16 \<times> nat) list"
    by (induction xs arbitrary: q) (simp_all add: split_beta)
  then show ?thesis by (simp add: Statistics_def)
qed

text \<open>The steps that do change a registry: registration and removal.\<close>

lemma set_update_distinct:
  "distinct (map fst xs) \<Longrightarrow> set (AList.update i c xs) = insert (i, c) {p \<in> set xs. fst p \<noteq> i}"
  by (induction xs) (auto simp: rev_image_eqI)

lemma entries_ok_update:
  assumes "entries_ok ty xs cls" and "c < length cls" "rc_id (cls ! c) = i" "svrType (cls ! c) = ty"
  shows "entries_ok ty (AList.update i c xs) cls"
  using assms by (auto simp: entries_ok_def distinct_update set_update_distinct)

lemma entries_ok_delete: "entries_ok ty xs cls \<Longrightarrow> entries_ok ty (AList.delete i xs) cls"
  by (simp add: entries_ok_def distinct_delete) (auto simp: AList.delete_eq)

lemma reg_inv_new: "reg_inv NewServer"
  by (simp add: reg_inv_def entries_ok_def users_ok_def NewServer_def newSession_def)

lemma reg_inv_Userdata:
  "reg_inv r \<Longrightarrow> (\<And>c. u = Some c \<Longrightarrow> c < length (rclients r) \<and> rc_session (rclients r ! c) = s)
    \<Longrightarrow> reg_inv (on_session s (\<lambda>x. x\<lparr>Userdata := u\<rparr>) r)"
  by (auto simp: reg_inv_def users_ok_def)

text \<open>Closing whoever held the id before changes connections only.\<close>

lemma close_old_frame [simp]:
  "rclients (case x of None \<Rightarrow> r | Some old \<Rightarrow> client_Close old r) = rclients r"
  "portalClients (case x of None \<Rightarrow> r | Some old \<Rightarrow> client_Close old r) = portalClients r"
  "gameClients (case x of None \<Rightarrow> r | Some old \<Rightarrow> client_Close old r) = gameClients r"
  "teamClients (case x of None \<Rightarrow> r | Some old \<Rightarrow> client_Close old r) = teamClients r"
  "keeps r (case x of None \<Rightarrow> r | Some old \<Rightarrow> client_Close old r)"
  by (simp_all split: option.split)

lemma reg_inv_update:
  assumes "reg_inv q" "c < length (rclients q)" "rc_id (rclients q ! c) = i"
  shows "svrType (rclients q ! c) = EntityType_Portal \<Longrightarrow>
      reg_inv (q\<lparr>portalClients := AList.update i c (portalClients q)\<rparr>)"
    and "svrType (rclients q ! c) = EntityType_GameSvr \<Longrightarrow>
      reg_inv (q\<lparr>gameClients := AList.update i c (gameClients q)\<rparr>)"
    and "svrType (rclients q ! c) = EntityType_TeamSvr \<Longrightarrow>
      reg_inv (q\<lparr>teamClients := AList.update i c (teamClients q)\<rparr>)"
  using assms by (simp_all add: reg_inv_def entries_ok_update)

lemma reg_inv_Add:
  assumes "reg_inv r" "c < length (rclients r)"
  shows "svrType (rclients r ! c) = EntityType_Portal \<Longrightarrow> reg_inv (AddPortalClient c r)"
    and "svrType (rclients r ! c) = EntityType_GameSvr \<Longrightarrow> reg_inv (AddGameClient c r)"
    and "svrType (rclients r ! c) = EntityType_TeamSvr \<Longrightarrow> reg_inv (AddTeamClient c r)"
proof -
  have "reg_inv (case x of None \<Rightarrow> r | Some old \<Rightarrow> client_Close old r)" for x
    using assms(1) by (rule reg_inv_keeps) simp
  note q = this reg_inv_update [OF this]
  show "svrType (rclients r ! c) = EntityType_Portal \<Longrightarrow> reg_inv (AddPortalClient c r)"
    using q(2) assms(2) by (simp add: AddPortalClient_def Let_def)
  show "svrType (rclients r ! c) = EntityType_GameSvr \<Longrightarrow> reg_inv (AddGameClient c r)"
    using q(3) assms(2) by (simp add: AddGameClient_def Let_def)
  show "svrType (rclients r ! c) = EntityType_TeamSvr \<Longrightarrow> reg_inv (AddTeamClient c r)"
    using q(4) assms(2) by (simp add: AddTeamClient_def Let_def)
qed

lemma reg_inv_Remove:
  assumes "reg_inv r"
  shows "reg_inv (RemovePortalClient c r)" "reg_inv (RemoveGameClient c r)" "reg_inv (RemoveTeamClient c r)"
  using assms by (simp_all add: RemovePortalClient_def RemoveGameClient_def RemoveTeamClient_def Let_def
      reg_inv_def entries_ok_delete)

lemma reg_inv_broadcast:
  "reg_inv r \<Longrightarrow> reg_inv (case m of None \<Rightarrow> r | Some msg \<Rightarrow> BroadcastPortals env msg r)"
  by (auto elim: reg_inv_keeps split: option.split)

lemma newRouterClient_new:
  assumes "reg_inv r" and "newRouterClient s i ty r = (c, r')"
  shows "keeps r r' \<and> c < length (rclients r') \<and> rc_session (rclients r' ! c) = s
    \<and> rc_id (rclients r' ! c) = i \<and> svrType (rclients r' ! c) = ty \<and> sess r' = sess r"
  using assms(2) by (auto simp: newRouterClient_def keeps_def)

text \<open>What every registration does before it adds the client.\<close>

abbreviation login :: "nat \<Rightarrow> nat \<Rightarrow> router \<Rightarrow> router" where
  "login s c r \<equiv> on_session s (\<lambda>x. x\<lparr>Userdata := Some c\<rparr>) (on_session s Verify r)"

lemma reg_inv_login:
  assumes "reg_inv r" and "newRouterClient s i ty r = (c, r')"
  shows "reg_inv (login s c r')"
proof -
  note new = newRouterClient_new [OF assms]
  have "keeps r (on_session s Verify r')"
    using new by (blast intro: keeps_trans keeps_on_session Userdata_kept)
  with assms(1) have "reg_inv (on_session s Verify r')" by (rule reg_inv_keeps)
  then show ?thesis using new by (intro reg_inv_Userdata) auto
qed

lemma reg_inv_internal_handleReady:
  assumes "reg_inv r"
  shows "reg_inv (internal_handleReady env s msg r)"
proof -
  obtain c r' where g: "newRouterClient s (SrcID (ss_Head msg)) EntityType_GameSvr r = (c, r')" by fastforce
  obtain d q where t: "newRouterClient s (SrcID (ss_Head msg)) EntityType_TeamSvr r = (d, q)" by fastforce
  have "reg_inv (AddGameClient c (login s c r'))"
    using newRouterClient_new [OF assms g] by (intro reg_inv_Add(2) reg_inv_login [OF assms g]) simp_all
  moreover have "reg_inv (AddTeamClient d (login s d q))"
    using newRouterClient_new [OF assms t] by (intro reg_inv_Add(3) reg_inv_login [OF assms t]) simp_all
  ultimately show ?thesis
    using assms by (simp add: internal_handleReady_def Let_def g t reg_inv_broadcast)
qed

lemma reg_inv_portal_handleReady:
  assumes "reg_inv r"
  shows "reg_inv (portal_handleReady env s msg r)"
proof -
  obtain c r' where p: "newRouterClient s (SrcID (ss_Head msg)) EntityType_Portal r = (c, r')" by fastforce
  have "reg_inv (AddPortalClient c (login s c r'))"
    using newRouterClient_new [OF assms p] by (intro reg_inv_Add(1) reg_inv_login [OF assms p]) simp_all
  moreover have "reg_inv q \<Longrightarrow> reg_inv (case m of None \<Rightarrow> q | Some x \<Rightarrow> client_SendMsg c x q)" for m q
    by (auto elim: reg_inv_keeps split: option.split)
  ultimately show ?thesis
    by (simp add: portal_handleReady_def Let_def p)
qed

lemma reg_inv_handleClosed:
  assumes "reg_inv r"
  shows "reg_inv (internal_handleClosed env s r)" "reg_inv (portal_handleClosed s r)"
proof -
  have "reg_inv (on_session s (\<lambda>x. x\<lparr>Userdata := None\<rparr>) r)"
    using assms by (intro reg_inv_Userdata) simp_all
  then show "reg_inv (internal_handleClosed env s r)" "reg_inv (portal_handleClosed s r)"
    using assms
    by (auto simp: internal_handleClosed_def portal_handleClosed_def Let_def reg_inv_broadcast reg_inv_Remove
        split: option.split)
qed

lemma reg_inv_cnt: "reg_inv (r\<lparr>msgToPortalCnt := x\<rparr>) = reg_inv r"
  by (simp add: reg_inv_def)

lemma reg_inv_step: "router_step encode r r' \<Longrightarrow> reg_inv r \<Longrightarrow> reg_inv r'"
proof (induction rule: router_step.induct)
  case (internal_message env r s msg)
  then show ?case
    by (auto simp: internal_handleMessage_def reg_inv_internal_handleReady elim: reg_inv_keeps split: option.split)
next
  case (portal_message env r s msg)
  have "reg_inv (portal_handleVerifyMsg env c msg r)" for c
    using portal_message.prems by (rule reg_inv_keeps) simp
  with portal_message show ?case
    by (simp add: portal_handleMessage_def Let_def reg_inv_cnt reg_inv_portal_handleReady split: option.split)
next
  case (statistics env r)
  from statistics.prems keeps_Statistics show ?case by (rule reg_inv_keeps)
qed (simp_all add: reg_inv_handleClosed reg_inv_keeps keeps_on_session)

lemma reachable_reg_inv: "(router_step encode)\<^sup>*\<^sup>* NewServer r \<Longrightarrow> reg_inv r"
  by (induction rule: rtranclp_induct) (auto intro: reg_inv_new reg_inv_step)

section \<open>What a portal learns\<close>

text \<open>
  A portal takes a synchronisation message (\<open>SSCMD_SYNC\<close>) for the complete list of the team
  servers if it says so, and of the game servers otherwise, and forgets what it knew. \<open>decode\<close>
  is protobuf's decoder. \<open>view\<close> is what it knows after the messages \<open>ms\<close>.
\<close>

definition synced ::
  "(byte list \<Rightarrow> MessageSyncServer option) \<Rightarrow> bool \<Rightarrow> byte list \<Rightarrow> u32 list option" where
  "synced decode team m =
     (case UnpackSSMessage m of
        None \<Rightarrow> None
      | Some ss \<Rightarrow>
          if SSCmd (ss_Head ss) \<noteq> SSCMD_SYNC then None
          else (case SSMessageBody_UnMarshal (ss_Body ss) zero_body of
            (Ret _, body) \<Rightarrow>
              (case decode (sb_Body body) of
                 Some sync \<Rightarrow> if (ServerType sync = EntityType_TeamSvr) = team then Some (ServerIDs sync) else None
               | None \<Rightarrow> None)
          | _ \<Rightarrow> None))"

definition view ::
  "(byte list \<Rightarrow> MessageSyncServer option) \<Rightarrow> bool \<Rightarrow> byte list list \<Rightarrow> u32 list option" where
  "view decode team ms =
     fold (\<lambda>m v. case synced decode team m of Some ids \<Rightarrow> Some ids | None \<Rightarrow> v) ms None"

lemma view_snoc:
  "view decode team (ms @ [m]) = (case synced decode team m of Some ids \<Rightarrow> Some ids | None \<Rightarrow> view decode team ms)"
  by (simp add: view_def split: option.split)

lemma synced_other: "SSCmd (ss_Head msg) \<noteq> SSCMD_SYNC \<Longrightarrow> synced decode team (PackSSMessage msg) = None"
  by (simp add: synced_def UnpackSSMessage_Pack)

text \<open>Protobuf, for this message: encoding succeeds and decoding gives the message back.\<close>

definition pb_faithful ::
  "(MessageSyncServer \<Rightarrow> byte list option) \<Rightarrow> (byte list \<Rightarrow> MessageSyncServer option) \<Rightarrow> bool" where
  "pb_faithful encode decode \<longleftrightarrow> (\<forall>m. \<exists>b. encode m = Some b \<and> decode b = Some m)"

definition server_ids :: "bool \<Rightarrow> router \<Rightarrow> u32 set" where
  "server_ids team r = (\<lambda>(i, _). ucast i) ` set (if team then teamClients r else gameClients r)"

definition PackServers :: "router_env \<Rightarrow> bool \<Rightarrow> router \<Rightarrow> SSMessage option" where
  "PackServers env team r = (if team then PackTeamMessage env r else PackGameMessage env r)"

lemma client_ids:
  assumes "reg_inv r" and "ok_env env"
  shows "set (map (\<lambda>(_, c). ucast (rc_id (rclients r ! c)) :: u32) (range_order env (gameClients r))) = server_ids False r"
    and "set (map (\<lambda>(_, c). ucast (rc_id (rclients r ! c)) :: u32) (range_order env (teamClients r))) = server_ids True r"
  using assms
  by (auto simp: server_ids_def set_range_order reg_inv_def entries_ok_def split_beta image_iff Bex_def)

lemma PackServers_synced:
  assumes "reg_inv r" and "ok_env env" and "pb_faithful (pb_encode env) decode"
  shows "\<exists>m ids. PackServers env team r = Some m \<and> set ids = server_ids team r
    \<and> synced decode team (PackSSMessage m) = Some ids
    \<and> synced decode (\<not> team) (PackSSMessage m) = None"
proof -
  let ?ids = "map (\<lambda>(_, c). ucast (rc_id (rclients r ! c)) :: u32) (range_order env (if team then teamClients r else gameClients r))"
  let ?sync = "\<lparr>ServerIDs = ?ids, ServerType = (if team then EntityType_TeamSvr else EntityType_GameSvr)\<rparr>"
  obtain b where b: "pb_encode env ?sync = Some b" "decode b = Some ?sync"
    using assms(3) by (auto simp: pb_faithful_def)
  let ?body = "zero_body\<lparr>sb_MessageID := 4613, sb_Body := b\<rparr>"
  obtain d where d: "SSMessageBody_Marshal ?body = Ret d" "SSMessageBody_UnMarshal d zero_body = (Ret (), ?body)"
    using body_format.marshalD by blast
  let ?m = "\<lparr>ss_Head = \<lparr>SSCmd = SSCMD_SYNC, TransType = TransType_ByKey,
      SrcType = EntityType_Router, DstType = 0, SrcID = conf_ServerID env, DstID = 0\<rparr>, ss_Body = d\<rparr>"
  have "PackServers env team r = Some ?m"
    using b(1) d(1)
    by (cases team)
      (simp_all add: PackServers_def PackGameMessage_def PackTeamMessage_def Let_def Marshal_def init_processor_maps)
  moreover have "set ?ids = server_ids team r"
    using client_ids [OF assms(1,2)] by (cases team) simp_all
  moreover have "synced decode t (PackSSMessage ?m) = (if t = team then Some ?ids else None)" for t
    using b(2) d(2) by (cases team; cases t) (simp_all add: synced_def UnpackSSMessage_Pack go_consts)
  ultimately show ?thesis by auto
qed

text \<open>A connection is closed, or its peer knows the list.\<close>

definition knows ::
  "(byte list \<Rightarrow> MessageSyncServer option) \<Rightarrow> bool \<Rightarrow> u32 set \<Rightarrow> tcpconn \<Rightarrow> bool" where
  "knows decode team ids c \<longleftrightarrow>
     closed c \<or> (\<exists>xs. view decode team (accepted c) = Some xs \<and> set xs = ids)"

definition half_inv :: "(byte list \<Rightarrow> MessageSyncServer option) \<Rightarrow> bool \<Rightarrow> router \<Rightarrow> bool" where
  "half_inv decode team r \<longleftrightarrow> (\<forall>(i, c) \<in> set (portalClients r).
     knows decode team (server_ids team r) (s_conn (sess r (rc_session (rclients r ! c)))))"

definition view_inv :: "(byte list \<Rightarrow> MessageSyncServer option) \<Rightarrow> router \<Rightarrow> bool" where
  "view_inv decode r \<longleftrightarrow> half_inv decode True r \<and> half_inv decode False r"

text \<open>\<open>quiet\<close>: between two states of a connection its peer learned nothing new, or it closed.\<close>

definition quiet :: "(byte list \<Rightarrow> MessageSyncServer option) \<Rightarrow> tcpconn \<Rightarrow> tcpconn \<Rightarrow> bool" where
  "quiet decode c d \<longleftrightarrow> closed d \<or>
     (\<not> closed c \<and> (\<forall>team. view decode team (accepted d) = view decode team (accepted c)))"

lemma quiet_refl [simp]: "quiet decode c c"
  by (simp add: quiet_def)

lemma quiet_trans: "quiet decode c d \<Longrightarrow> quiet decode d e \<Longrightarrow> quiet decode c e"
  by (auto simp: quiet_def)

lemma quiet_knows: "quiet decode c d \<Longrightarrow> knows decode team ids c \<Longrightarrow> knows decode team ids d"
  by (auto simp: quiet_def knows_def)

lemma quiet_Shutdown [simp]: "quiet decode c (s_conn (session_Shutdown x))"
  by (simp add: quiet_def session_Shutdown_def Let_def)

lemma quiet_session [simp]:
  "quiet decode (s_conn x) (s_conn (Verify x))" "quiet decode (s_conn x) (s_conn (timer_fires x))"
  "quiet decode (s_conn x) (s_conn (snd (proxy_Receive t b x)))"
proof -
  have "s_conn (snd (receiveLimit t x)) = s_conn x" by (simp add: receiveLimit_def Let_def)
  then show "quiet decode (s_conn x) (s_conn (snd (proxy_Receive t b x)))"
    by (auto simp: proxy_Receive_def split: prod.split bool.split)
qed (simp_all add: Verify_def timer_fires_def verifyTimeout_def quiet_def split: prod.split bool.split)

lemma quiet_Send:
  "SSCmd (ss_Head msg) \<noteq> SSCMD_SYNC \<Longrightarrow>
    quiet decode (s_conn x) (s_conn (session_Send (PackSSMessage msg) x))"
  by (simp add: quiet_def session_Send_def Send_def view_snoc synced_other)

lemma quiet_conn: "conn_step c d \<Longrightarrow> accepted d = accepted c \<Longrightarrow> quiet decode c d"
  using closed_stays [of c d] by (auto simp: quiet_def)

text \<open>\<open>hush\<close>: the same for all sessions of a router, with the registries unchanged.\<close>

definition hush :: "(byte list \<Rightarrow> MessageSyncServer option) \<Rightarrow> router \<Rightarrow> router \<Rightarrow> bool" where
  "hush decode r r' \<longleftrightarrow> portalClients r' = portalClients r \<and> gameClients r' = gameClients r
     \<and> teamClients r' = teamClients r \<and> same_ids (rclients r) (rclients r')
     \<and> (\<forall>t. quiet decode (s_conn (sess r t)) (s_conn (sess r' t)))"

lemma hush_refl [simp]: "hush decode r r"
  by (simp add: hush_def)

lemma hush_trans [trans]: "hush decode r r' \<Longrightarrow> hush decode r' r'' \<Longrightarrow> hush decode r r''"
  by (auto simp: hush_def same_ids_def intro: quiet_trans)

lemma hush_on_session: "(\<And>x. quiet decode (s_conn x) (s_conn (f x))) \<Longrightarrow> hush decode r (on_session s f r)"
  by (simp add: hush_def)

lemma hush_SendMsg: "SSCmd (ss_Head msg) \<noteq> SSCMD_SYNC \<Longrightarrow> hush decode r (client_SendMsg c msg r)"
  by (simp add: hush_def same_ids_def quiet_Send)

lemma hush_Close [simp]: "hush decode r (client_Close c r)"
  by (simp add: hush_def)

lemma hush_send_all:
  assumes "SSCmd (ss_Head msg) \<noteq> SSCMD_SYNC"
  shows "hush decode r (send_all msg xs r)"
proof (induction xs arbitrary: r)
  case (Cons x xs)
  obtain i c where x: "x = (i, c)" by (cases x)
  have "hush decode r (client_SendMsg c msg r)" using assms by (rule hush_SendMsg)
  also have "hush decode (client_SendMsg c msg r) (send_all msg xs (client_SendMsg c msg r))" by (rule Cons.IH)
  finally show ?case by (simp add: x)
qed simp

lemma hush_handleVerifyMsg:
  "hush decode r (internal_handleVerifyMsg env c msg r)" "hush decode r (portal_handleVerifyMsg env c msg r)"
proof -
  have "hush decode r (internal_handleMsg env c msg r)" "hush decode r (portal_handleMsg env c msg r)"
    if "SSCmd (ss_Head msg) = SSCMD_MSG"
    using that
    by (simp_all add: internal_handleMsg_def portal_handleMsg_def Let_def BroadcastPortals_def
        BroadcastGames_def BroadcastTeams_def hush_send_all hush_SendMsg go_consts split: option.split)
  then show "hush decode r (internal_handleVerifyMsg env c msg r)" "hush decode r (portal_handleVerifyMsg env c msg r)"
    by (simp_all add: internal_handleVerifyMsg_def portal_handleVerifyMsg_def Let_def hush_SendMsg go_consts)
qed

lemma half_inv_quiet:
  assumes "reg_inv r" and "half_inv decode team r"
    and "set (portalClients r') \<subseteq> set (portalClients r)" and "same_ids (rclients r) (rclients r')"
    and "\<And>t. quiet decode (s_conn (sess r t)) (s_conn (sess r' t))"
    and "server_ids team r' = server_ids team r"
  shows "half_inv decode team r'"
proof -
  have "knows decode team (server_ids team r') (s_conn (sess r' (rc_session (rclients r' ! c))))"
    if "(i, c) \<in> set (portalClients r')" for i c
  proof -
    have e: "(i, c) \<in> set (portalClients r)" using that assms(3) by blast
    then have "c < length (rclients r)" using assms(1) by (auto simp: reg_inv_def entries_ok_def)
    then have "rc_session (rclients r' ! c) = rc_session (rclients r ! c)"
      using assms(4) by (simp add: same_ids_def)
    moreover have "knows decode team (server_ids team r) (s_conn (sess r (rc_session (rclients r ! c))))"
      using assms(2) e by (auto simp: half_inv_def)
    ultimately show ?thesis using assms(5,6) by (auto intro: quiet_knows)
  qed
  then show ?thesis by (auto simp: half_inv_def)
qed

lemma view_inv_hush: "reg_inv r \<Longrightarrow> view_inv decode r \<Longrightarrow> hush decode r r' \<Longrightarrow> view_inv decode r'"
  unfolding view_inv_def
  by (intro conjI; rule half_inv_quiet [of r]) (auto simp: hush_def server_ids_def)

section \<open>Registrations bring every portal up to date\<close>

lemma Send_n:
  "closed (s_conn ((session_Send b ^^ n) x)) = closed (s_conn x)"
  "\<not> closed (s_conn x) \<Longrightarrow> accepted (s_conn ((session_Send b ^^ n) x)) = accepted (s_conn x) @ replicate n b"
proof (induction n)
  case (Suc n)
  {
    case 1 show ?case using Suc by (simp add: session_Send_def Send_def)
  next
    case 2 then show ?case
      using Suc by (simp add: session_Send_def Send_def replicate_append_same)
  }
qed simp_all

lemma view_replicate:
  "view decode team (ms @ replicate n b)
    = (case synced decode team b of Some ids \<Rightarrow> if n = 0 then view decode team ms else Some ids
       | None \<Rightarrow> view decode team ms)"
proof (induction n)
  case (Suc n)
  have "ms @ replicate (Suc n) b = (ms @ replicate n b) @ [b]" by (simp add: replicate_append_same)
  then show ?case by (simp only: view_snoc Suc.IH) (simp split: option.split)
qed (simp split: option.split)

lemma half_inv_broadcast:
  assumes "ok_env env" and "synced decode team (PackSSMessage m) = Some ids" and "set ids = server_ids team r"
    and "synced decode (\<not> team) (PackSSMessage m) = None" and "half_inv decode (\<not> team) r"
  shows "view_inv decode (BroadcastPortals env m r)"
proof -
  let ?r = "BroadcastPortals env m r" and ?b = "PackSSMessage m"
  have ids: "server_ids t ?r = server_ids t r" for t
    by (simp add: server_ids_def BroadcastPortals_def)
  have "knows decode t (server_ids t r) (s_conn (sess ?r (rc_session (rclients ?r ! c))))"
    if e: "(i, c) \<in> set (portalClients r)" for i c t
  proof -
    let ?s = "rc_session (rclients r ! c)" let ?n = "count_list (sessions_of r (portalClients r)) ?s"
    have "sess ?r ?s = (session_Send ?b ^^ ?n) (sess r ?s)"
      by (simp add: BroadcastPortals_def send_all_sess count_sessions_order [OF assms(1)])
    moreover have "0 < ?n" using e by (force simp: sessions_of_def count_list_0_iff neq0_conv [symmetric] simp del: neq0_conv)
    moreover have "knows decode (\<not> team) (server_ids (\<not> team) r) (s_conn (sess r ?s))"
      using assms(5) e by (auto simp: half_inv_def)
    ultimately have "knows decode t (server_ids t r) (s_conn (sess ?r ?s))"
      using assms(2-4) Send_n [where b = ?b and n = ?n and x = "sess r ?s"]
      by (cases "closed (s_conn (sess r ?s))"; cases "t = team") (auto simp: knows_def view_replicate)
    then show ?thesis by (simp add: BroadcastPortals_def)
  qed
  then have "half_inv decode t ?r" for t
    by (auto simp: half_inv_def ids) (simp add: BroadcastPortals_def)
  then show ?thesis by (simp add: view_inv_def)
qed

lemma view_inv_resync:
  assumes "reg_inv r" and "ok_env env" and "pb_faithful (pb_encode env) decode" and "half_inv decode (\<not> team) r"
  shows "view_inv decode (case PackServers env team r of None \<Rightarrow> r | Some m \<Rightarrow> BroadcastPortals env m r)"
proof -
  obtain m ids where m: "PackServers env team r = Some m" "set ids = server_ids team r"
      "synced decode team (PackSSMessage m) = Some ids" "synced decode (\<not> team) (PackSSMessage m) = None"
    using PackServers_synced [OF assms(1-3)] by blast
  then have "view_inv decode (BroadcastPortals env m r)"
    using assms(2,4) by (intro half_inv_broadcast) auto
  then show ?thesis by (simp add: m(1))
qed

lemma half_inv_login:
  assumes "reg_inv r" and "half_inv decode team r" and "newRouterClient s i ty r = (c, r')"
  shows "half_inv decode team (login s c r')"
proof -
  have "rclients r' = rclients r @ [\<lparr>rc_session = s, rc_id = i, svrType = ty, sendCnt = 0, lastSendCnt = 0\<rparr>]"
    "sess r' = sess r" "portalClients r' = portalClients r"
    "gameClients r' = gameClients r" "teamClients r' = teamClients r"
    using assms(3) by (auto simp: newRouterClient_def)
  then show ?thesis
    by (intro half_inv_quiet [OF assms(1,2)]) (simp_all add: server_ids_def)
qed

lemma closing_quiet:
  "quiet decode (s_conn (sess r t)) (s_conn (sess (case x of None \<Rightarrow> r | Some old \<Rightarrow> client_Close old r) t))"
  by (simp split: option.split)

lemma half_inv_other_Add:
  assumes "reg_inv r"
  shows "half_inv decode True r \<Longrightarrow> half_inv decode True (AddGameClient c r)"
    and "half_inv decode False r \<Longrightarrow> half_inv decode False (AddTeamClient c r)"
  using half_inv_quiet [OF assms, of decode True "AddGameClient c r"]
    half_inv_quiet [OF assms, of decode False "AddTeamClient c r"]
  by (simp_all add: AddGameClient_def AddTeamClient_def Let_def server_ids_def closing_quiet)

lemma half_inv_other_Remove:
  assumes "reg_inv r"
  shows "half_inv decode True r \<Longrightarrow> half_inv decode True (RemoveGameClient c r)"
    and "half_inv decode False r \<Longrightarrow> half_inv decode False (RemoveTeamClient c r)"
  using half_inv_quiet [OF assms, of decode True "RemoveGameClient c r"]
    half_inv_quiet [OF assms, of decode False "RemoveTeamClient c r"]
  by (simp_all add: RemoveGameClient_def RemoveTeamClient_def Let_def server_ids_def)

lemma view_inv_internal_handleReady:
  assumes "reg_inv r" and "view_inv decode r" and "ok_env env" and "pb_faithful (pb_encode env) decode"
  shows "view_inv decode (internal_handleReady env s msg r)"
proof -
  obtain c q where g: "newRouterClient s (SrcID (ss_Head msg)) EntityType_GameSvr r = (c, q)" by fastforce
  obtain d p where t: "newRouterClient s (SrcID (ss_Head msg)) EntityType_TeamSvr r = (d, p)" by fastforce
  note lg = reg_inv_login [OF assms(1) g] and lt = reg_inv_login [OF assms(1) t]
  have "reg_inv (AddGameClient c (login s c q))" "reg_inv (AddTeamClient d (login s d p))"
    using newRouterClient_new [OF assms(1) g] newRouterClient_new [OF assms(1) t]
    by (intro reg_inv_Add lg lt; simp)+
  moreover have "half_inv decode True (AddGameClient c (login s c q))"
    using assms(2) by (intro half_inv_other_Add lg half_inv_login [OF assms(1) _ g]) (simp add: view_inv_def)
  moreover have "half_inv decode False (AddTeamClient d (login s d p))"
    using assms(2) by (intro half_inv_other_Add lt half_inv_login [OF assms(1) _ t]) (simp add: view_inv_def)
  ultimately show ?thesis
    using view_inv_resync [OF _ assms(3,4), of "AddGameClient c (login s c q)" False]
      view_inv_resync [OF _ assms(3,4), of "AddTeamClient d (login s d p)" True] assms(2)
    by (simp add: internal_handleReady_def Let_def g t PackServers_def)
qed

lemma view_inv_internal_handleClosed:
  assumes "reg_inv r" and "view_inv decode r" and "ok_env env" and "pb_faithful (pb_encode env) decode"
  shows "view_inv decode (internal_handleClosed env s r)"
proof -
  let ?q = "on_session s (\<lambda>x. x\<lparr>Userdata := None\<rparr>) r"
  have q: "reg_inv ?q" using assms(1) by (intro reg_inv_Userdata) simp_all
  have v: "view_inv decode ?q"
    using assms(1,2) by (rule view_inv_hush) (rule hush_on_session, simp)
  then have "view_inv decode (case PackServers env False (RemoveGameClient c ?q) of None \<Rightarrow> RemoveGameClient c ?q
      | Some m \<Rightarrow> BroadcastPortals env m (RemoveGameClient c ?q))" for c
    by (intro view_inv_resync reg_inv_Remove q assms(3,4)) (simp add: view_inv_def half_inv_other_Remove q)
  moreover have "view_inv decode (case PackServers env True (RemoveTeamClient c ?q) of None \<Rightarrow> RemoveTeamClient c ?q
      | Some m \<Rightarrow> BroadcastPortals env m (RemoveTeamClient c ?q))" for c
    using v by (intro view_inv_resync reg_inv_Remove q assms(3,4)) (simp add: view_inv_def half_inv_other_Remove q)
  ultimately show ?thesis
    using assms(2) v by (simp add: internal_handleClosed_def Let_def PackServers_def split: option.split)
qed

lemma knows_two:
  assumes "synced decode False b1 = Some ids1" and "synced decode True b2 = Some ids2"
    and "synced decode False b2 = None"
  shows "knows decode team (set (if team then ids2 else ids1)) (s_conn (session_Send b2 (session_Send b1 x)))"
  using assms by (cases team) (simp_all add: knows_def session_Send_def Send_def view_snoc)

lemma view_inv_notify:
  assumes "reg_inv r" and "ok_env env" and "pb_faithful (pb_encode env) decode"
    and others: "\<And>i d team. (i, d) \<in> set (portalClients r) \<Longrightarrow> d \<noteq> c \<Longrightarrow>
      knows decode team (server_ids team r) (s_conn (sess r (rc_session (rclients r ! d))))"
  shows "view_inv decode
    (let r = (case PackGameMessage env r of Some m \<Rightarrow> client_SendMsg c m r | None \<Rightarrow> r)
     in case PackTeamMessage env r of Some m \<Rightarrow> client_SendMsg c m r | None \<Rightarrow> r)"
proof -
  obtain m1 ids1 where g: "PackGameMessage env r = Some m1" "set ids1 = server_ids False r"
      "synced decode False (PackSSMessage m1) = Some ids1"
    using PackServers_synced [OF assms(1-3), of False] by (auto simp: PackServers_def)
  let ?q = "client_SendMsg c m1 r"
  have "reg_inv ?q" using assms(1) by (rule reg_inv_keeps) simp
  then obtain m2 ids2 where t: "PackTeamMessage env ?q = Some m2" "set ids2 = server_ids True r"
      "synced decode True (PackSSMessage m2) = Some ids2" "synced decode False (PackSSMessage m2) = None"
    using PackServers_synced [OF _ assms(2,3), of ?q True] by (auto simp: PackServers_def server_ids_def)
  let ?p = "client_SendMsg c m2 ?q" and ?s = "rc_session (rclients r ! c)"
  have ids: "server_ids team ?p = set (if team then ids2 else ids1)" for team
    using g(2) t(2) by (simp add: server_ids_def)
  have "knows decode team (server_ids team ?p) (s_conn (sess ?p (rc_session (rclients ?p ! d))))"
    if e: "(i, d) \<in> set (portalClients r)" for i d team
  proof (cases "rc_session (rclients r ! d) = ?s")
    case True
    then have "sess ?p (rc_session (rclients ?p ! d))
        = session_Send (PackSSMessage m2) (session_Send (PackSSMessage m1) (sess r ?s))" by simp
    then show ?thesis unfolding ids using knows_two [OF g(3) t(3,4)] by (simp only:)
  next
    case False
    then have "d \<noteq> c" by auto
    then have "knows decode team (server_ids team r) (s_conn (sess r (rc_session (rclients r ! d))))"
      using e by (intro others)
    then show ?thesis using False by (cases team) (simp_all add: server_ids_def)
  qed
  then have "half_inv decode team ?p" for team
    unfolding half_inv_def client_SendMsg_frame(1) by blast
  then have "view_inv decode ?p" by (simp only: view_inv_def)
  then show ?thesis by (simp add: g(1) t(1))
qed

lemma view_inv_portal_handleReady:
  assumes "reg_inv r" and "view_inv decode r" and "ok_env env" and "pb_faithful (pb_encode env) decode"
  shows "view_inv decode (portal_handleReady env s msg r)"
proof -
  obtain c q where p: "newRouterClient s (SrcID (ss_Head msg)) EntityType_Portal r = (c, q)" by fastforce
  let ?l = "login s c q" and ?a = "AddPortalClient c (login s c q)"
  have l: "reg_inv ?l" by (rule reg_inv_login [OF assms(1) p])
  then have a: "reg_inv ?a"
    using newRouterClient_new [OF assms(1) p] by (intro reg_inv_Add l) simp_all
  have "half_inv decode team ?l" for team
    using assms(2) by (cases team) (simp_all add: view_inv_def half_inv_login [OF assms(1) _ p])
  then have k: "knows decode team (server_ids team ?l) (s_conn (sess ?l (rc_session (rclients ?l ! d))))"
    if "(i, d) \<in> set (portalClients ?l)" for i d team
    using that by (auto simp: half_inv_def simp del: on_session_frame)
  have fr: "rclients ?a = rclients ?l" "server_ids team ?a = server_ids team ?l" for team
    by (simp_all add: AddPortalClient_def Let_def server_ids_def)
  have qu: "quiet decode (s_conn (sess ?l t)) (s_conn (sess ?a t))" for t
    using closing_quiet by (simp add: AddPortalClient_def Let_def del: on_session_frame)
  have "distinct (map fst (portalClients ?l))" using l by (simp add: reg_inv_def entries_ok_def)
  then have es: "d = c \<or> (i, d) \<in> set (portalClients ?l)" if "(i, d) \<in> set (portalClients ?a)" for i d
    using that by (auto simp: AddPortalClient_def Let_def set_update_distinct)
  have "knows decode team (server_ids team ?a) (s_conn (sess ?a (rc_session (rclients ?a ! d))))"
    if "(i, d) \<in> set (portalClients ?a)" "d \<noteq> c" for i d team
    unfolding fr using es [OF that(1)] that(2) k [of i d team] qu by (auto intro: quiet_knows simp del: on_session_frame)
  from view_inv_notify [OF a assms(3,4), of c, OF this] show ?thesis
    by (simp add: portal_handleReady_def Let_def p)
qed

lemma view_inv_portal_handleClosed:
  assumes "reg_inv r" and "view_inv decode r"
  shows "view_inv decode (portal_handleClosed s r)"
proof -
  let ?q = "on_session s (\<lambda>x. x\<lparr>Userdata := None\<rparr>) r"
  have q: "reg_inv ?q" using assms(1) by (intro reg_inv_Userdata) simp_all
  have "view_inv decode ?q" using assms by (rule view_inv_hush) (rule hush_on_session, simp)
  then have "half_inv decode team (RemovePortalClient c ?q)" for c team
    using half_inv_quiet [OF q, of decode team "RemovePortalClient c ?q"]
    by (cases team) (auto simp: view_inv_def RemovePortalClient_def Let_def server_ids_def AList.delete_eq)
  then show ?thesis
    using assms(2) by (simp add: portal_handleClosed_def view_inv_def split: option.split)
qed

lemma view_inv_cnt: "view_inv decode (r\<lparr>msgToPortalCnt := x\<rparr>) = view_inv decode r"
  by (simp add: view_inv_def half_inv_def server_ids_def)

lemma hush_Statistics: "hush decode r (Statistics env r)"
  using keeps_Statistics [of r env] by (simp add: hush_def keeps_def)

lemma view_inv_step:
  assumes "router_step encode r r'" and "pb_faithful encode decode" and "reg_inv r" and "view_inv decode r"
  shows "view_inv decode r'"
  using assms
proof (induction rule: router_step.induct)
  case (internal_message env r s msg)
  then have "view_inv decode (internal_handleVerifyMsg env c msg r)" for c
    by (blast intro: view_inv_hush hush_handleVerifyMsg)
  then show ?case
    using internal_message
    by (simp add: internal_handleMessage_def view_inv_internal_handleReady split: option.split)
next
  case (portal_message env r s msg)
  then have "view_inv decode (portal_handleVerifyMsg env c msg r)" for c
    by (blast intro: view_inv_hush hush_handleVerifyMsg)
  then show ?case
    using portal_message
    by (simp add: portal_handleMessage_def Let_def view_inv_cnt view_inv_portal_handleReady split: option.split)
next
  case (statistics env r)
  then show ?case by (blast intro: view_inv_hush hush_Statistics)
next
  case (deadline r s)
  then show ?case by (blast intro: view_inv_hush hush_on_session quiet_session)
next
  case (arrival r s t b)
  have "hush decode r (on_session s (\<lambda>x. snd (proxy_Receive t b x)) r)" by (rule hush_on_session) simp
  with arrival show ?case by (blast intro: view_inv_hush)
next
  case (conn r s c)
  then have "hush decode r (on_session s (\<lambda>x. x\<lparr>s_conn := c\<rparr>) r)" by (simp add: hush_def quiet_conn)
  with conn show ?case by (blast intro: view_inv_hush)
qed (simp_all add: view_inv_internal_handleClosed view_inv_portal_handleClosed)

lemma reachable_view_inv:
  assumes "(router_step encode)\<^sup>*\<^sup>* NewServer r" and "pb_faithful encode decode"
  shows "view_inv decode r"
  using assms(1)
proof (induction rule: rtranclp_induct)
  case base
  show ?case by (simp add: view_inv_def half_inv_def NewServer_def)
next
  case (step r r')
  then show ?case using view_inv_step assms(2) reachable_reg_inv by blast
qed

end
