(* ===== verification/RouterProps.thy ===== *)
theory RouterProps
  imports RouterSync
begin

text \<open>
  The properties of the router, on the model of \<open>RouterServer\<close> and the system of \<open>RouterSync\<close>.
\<close>

section \<open>Lemmas on registration\<close>

lemma Send_n_fields:
  "verified ((session_Send b ^^ n) x) = verified x" "Userdata ((session_Send b ^^ n) x) = Userdata x"
  "verifyTimer ((session_Send b ^^ n) x) = verifyTimer x"
  by (induction n) (simp_all add: session_Send_def)

lemma broadcast_sess [simp]:
  "closed (s_conn (sess (BroadcastPortals env m r) t)) = closed (s_conn (sess r t))"
  "verified (sess (BroadcastPortals env m r) t) = verified (sess r t)"
  "Userdata (sess (BroadcastPortals env m r) t) = Userdata (sess r t)"
  "gameClients (BroadcastPortals env m r) = gameClients r"
  "teamClients (BroadcastPortals env m r) = teamClients r"
  "portalClients (BroadcastPortals env m r) = portalClients r"
  "rc_id (rclients (BroadcastPortals env m r) ! c) = rc_id (rclients r ! c)"
  "rc_session (rclients (BroadcastPortals env m r) ! c) = rc_session (rclients r ! c)"
  "svrType (rclients (BroadcastPortals env m r) ! c) = svrType (rclients r ! c)"
  by (simp_all add: BroadcastPortals_def send_all_sess Send_n Send_n_fields)

lemma send_keeps [simp]:
  "closed (s_conn (session_Send b x)) = closed (s_conn x)" "verified (session_Send b x) = verified x"
  by (simp_all add: session_Send_def Send_def)

lemma Verify_keeps [simp]: "s_conn (Verify x) = s_conn x"
  by (simp add: Verify_def split: prod.split bool.split)

lemma Shutdown_keeps [simp]:
  "verified (session_Shutdown x) = verified x" "closed (s_conn (session_Shutdown x))"
  by (simp_all add: session_Shutdown_def Let_def)

text \<open>The registration of a game server: who is registered, and the session it came on.\<close>

lemma game_ready:
  fixes r :: router and s :: nat and env :: router_env and msg :: SSMessage
  assumes "SrcType (ss_Head msg) = EntityType_GameSvr"
  defines "i \<equiv> SrcID (ss_Head msg)" and "c \<equiv> length (rclients r)" and "r' \<equiv> internal_handleReady env s msg r"
  shows "GetGameClient j r' = (if j = i then Some c else GetGameClient j r)"
    and "rc_session (rclients r' ! c) = s" "rc_id (rclients r' ! c) = i"
    and "svrType (rclients r' ! c) = EntityType_GameSvr"
    and "verified (sess r' t) = verified (if t = s then Verify (sess r s) else sess r t)"
    and "Userdata (sess r' t) = (if t = s then Some c else Userdata (sess r t))"
  using assms(1)
  by (simp_all add: internal_handleReady_def newRouterClient_def AddGameClient_def Let_def i_def c_def r'_def
      nth_append GetGameClient_def update_conv' split: option.split)

lemma game_ready_closed:
  fixes r :: router and s :: nat and env :: router_env and msg :: SSMessage
  assumes "SrcType (ss_Head msg) = EntityType_GameSvr" and "reg_inv r"
  shows "closed (s_conn (sess (internal_handleReady env s msg r) t)) \<longleftrightarrow> closed (s_conn (sess r t))
    \<or> (\<exists>old. GetGameClient (SrcID (ss_Head msg)) r = Some old \<and> rc_session (rclients r ! old) = t)"
proof -
  have "old < length (rclients r)" if "GetGameClient i r = Some old" for i old
    using that assms(2) by (auto simp: GetGameClient_def reg_inv_def entries_ok_def dest: map_of_SomeD)
  then show ?thesis
    using assms(1)
    by (auto simp: internal_handleReady_def newRouterClient_def AddGameClient_def Let_def
        nth_append GetGameClient_def split: option.split)
qed

lemma portal_ready:
  fixes r :: router and s :: nat and env :: router_env and msg :: SSMessage
  defines "r' \<equiv> portal_handleReady env s msg r"
  shows "GetPortalClient j r' = (if j = SrcID (ss_Head msg) then Some (length (rclients r)) else GetPortalClient j r)"
    and "rc_session (rclients r' ! length (rclients r)) = s"
    and "verified (sess r' t) = verified (if t = s then Verify (sess r s) else sess r t)"
    and "gameClients r' = gameClients r" "teamClients r' = teamClients r"
  by (simp_all add: r'_def portal_handleReady_def newRouterClient_def AddPortalClient_def Let_def
      nth_append GetPortalClient_def update_conv' split: option.split)

lemma portal_ready_closed:
  fixes r :: router and s :: nat and env :: router_env and msg :: SSMessage
  assumes "reg_inv r"
  shows "closed (s_conn (sess (portal_handleReady env s msg r) t)) \<longleftrightarrow> closed (s_conn (sess r t))
    \<or> (\<exists>old. GetPortalClient (SrcID (ss_Head msg)) r = Some old \<and> rc_session (rclients r ! old) = t)"
proof -
  have "old < length (rclients r)" if "GetPortalClient i r = Some old" for i old
    using that assms by (auto simp: GetPortalClient_def reg_inv_def entries_ok_def dest: map_of_SomeD)
  then show ?thesis
    by (auto simp: portal_handleReady_def newRouterClient_def AddPortalClient_def Let_def
        nth_append GetPortalClient_def split: option.split)
qed

section \<open>Addressees\<close>

text \<open>Who is to get a message, read off its head: the registered client with the destination's
  id, or all clients of the destination type.\<close>

definition chosen :: "SSMessage \<Rightarrow> (u16 \<times> nat) list \<Rightarrow> (u16 \<times> nat) list" where
  "chosen msg xs =
     (if TransType (ss_Head msg) = TransType_ByKey then filter (\<lambda>(i, _). i = DstID (ss_Head msg)) xs
      else if TransType (ss_Head msg) = TransType_Broadcast then xs else [])"

definition portal_addressees :: "SSMessage \<Rightarrow> router \<Rightarrow> nat list" where
  "portal_addressees msg r = sessions_of r (chosen msg
     (if DstType (ss_Head msg) = EntityType_GameSvr then gameClients r
      else if DstType (ss_Head msg) = EntityType_TeamSvr then teamClients r else []))"

definition internal_addressees :: "SSMessage \<Rightarrow> router \<Rightarrow> nat list" where
  "internal_addressees msg r = sessions_of r (chosen msg (portalClients r))"

lemma filter_key:
  "distinct (map fst xs) \<Longrightarrow>
    filter (\<lambda>(i, _). i = k) xs = (case map_of xs k of None \<Rightarrow> [] | Some c \<Rightarrow> [(k, c)])"
proof (induction xs)
  case (Cons x xs)
  have "k \<notin> fst ` set xs \<Longrightarrow> filter (\<lambda>(i, _). i = k) xs = []" by (force simp: filter_empty_conv)
  with Cons show ?case by (cases x) auto
qed simp

lemma forward_chosen:
  assumes "ok_env env" and "distinct (map fst xs)"
  shows "sess (if TransType (ss_Head msg) = TransType_ByKey
        then (case map_of xs (DstID (ss_Head msg)) of None \<Rightarrow> r | Some c \<Rightarrow> client_SendMsg c msg r)
        else if TransType (ss_Head msg) = TransType_Broadcast then send_all msg (range_order env xs) r else r) t
    = (session_Send (PackSSMessage msg) ^^ count_list (sessions_of r (chosen msg xs)) t) (sess r t)"
  using count_sessions_order [OF assms(1), of r xs t]
  by (simp add: chosen_def filter_key [OF assms(2)] send_all_sess split: option.split)
    (simp add: sessions_of_def)

section \<open>A run\<close>

text \<open>Protobuf's stand-in: the server type and the ids as 32-bit words.\<close>

definition demo_pb :: "MessageSyncServer \<Rightarrow> byte list option" where
  "demo_pb m = Some (concat (map be_PutUint32 (ServerType m # ServerIDs m)))"

fun words_of :: "byte list \<Rightarrow> u32 list" where
  "words_of (a # b # c # d # rest) = be_Uint32 [a, b, c, d] # words_of rest"
| "words_of _ = []"

definition demo_unpb :: "byte list \<Rightarrow> MessageSyncServer option" where
  "demo_unpb b = (case words_of b of [] \<Rightarrow> None | ty # ids \<Rightarrow> Some \<lparr>ServerIDs = ids, ServerType = ty\<rparr>)"

lemma words_of_Put: "words_of (be_PutUint32 w @ rest) = w # words_of rest"
  using be_Uint32_PutUint32 [of w] by (simp add: be_PutUint32_def)

lemma demo_pb_faithful: "pb_faithful demo_pb demo_unpb"
proof -
  have "words_of (concat (map be_PutUint32 ws)) = ws" for ws
    by (induction ws) (simp_all add: words_of_Put)
  then show ?thesis
    by (simp add: pb_faithful_def demo_pb_def demo_unpb_def del: concat.simps list.map)
qed

definition demo_env :: router_env where
  "demo_env = \<lparr>conf_ServerID = 1, pb_encode = demo_pb, range_order = rev\<rparr>"

lemma demo_env_ok: "ok_env demo_env" "pb_encode demo_env = demo_pb"
  by (simp_all add: ok_env_def demo_env_def)

definition ready :: "byte \<Rightarrow> u16 \<Rightarrow> SSMessage" where
  "ready ty i = \<lparr>ss_Head = \<lparr>SSCmd = SSCMD_READY, TransType = 0, SrcType = ty, DstType = 0, SrcID = i, DstID = 0\<rparr>, ss_Body = []\<rparr>"

text \<open>Portal 7 registers on session 0, then game server 5 on session 1.\<close>

definition demo_portal :: router where
  "demo_portal = portal_handleMessage demo_env 0 (ready EntityType_Portal 7) NewServer"

definition demo_both :: router where
  "demo_both = internal_handleMessage demo_env 1 (ready EntityType_GameSvr 5) demo_portal"

lemma demo_reachable:
  "(router_step demo_pb)\<^sup>*\<^sup>* NewServer demo_portal" "(router_step demo_pb)\<^sup>*\<^sup>* NewServer demo_both"
proof -
  show p: "(router_step demo_pb)\<^sup>*\<^sup>* NewServer demo_portal"
    unfolding demo_portal_def using demo_env_ok by (intro r_into_rtranclp router_step.portal_message)
  show "(router_step demo_pb)\<^sup>*\<^sup>* NewServer demo_both"
    using p unfolding demo_both_def
    by (rule rtranclp.rtrancl_into_rtrancl) (intro router_step.internal_message demo_env_ok)
qed

lemma ready_head [simp]: "SSCmd (ss_Head (ready ty i)) = SSCMD_READY" "SrcType (ss_Head (ready ty i)) = ty"
    "SrcID (ss_Head (ready ty i)) = i"
  by (simp_all add: ready_def)

lemma demo_portal_ready: "demo_portal = (portal_handleReady demo_env 0 (ready EntityType_Portal 7) NewServer)\<lparr>msgToPortalCnt := 1\<rparr>"
  by (simp add: demo_portal_def portal_handleMessage_def Let_def)
    (simp add: portal_handleReady_def newRouterClient_def AddPortalClient_def Let_def NewServer_def
      client_SendMsg_def on_session_def split: option.split)

lemma demo_both_ready: "demo_both = internal_handleReady demo_env 1 (ready EntityType_GameSvr 5) demo_portal"
  by (simp add: demo_both_def internal_handleMessage_def)

lemma demo_tables:
  "portalClients demo_portal = [(7, 0)]" "gameClients demo_portal = []"
  "portalClients demo_both = [(7, 0)]" "gameClients demo_both = [(5, 1)]"
  "rc_session (rclients demo_both ! 0) = 0" "rc_session (rclients demo_both ! 1) = 1"
  "\<not> closed (s_conn (sess demo_portal t))" "\<not> closed (s_conn (sess demo_both t))"
  "rc_session (rclients demo_portal ! 0) = 0" "length (rclients demo_portal) = 1"
  "length (rclients demo_both) = 2" "verified (sess demo_both 1)" "Userdata (sess demo_both 1) = Some 1"
  "verifyTimer (sess demo_both 2) = TimerRunning" "\<not> verified (sess demo_both 2)"
proof -
  note defs = portal_handleReady_def internal_handleReady_def newRouterClient_def AddPortalClient_def
    AddGameClient_def Let_def NewServer_def newSession_def newTCPConnection_def BroadcastPortals_def
  show p: "portalClients demo_portal = [(7, 0)]" "gameClients demo_portal = []"
    "\<not> closed (s_conn (sess demo_portal t))" "rc_session (rclients demo_portal ! 0) = 0"
    "length (rclients demo_portal) = 1" for t
    by (simp_all add: demo_portal_ready defs split: option.split)
  have "verifyTimer (sess demo_portal 1) = TimerRunning" "verifyTimer (sess demo_portal 2) = TimerRunning"
    "\<not> verified (sess demo_portal 1)" "\<not> verified (sess demo_portal 2)"
    by (simp_all add: demo_portal_ready defs split: option.split)
  then show "portalClients demo_both = [(7, 0)]" "gameClients demo_both = [(5, 1)]"
    "rc_session (rclients demo_both ! 0) = 0" "rc_session (rclients demo_both ! 1) = 1"
    "\<not> closed (s_conn (sess demo_both t))" "length (rclients demo_both) = 2" "verified (sess demo_both 1)"
    "Userdata (sess demo_both 1) = Some 1"
    "verifyTimer (sess demo_both 2) = TimerRunning" "\<not> verified (sess demo_both 2)" for t
    using p
    by (simp_all add: demo_both_ready defs Send_n_fields Send_n send_all_sess Verify_def stop_timer_def nth_append
        split: option.split)
qed

lemma portals_view:
  assumes "(router_step encode)\<^sup>*\<^sup>* NewServer r" and "pb_faithful encode decode"
    and "GetPortalClient i r = Some c" and "conn = s_conn (sess r (rc_session (rclients r ! c)))"
    and "\<not> closed conn"
  shows "\<exists>games teams. view decode False (accepted conn) = Some games
      \<and> view decode True (accepted conn) = Some teams
      \<and> set games = {ucast j | j. GetGameClient j r \<noteq> None}
      \<and> set teams = {ucast j | j. GetTeamClient j r \<noteq> None}"
proof -
  have "(i, c) \<in> set (portalClients r)" using assms(3) by (simp add: GetPortalClient_def map_of_SomeD)
  then have "knows decode team (server_ids team r) conn" for team
    using reachable_view_inv [OF assms(1,2)] unfolding assms(4)
    by (cases team) (auto simp: view_inv_def half_inv_def)
  then obtain games teams where
      "view decode False (accepted conn) = Some games" "set games = server_ids False r"
      "view decode True (accepted conn) = Some teams" "set teams = server_ids True r"
    using assms(5) unfolding knows_def by metis
  moreover have "server_ids False r = {ucast j | j. GetGameClient j r \<noteq> None}"
    by (force simp: server_ids_def GetGameClient_def map_of_eq_None_iff)
  moreover have "server_ids True r = {ucast j | j. GetTeamClient j r \<noteq> None}"
    by (force simp: server_ids_def GetTeamClient_def map_of_eq_None_iff)
  ultimately show ?thesis by auto
qed

section \<open>Properties\<close>

text \<open>
  C2: the portals know the servers. In every reachable state, for every registered portal
  whose connection still accepts messages, the synchronisation messages it was sent tell it
  exactly the ids of the game servers and of the team servers registered now: no interleaving
  of registrations, disconnections, forwarded messages and time-outs leaves a portal with an
  old list, and the order in which Go visits the maps does not matter. Protobuf is assumed to
  encode this message without error and to decode what it encoded.
\<close>

theorem portals_know_the_servers:
  assumes "(router_step encode)\<^sup>*\<^sup>* NewServer r" and "pb_faithful encode decode"
    and "GetPortalClient i r = Some c" and "conn = s_conn (sess r (rc_session (rclients r ! c)))"
    and "\<not> closed conn"
  shows "\<exists>games teams. view decode False (accepted conn) = Some games
      \<and> view decode True (accepted conn) = Some teams
      \<and> set games = {ucast j | j. GetGameClient j r \<noteq> None}
      \<and> set teams = {ucast j | j. GetTeamClient j r \<noteq> None}"
  by (rule portals_view [OF assms])

theorem portals_know_the_servers_witness:
  "\<exists>games. view demo_unpb False (accepted (s_conn (sess demo_both 0))) = Some games \<and> set games = {5}"
  using portals_know_the_servers [OF demo_reachable(2) demo_pb_faithful, of 7 0]
  by (auto simp: GetPortalClient_def GetGameClient_def demo_tables)

text \<open>
  C27: the registries are consistent in every reachable state: what is registered under an id
  is a client object with that id and of the right kind, and the user data of a session is a
  client object of that very session.
\<close>

theorem registries_are_consistent:
  assumes "(router_step encode)\<^sup>*\<^sup>* NewServer r"
  shows "(GetPortalClient i r = Some c \<longrightarrow> c < length (rclients r)
        \<and> rc_id (rclients r ! c) = i \<and> svrType (rclients r ! c) = EntityType_Portal)
    \<and> (GetGameClient i r = Some c \<longrightarrow> c < length (rclients r)
        \<and> rc_id (rclients r ! c) = i \<and> svrType (rclients r ! c) = EntityType_GameSvr)
    \<and> (GetTeamClient i r = Some c \<longrightarrow> c < length (rclients r)
        \<and> rc_id (rclients r ! c) = i \<and> svrType (rclients r ! c) = EntityType_TeamSvr)
    \<and> (Userdata (sess r s) = Some c \<longrightarrow> c < length (rclients r) \<and> rc_session (rclients r ! c) = s)"
  using reachable_reg_inv [OF assms]
  by (auto simp: reg_inv_def entries_ok_def users_ok_def GetPortalClient_def GetGameClient_def
      GetTeamClient_def dest: map_of_SomeD)

theorem registries_are_consistent_witness:
  "rc_id (rclients demo_both ! 1) = 5 \<and> svrType (rclients demo_both ! 1) = EntityType_GameSvr"
  using registries_are_consistent [OF demo_reachable(2), of 5 1]
  by (simp add: GetGameClient_def demo_tables)

text \<open>
  C28: a message is forwarded to its addressees and to no one else. On both sides, by key and
  by broadcast, with known and unknown destinations, the handler sends each session the packed
  message unchanged, once per registration it is addressed to, and leaves the registries
  alone; in particular a message with no addressee is dropped.
\<close>

theorem forwarding_reaches_exactly_the_addressees:
  assumes "(router_step encode)\<^sup>*\<^sup>* NewServer r" and "ok_env env"
  shows "sess (portal_handleMsg env c msg r) t
      = (session_Send (PackSSMessage msg) ^^ count_list (portal_addressees msg r) t) (sess r t)
    \<and> sess (internal_handleMsg env c msg r) t
      = (session_Send (PackSSMessage msg) ^^ count_list (internal_addressees msg r) t) (sess r t)
    \<and> keeps r (portal_handleMsg env c msg r) \<and> keeps r (internal_handleMsg env c msg r)"
proof -
  have "reg_inv r" using assms(1) by (rule reachable_reg_inv)
  then have d: "distinct (map fst (portalClients r))" "distinct (map fst (gameClients r))"
      "distinct (map fst (teamClients r))"
    by (simp_all add: reg_inv_def entries_ok_def)
  have "sess (internal_handleMsg env c msg r) t
      = (session_Send (PackSSMessage msg) ^^ count_list (internal_addressees msg r) t) (sess r t)"
    using forward_chosen [OF assms(2) d(1), of msg r t]
    by (simp only: internal_handleMsg_def internal_addressees_def Let_def GetPortalClient_def BroadcastPortals_def)
  moreover have "sess (portal_handleMsg env c msg r) t
      = (session_Send (PackSSMessage msg) ^^ count_list (portal_addressees msg r) t) (sess r t)"
  proof -
    let ?ts = "if DstType (ss_Head msg) = EntityType_GameSvr then gameClients r
      else if DstType (ss_Head msg) = EntityType_TeamSvr then teamClients r else []"
    have "range_order env [] = []" using assms(2) by (metis ok_env_def mset.simps(1) mset_zero_iff)
    then have "portal_handleMsg env c msg r
        = (if TransType (ss_Head msg) = TransType_ByKey
           then (case map_of ?ts (DstID (ss_Head msg)) of None \<Rightarrow> r | Some c \<Rightarrow> client_SendMsg c msg r)
           else if TransType (ss_Head msg) = TransType_Broadcast then send_all msg (range_order env ?ts) r else r)"
      by (simp add: portal_handleMsg_def Let_def GetGameClient_def GetTeamClient_def
          BroadcastGames_def BroadcastTeams_def)
    moreover have "distinct (map fst ?ts)" using d by simp
    ultimately show ?thesis
      using forward_chosen [OF assms(2), of ?ts msg r t] by (simp only: portal_addressees_def)
  qed
  ultimately show ?thesis by simp
qed

definition to_game :: "u16 \<Rightarrow> SSMessage" where
  "to_game i = \<lparr>ss_Head = \<lparr>SSCmd = SSCMD_MSG, TransType = TransType_ByKey, SrcType = EntityType_Portal,
     DstType = EntityType_GameSvr, SrcID = 7, DstID = i\<rparr>, ss_Body = [1, 2]\<rparr>"

theorem forwarding_reaches_exactly_the_addressees_witness:
  "sess (portal_handleMsg demo_env 0 (to_game 5) demo_both) 1
     = session_Send (PackSSMessage (to_game 5)) (sess demo_both 1)
   \<and> sess (portal_handleMsg demo_env 0 (to_game 6) demo_both) 1 = sess demo_both 1"
  using forwarding_reaches_exactly_the_addressees [OF demo_reachable(2) demo_env_ok(1), of 0 "to_game 5" 1]
    forwarding_reaches_exactly_the_addressees [OF demo_reachable(2) demo_env_ok(1), of 0 "to_game 6" 1]
  by (simp add: portal_addressees_def chosen_def to_game_def demo_tables
      demo_tables(6) [unfolded One_nat_def] sessions_of_def go_consts)



text \<open>
  C30: a replaced game server takes its successor down with it. When a game server reconnects
  on session \<open>s2\<close> under the id of the client on session \<open>s1\<close>, the new client is registered;
  but when the old session's disconnection is then handled, the id is removed without
  asking whose it is: the new server is connected and verified, and no longer registered.
\<close>

theorem replaced_game_server_evicts_successor:
  assumes "IsVerified (sess r s1)" and "Userdata (sess r s1) = Some c" and "s1 \<noteq> s2"
    and "svrType (rclients r ! c) = EntityType_GameSvr" and "c < length (rclients r)"
    and "\<not> IsVerified (sess r s2)" and "verifyTimer (sess r s2) = TimerRunning"
    and "SrcType (ss_Head msg) = EntityType_GameSvr" and "SrcID (ss_Head msg) = rc_id (rclients r ! c)"
    and r': "r' = internal_handleReady env s2 msg r"
  shows "GetGameClient (rc_id (rclients r ! c)) r' = Some (length (rclients r))
    \<and> GetGameClient (rc_id (rclients r ! c)) (internal_handleClosed env s1 r') = None
    \<and> IsVerified (sess (internal_handleClosed env s1 r') s2)"
proof -
  note g = game_ready [OF assms(8), where r = r and s = s2 and env = env, folded r']
  have "same_ids (rclients r) (rclients r')"
    by (simp add: r' internal_handleReady_def newRouterClient_def AddGameClient_def Let_def same_ids_def
        nth_append assms(8) BroadcastPortals_def split: option.split)
  then have c: "rc_id (rclients r' ! c) = rc_id (rclients r ! c)" "svrType (rclients r' ! c) = EntityType_GameSvr"
    using assms(4,5) by (simp_all add: same_ids_def)
  have v: "verified (sess r' s1)" "Userdata (sess r' s1) = Some c" "verified (sess r' s2)"
    using assms(1-3,6,7) g(5,6) by (simp_all add: IsVerified_def Verify_def stop_timer_def)
  let ?q = "on_session s1 (\<lambda>x. x\<lparr>Userdata := None\<rparr>) r'"
  have "GetGameClient (rc_id (rclients r' ! c)) (RemoveGameClient c ?q) = None"
    using games.get_remove [of "rc_id (rclients r' ! c)" c ?q] by simp
  then have "GetGameClient (rc_id (rclients r ! c)) (internal_handleClosed env s1 r') = None"
    using v c by (simp add: internal_handleClosed_def Let_def IsVerified_def GetGameClient_def split: option.split)
  moreover have "IsVerified (sess (internal_handleClosed env s1 r') s2)"
    using v c assms(3)
    by (simp add: internal_handleClosed_def Let_def IsVerified_def RemoveGameClient_def split: option.split)
  ultimately show ?thesis using g(1) [of "rc_id (rclients r ! c)"] assms(9) by simp
qed

theorem replaced_game_server_evicts_successor_witness:
  "let r = internal_handleReady demo_env 2 (ready EntityType_GameSvr 5) demo_both
   in GetGameClient 5 r = Some 2 \<and> GetGameClient 5 (internal_handleClosed demo_env 1 r) = None"
proof -
  have "rc_id (rclients demo_both ! 1) = 5" "svrType (rclients demo_both ! 1) = EntityType_GameSvr"
    using reachable_reg_inv [OF demo_reachable(2)] by (simp_all add: reg_inv_def entries_ok_def demo_tables)
  then show ?thesis
    using replaced_game_server_evicts_successor [where r = demo_both and ?s1.0 = 1 and ?s2.0 = 2 and c = 1
        and msg = "ready EntityType_GameSvr 5" and env = demo_env, OF _ _ _ _ _ _ _ _ _ refl]
    by (simp add: demo_tables demo_tables(12,13) [unfolded One_nat_def] IsVerified_def Let_def)
qed

text \<open>
  \<open>handleReady\<close> does not look at whether \<open>Verify\<close> succeeded. A registration that arrives
  after the session's deadline fired (or after it was shut down unverified) is entered all the
  same, on a session that stays unverified; and when the session's disconnection is handled, the
  router does nothing: the dead registration stays in the map.
\<close>

lemma timed_out_registration_is_never_removed:
  assumes "\<not> IsVerified (sess r s)" and "verifyTimer (sess r s) \<noteq> TimerRunning"
    and "SrcType (ss_Head msg) = EntityType_GameSvr"
    and r': "r' = internal_handleReady env s msg r"
  shows "GetGameClient (SrcID (ss_Head msg)) r' = Some (length (rclients r))
    \<and> rc_session (rclients r' ! length (rclients r)) = s
    \<and> internal_handleClosed env s r' = r'"
proof -
  note g = game_ready [OF assms(3), where r = r and s = s and env = env, folded r']
  have "\<not> verified (sess r' s)"
    using assms(1,2) g(5) [of s]
    by (cases "verifyTimer (sess r s)") (simp_all add: IsVerified_def Verify_def stop_timer_def)
  then show ?thesis
    using g(1) [of "SrcID (ss_Head msg)"] g(2) by (simp add: internal_handleClosed_def IsVerified_def)
qed

lemma timed_out_registration_is_never_removed_witness:
  "let r = internal_handleReady demo_env 2 (ready EntityType_GameSvr 9) (on_session 2 timer_fires demo_both)
   in GetGameClient 9 r = Some 2 \<and> internal_handleClosed demo_env 2 r = r"
  using timed_out_registration_is_never_removed [where r = "on_session 2 timer_fires demo_both"
      and s = 2 and msg = "ready EntityType_GameSvr 9" and env = demo_env, OF _ _ _ refl]
  by (simp add: demo_tables IsVerified_def timer_fires_def verifyTimeout_def)

text \<open>
  A repeated registration shuts down its own connection. When a portal that is registered
  under an id sends \<open>READY\<close> with that id again on the same session, the router closes "the
  existing server", which is the sender: the new registration's connection accepts no message
  any more, so neither the lists it should get nor anything later reaches it.
\<close>

lemma repeated_ready_closes_itself:
  assumes "(router_step encode)\<^sup>*\<^sup>* NewServer r"
    and "GetPortalClient (SrcID (ss_Head msg)) r = Some c" and "rc_session (rclients r ! c) = s"
    and r': "r' = portal_handleReady env s msg r"
  shows "GetPortalClient (SrcID (ss_Head msg)) r' = Some (length (rclients r))
    \<and> rc_session (rclients r' ! length (rclients r)) = s
    \<and> closed (s_conn (sess r' s)) \<and> session_Send b (sess r' s) = sess r' s"
proof -
  have "closed (s_conn (sess r' s))"
    using portal_ready_closed [OF reachable_reg_inv [OF assms(1)]] assms(2,3) by (auto simp: r')
  then show ?thesis
    using portal_ready [where r = r and s = s and env = env and msg = msg]
    by (simp add: r' session_Send_def Send_def)
qed

lemma repeated_ready_closes_itself_witness:
  "closed (s_conn (sess (portal_handleReady demo_env 0 (ready EntityType_Portal 7) demo_portal) 0))"
  using repeated_ready_closes_itself [OF demo_reachable(1), where c = 0 and s = 0
      and msg = "ready EntityType_Portal 7" and env = demo_env and b = "[]", OF _ _ refl]
  by (simp add: demo_tables GetPortalClient_def)

end
