(* ===== verification/GateClients.thy ===== *)
theory GateClients
  imports RouterSync HashRing "HOL-Library.Monad_Syntax"
begin

text \<open>
  The gate (\<open>gamegate/\<close>), first part: its state, the players' connections and the client
  manager of \<open>gamegate/client.go\<close>.

  The state holds the heap of objects by address (\<open>ClientTask\<close>, \<open>Router\<close> and \<open>IMSvr\<close>
  objects, only ever added; TCP connections by number) and the maps of the three managers.
  As in the hash ring a Go map is an association list with distinct keys, whose order stands
  for the order of a \<open>range\<close> over it. Every method that holds the manager's mutex is one step.
  An operation returns \<open>None\<close> where the Go code panics, and otherwise its results and the new
  state; errors are the codes of \<open>errcode\<close>, \<open>None\<close> being \<open>nil\<close>.

  What is not under src/ or comes from outside is in \<open>gate_env\<close>: the clock, the configuration,
  Redis' answers, protobuf's and JSON's coders, the random index, and the addresses of peers.
\<close>

section \<open>State\<close>

text \<open>\<open>cipher.Stream\<close>: a key stream and how much of it is used up.\<close>

record cipher =
  key_stream :: "nat \<Rightarrow> byte"
  key_pos :: nat

definition XORKeyStream :: "byte list \<Rightarrow> cipher \<Rightarrow> byte list \<times> cipher" where
  "XORKeyStream d c =
     (map (\<lambda>(i, b). b XOR key_stream c (key_pos c + i)) (enumerate 0 d),
      c\<lparr>key_pos := key_pos c + length d\<rparr>)"

record ClientTask =
  ct_conn :: nat
  Encoder :: "cipher option"
  Decoder :: "cipher option"
  AccountID :: u64
  GSID :: u16
  TSID :: u16
  Flag :: u32
  LastPacketTime :: int

text \<open>What an \<open>interface{}\<close> owner of a connection can hold: a task by value or by pointer.\<close>

datatype conn_owner = NoOwner | OwnerTask ClientTask | OwnerTaskPtr nat

record Router =
  r_addr :: string
  r_conn :: "nat option"

record IMSvr =
  im_addr :: string
  im_id :: u16
  im_status :: int
  im_conn :: "nat option"

record gate =
  conns :: "nat \<Rightarrow> tcpconn"
  conn_owners :: "nat \<Rightarrow> conn_owner"
  tasks :: "ClientTask list"
  mgr_clients :: "(u64 \<times> nat) list"
  routers :: "Router list"
  routerMgr :: "(u16 \<times> nat) list"
  crossRouterMgr :: "(u16 \<times> nat) list"
  routerMap :: "(string \<times> bool) list"
  svrList :: "(u16 \<times> int) list"
  teamIds :: "u16 list"
  imsvrs :: "IMSvr list"
  ims :: "(int \<times> string) list"
  imMap :: "(u16 \<times> nat) list"
  hashRing :: "hashring option"

datatype gate_pb = ErrorNoti ErrCode u32 int | Pong u32 int

record login_req =
  lr_AccountID :: u64
  lr_UserToken :: string
  lr_ClientVer :: string
  lr_ClientIP :: string

record group_noti =
  gn_AccountIDs :: "u64 list"
  gn_MsgID :: u32
  gn_MsgBody :: "byte list"

datatype user_loc = LocOk u16 | LocNil | LocErr

record gate_env =
  env_now :: int
  cfg_ServerID :: u16
  cfg_ZoneID :: int
  encode_pb :: "gate_pb \<Rightarrow> byte list option"
  encode_login :: "login_req \<Rightarrow> byte list option"
  decode_login :: "byte list \<Rightarrow> login_req option"
  decode_sync :: "byte list \<Rightarrow> MessageSyncServer option"
  decode_group :: "byte list \<Rightarrow> group_noti option"
  redis_token :: "u64 \<Rightarrow> string option"
  redis_loc :: "u64 \<Rightarrow> user_loc"
  remote_addr :: "nat \<Rightarrow> string"
  rand_Intn :: "nat \<Rightarrow> nat"
  env_md5 :: "byte list \<Rightarrow> byte list"

definition SESS_ENCRYPT :: u32 where "SESS_ENCRYPT = 2"
definition SESS_KICKED_OUT :: u32 where "SESS_KICKED_OUT = 4"
definition SESS_REPLACED :: u32 where "SESS_REPLACED = 16"
definition SESS_GAMESVR_CLOSE :: u32 where "SESS_GAMESVR_CLOSE = 32"

definition on_task :: "nat \<Rightarrow> (ClientTask \<Rightarrow> ClientTask) \<Rightarrow> gate \<Rightarrow> gate" where
  "on_task a f g = g\<lparr>tasks := (tasks g)[a := f (tasks g ! a)]\<rparr>"

definition gate_Send :: "nat \<Rightarrow> byte list \<Rightarrow> gate \<Rightarrow> bool \<times> gate" where
  "gate_Send cn b g = (let (ok, c) = Send [b] (conns g cn) in (ok, g\<lparr>conns := (conns g)(cn := c)\<rparr>))"

section \<open>A player's connection\<close>

definition SendCSMsg :: "nat \<Rightarrow> CSMessage \<Rightarrow> gate \<Rightarrow> (ErrCode option \<times> gate) option" where
  "SendCSMsg a csMsg g =
     do {
       data \<leftarrow> (case CSMessage_Marshal csMsg of Ret d \<Rightarrow> Some d | Err _ \<Rightarrow> Some [] | Panic \<Rightarrow> None);
       (data, g) \<leftarrow>
         (if Flag (tasks g ! a) AND SESS_ENCRYPT \<noteq> 0
          then (case Encoder (tasks g ! a) of
                  None \<Rightarrow> None
                | Some e \<Rightarrow> (let (d, e) = XORKeyStream data e in Some (d, on_task a (\<lambda>t. t\<lparr>Encoder := Some e\<rparr>) g)))
          else Some (data, g));
       let (ok, g) = gate_Send (ct_conn (tasks g ! a)) data g;
       Some (if ok then None else Some EC_NetworkFail, g)
     }"

definition gate_pb_type :: "gate_pb \<Rightarrow> pb_type" where
  "gate_pb_type m = (case m of ErrorNoti _ _ _ \<Rightarrow> T_MessageErrorNoti | Pong _ _ \<Rightarrow> T_MessagePong)"

definition SendMessageToMe ::
  "gate_env \<Rightarrow> nat \<Rightarrow> gate_pb \<Rightarrow> gate \<Rightarrow> (ErrCode option \<times> gate) option" where
  "SendMessageToMe env a msg g =
     (case Marshal gate_pb_type (encode_pb env) init_processor msg of
        Inl _ \<Rightarrow> Some (Some EC_MarshalFail, g)
      | Inr (bMsgBody, mid) \<Rightarrow>
          SendCSMsg a \<lparr>cs_Head = \<lparr>ch_MessageID = mid, ch_PacketNo = 0, ch_Version = 0\<rparr>, cs_Body = bMsgBody\<rparr> g)"

text \<open>Every error that reaches \<open>SendErrToMe\<close> is an \<open>ErrCode\<close>; its result is dropped.\<close>

definition SendErrToMe :: "gate_env \<Rightarrow> nat \<Rightarrow> ErrCode \<Rightarrow> u32 \<Rightarrow> gate \<Rightarrow> gate option" where
  "SendErrToMe env a code packetNo g =
     do { (_, g) \<leftarrow> SendMessageToMe env a (ErrorNoti code packetNo (env_now env)) g; Some g }"

definition task_Close :: "nat \<Rightarrow> gate \<Rightarrow> gate" where
  "task_Close a g =
     (let cn = ct_conn (tasks g ! a) in g\<lparr>conns := (conns g)(cn := Shutdown (conns g cn))\<rparr>)"

definition TerminateClient :: "nat \<Rightarrow> u32 \<Rightarrow> gate \<Rightarrow> gate" where
  "TerminateClient a flag g = task_Close a (on_task a (\<lambda>t. t\<lparr>Flag := Flag t OR flag\<rparr>) g)"

definition handlePing :: "gate_env \<Rightarrow> nat \<Rightarrow> u32 \<Rightarrow> gate \<Rightarrow> (ErrCode option \<times> gate) option" where
  "handlePing env a packetNo g = SendMessageToMe env a (Pong packetNo (env_now env)) g"

definition HookServerMessage :: "SSMessageBody \<Rightarrow> bool \<times> ErrCode option" where
  "HookServerMessage ssMsg = (True, None)"

section \<open>The client manager\<close>

definition mgr_Connect :: "gate_env \<Rightarrow> nat \<Rightarrow> gate \<Rightarrow> gate" where
  "mgr_Connect env cn g =
     (let a = length (tasks g)
      in g\<lparr>tasks := tasks g @ [\<lparr>ct_conn = cn, Encoder = None, Decoder = None, AccountID = 0, GSID = 0,
             TSID = 0, Flag = 0, LastPacketTime = env_now env\<rparr>],
           conn_owners := (conn_owners g)(cn := OwnerTaskPtr a)\<rparr>)"

definition mgr_Disconnect :: "nat \<Rightarrow> gate \<Rightarrow> gate" where
  "mgr_Disconnect cn g = g"

definition GetByID :: "u64 \<Rightarrow> gate \<Rightarrow> nat option" where
  "GetByID accountID g = map_of (mgr_clients g) accountID"

definition mgr_Add :: "nat \<Rightarrow> gate \<Rightarrow> gate" where
  "mgr_Add a g =
     (if AccountID (tasks g ! a) \<noteq> INVALID_ID
      then g\<lparr>mgr_clients := AList.update (AccountID (tasks g ! a)) a (mgr_clients g)\<rparr> else g)"

definition mgr_Remove :: "nat \<Rightarrow> gate \<Rightarrow> gate" where
  "mgr_Remove a g =
     (let i = AccountID (tasks g ! a)
      in case map_of (mgr_clients g) i of
           Some t \<Rightarrow> if t = a then g\<lparr>mgr_clients := AList.delete i (mgr_clients g)\<rparr> else g
         | None \<Rightarrow> g)"

fun send_to_tasks :: "CSMessage \<Rightarrow> nat list \<Rightarrow> gate \<Rightarrow> gate option" where
  "send_to_tasks csMsg [] g = Some g"
| "send_to_tasks csMsg (a # rest) g =
     do { (_, g) \<leftarrow> SendCSMsg a csMsg g; send_to_tasks csMsg rest g }"

definition BroadcastMsg :: "CSMessage \<Rightarrow> gate \<Rightarrow> gate option" where
  "BroadcastMsg csMsg g = send_to_tasks csMsg (map snd (mgr_clients g)) g"

definition mgr_Close :: "gate \<Rightarrow> gate" where
  "mgr_Close g = fold (\<lambda>(_, a). TerminateClient a (SESS_GAMESVR_CLOSE OR SESS_KICKED_OUT)) (mgr_clients g) g"

definition timeAction :: "gate_env \<Rightarrow> gate \<Rightarrow> gate" where
  "timeAction env g =
     (let late = filter (\<lambda>a. env_now env - LastPacketTime (tasks g ! a) > TCP_PING_TIMEOUT) (map snd (mgr_clients g))
      in fold (\<lambda>a g. mgr_Remove a (TerminateClient a SESS_KICKED_OUT g)) late g)"

definition ServerClose :: "u16 \<Rightarrow> gate \<Rightarrow> gate" where
  "ServerClose svrID g =
     fold (\<lambda>a. TerminateClient a SESS_GAMESVR_CLOSE)
       (filter (\<lambda>a. GSID (tasks g ! a) = svrID) (map snd (mgr_clients g))) g"

end
