(* ===== verification/GateRouters.thy ===== *)
theory GateRouters
  imports GateClients
begin

text \<open>
  The gate, second part: \<open>gamegate/router.go\<close>, its connections to the routers and what it
  knows of the game and team servers behind them.
\<close>

section \<open>Which server is behind which router\<close>

text \<open>\<open>util.IsInt32InSlice\<close>, and its four siblings for the other element types.\<close>

fun in_slice :: "'a list \<Rightarrow> 'a \<Rightarrow> bool" where
  "in_slice [] value = False"
| "in_slice (x # xs) value = (if x = value then True else in_slice xs value)"

definition IsInt32InSlice :: "u32 list \<Rightarrow> u32 \<Rightarrow> bool" where "IsInt32InSlice = in_slice"
definition IsUint32InSlice :: "u32 list \<Rightarrow> u32 \<Rightarrow> bool" where "IsUint32InSlice = in_slice"
definition IsInt64InSlice :: "u64 list \<Rightarrow> u64 \<Rightarrow> bool" where "IsInt64InSlice = in_slice"
definition IsUint64InSlice :: "u64 list \<Rightarrow> u64 \<Rightarrow> bool" where "IsUint64InSlice = in_slice"
definition IsStringInSlice :: "string list \<Rightarrow> string \<Rightarrow> bool" where "IsStringInSlice = in_slice"

definition set_servers :: "u32 list \<Rightarrow> nat \<Rightarrow> (u16 \<times> nat) list \<Rightarrow> (u16 \<times> nat) list" where
  "set_servers svrIds r m =
     fold (\<lambda>i. AList.update (ucast i) r) svrIds (filter (\<lambda>(_, vRouter). vRouter \<noteq> r) m)"

definition AddCrossRouterServer :: "u32 list \<Rightarrow> nat \<Rightarrow> gate \<Rightarrow> gate" where
  "AddCrossRouterServer svrIds r g =
     (let m = set_servers svrIds r (crossRouterMgr g)
      in g\<lparr>crossRouterMgr := m, teamIds := map fst m\<rparr>)"

text \<open>The closed servers' players are terminated in goroutines of their own; here in order.\<close>

definition AddRouterServer :: "u32 list \<Rightarrow> nat \<Rightarrow> gate \<Rightarrow> gate" where
  "AddRouterServer svrIds r g =
     (let oldSvrIds = map (\<lambda>(svrID, _). ucast svrID) (filter (\<lambda>(_, vRouter). vRouter = r) (routerMgr g));
          g = g\<lparr>routerMgr := set_servers svrIds r (routerMgr g)\<rparr>
      in fold (\<lambda>i. ServerClose (ucast i)) (filter (\<lambda>i. \<not> IsInt32InSlice svrIds i) oldSvrIds) g)"

definition RemoveSvrs :: "nat \<Rightarrow> gate \<Rightarrow> gate" where
  "RemoveSvrs r g =
     (let cross = filter (\<lambda>(_, vRouter). vRouter \<noteq> r) (crossRouterMgr g)
      in g\<lparr>routerMgr := filter (\<lambda>(_, vRouter). vRouter \<noteq> r) (routerMgr g),
           crossRouterMgr := cross, teamIds := map fst cross,
           routerMap := AList.delete (r_addr (routers g ! r)) (routerMap g)\<rparr>)"

definition GameSvrAlive :: "u16 \<Rightarrow> gate \<Rightarrow> bool" where
  "GameSvrAlive serverId g = (map_of (svrList g) serverId \<noteq> None)"

definition DispatchGameSvr :: "gate_env \<Rightarrow> gate \<Rightarrow> u16" where
  "DispatchGameSvr env g =
     (let availSirs = map fst (filter (\<lambda>(_, status). status = ServerStatusOpen) (svrList g))
      in if length availSirs \<le> 0 then 0 else availSirs ! rand_Intn env (length availSirs))"

section \<open>Messages from a router\<close>

definition router_sync :: "gate_env \<Rightarrow> nat \<Rightarrow> SSMessageBody \<Rightarrow> gate \<Rightarrow> gate" where
  "router_sync env r ssmsg g =
     (case decode_sync env (sb_Body ssmsg) of
        None \<Rightarrow> g
      | Some syncMsg \<Rightarrow>
          if ServerType syncMsg = EntityType_TeamSvr then AddCrossRouterServer (ServerIDs syncMsg) r g
          else AddRouterServer (ServerIDs syncMsg) r g)"

definition router_dispatch :: "SSMessageHead \<Rightarrow> SSMessageBody \<Rightarrow> gate \<Rightarrow> gate option" where
  "router_dispatch head ssMsg g =
     (let csMsg = \<lparr>cs_Head = \<lparr>ch_MessageID = sb_MessageID ssMsg, ch_PacketNo = sb_PacketNo ssMsg, ch_Version = 0\<rparr>,
                   cs_Body = sb_Body ssMsg\<rparr>
      in if TransType head = TransType_ByKey then
           (case GetByID (sb_DstAccountID ssMsg) g of
              None \<Rightarrow> Some g
            | Some client \<Rightarrow>
                (case HookServerMessage ssMsg of
                   (True, None) \<Rightarrow> do { (_, g) \<leftarrow> SendCSMsg client csMsg g; Some g }
                 | _ \<Rightarrow> Some g))
         else if TransType head = TransType_Broadcast then BroadcastMsg csMsg g
         else Some g)"

definition router_Receive :: "gate_env \<Rightarrow> nat \<Rightarrow> byte list \<Rightarrow> gate \<Rightarrow> gate option" where
  "router_Receive env r d g =
     (case UnpackSSMessage d of
        None \<Rightarrow> Some g
      | Some msg \<Rightarrow>
          (case SSMessageBody_UnMarshal (ss_Body msg) zero_body of
             (Ret _, body) \<Rightarrow>
               if SSCmd (ss_Head msg) = SSCMD_MSG then router_dispatch (ss_Head msg) body g
               else if SSCmd (ss_Head msg) = SSCMD_SYNC then Some (router_sync env r body g)
               else Some g
           | (Err _, _) \<Rightarrow> Some g
           | (Panic, _) \<Rightarrow> None))"

section \<open>Registration\<close>

text \<open>
  The message \<open>register\<close> sends, and its loop: it sends the same message every second for as
  long as sending succeeds. \<open>GetConnection\<close> returns nil between two connections, and \<open>Send\<close>
  on it panics (\<open>None\<close>). \<open>fuel\<close> bounds the rounds; \<open>None\<close> as error is \<open>nil\<close>, and the result
  is \<open>Some None\<close> when the fuel is used up before the loop ends.
\<close>

definition register_message :: "gate_env \<Rightarrow> SSMessage" where
  "register_message env = \<lparr>ss_Head = \<lparr>SSCmd = SSCMD_READY, TransType = 0, SrcType = EntityType_Portal,
     DstType = 0, SrcID = cfg_ServerID env, DstID = 0\<rparr>, ss_Body = []\<rparr>"

fun register_loop :: "nat \<Rightarrow> byte list \<Rightarrow> nat \<Rightarrow> gate \<Rightarrow> (nat option \<times> gate) option" where
  "register_loop 0 d r g = Some (None, g)"
| "register_loop (Suc fuel) d r g =
     (case r_conn (routers g ! r) of
        None \<Rightarrow> None
      | Some cn \<Rightarrow>
          let (ok, g) = gate_Send cn d g
          in if \<not> ok then Some (Some fuel, g) else register_loop fuel d r g)"

definition router_register :: "nat \<Rightarrow> gate_env \<Rightarrow> nat \<Rightarrow> gate \<Rightarrow> (nat option \<times> gate) option" where
  "router_register fuel env r g = register_loop fuel (PackSSMessage (register_message env)) r g"

definition NewRouter :: "string \<Rightarrow> gate \<Rightarrow> nat \<times> gate" where
  "NewRouter addr g = (length (routers g), g\<lparr>routers := routers g @ [\<lparr>r_addr = addr, r_conn = None\<rparr>]\<rparr>)"

text \<open>\<open>RouterInit\<close> connects to every configured router (\<open>Start\<close> only starts goroutines).\<close>

definition RouterInit :: "string list \<Rightarrow> string list \<Rightarrow> gate \<Rightarrow> bool \<times> gate" where
  "RouterInit routerAddrs crossRouterAddress g =
     (if length routerAddrs \<le> 0 then (False, g)
      else (True, fold (\<lambda>addr g. snd (NewRouter addr (g\<lparr>routerMap := AList.update addr True (routerMap g)\<rparr>)))
             (routerAddrs @ crossRouterAddress) g))"

section \<open>Refreshing the server lists from Redis\<close>

text \<open>
  \<open>json.Unmarshal\<close> into a \<open>map[string]int\<close> is the argument \<open>parse\<close>; a missing key reads as
  zero.
\<close>

definition json_int :: "(string \<times> int) list \<Rightarrow> string \<Rightarrow> int" where
  "json_int m k = (case map_of m k of Some v \<Rightarrow> v | None \<Rightarrow> 0)"

definition refreshGameSvrList ::
  "gate_env \<Rightarrow> (string \<Rightarrow> (string \<times> int) list option) \<Rightarrow> (string \<times> string) list \<Rightarrow> gate \<Rightarrow> gate" where
  "refreshGameSvrList env parse svrMap g =
     g\<lparr>svrList := fold (\<lambda>(i, d) l.
          case parse d of
            None \<Rightarrow> l
          | Some mData \<Rightarrow>
              if json_int mData ''zoneid'' \<noteq> cfg_ZoneID env then l
              else if env_now env - json_int mData ''timestamp'' > 15 then l
              else (case Atoi i of
                      None \<Rightarrow> l
                    | Some serverId \<Rightarrow> AList.update (word_of_int serverId) (json_int mData ''status'') l))
        svrMap []\<rparr>"

definition refresh_routers ::
  "gate_env \<Rightarrow> (string \<Rightarrow> (string \<times> int) list option) \<Rightarrow> (string \<times> string) list \<Rightarrow> gate \<Rightarrow> gate" where
  "refresh_routers env parse svrMap g =
     fold (\<lambda>(addr, d) g.
        case parse d of
          None \<Rightarrow> g
        | Some mData \<Rightarrow>
            if env_now env - json_int mData ''timestamp'' > 15 then g
            else if map_of (routerMap g) addr \<noteq> None then g
            else snd (NewRouter addr (g\<lparr>routerMap := AList.update addr True (routerMap g)\<rparr>)))
      svrMap g"

definition refreshRouterSvrList ::
  "gate_env \<Rightarrow> (string \<Rightarrow> (string \<times> int) list option) \<Rightarrow> (string \<times> string) list \<Rightarrow> (string \<times> string) list
   \<Rightarrow> gate \<Rightarrow> gate" where
  "refreshRouterSvrList env parse zone cross g =
     refresh_routers env parse cross (refresh_routers env parse zone g)"

end
