(* ===== verification/GateIM.thy ===== *)
theory GateIM
  imports GateRouters
begin

text \<open>
  The gate, third part: \<open>gamegate/imclient.go\<close>, its connections to the chat (IM) servers,
  which are spread over the accounts by the hash ring.
\<close>

section \<open>Finding a server\<close>

definition GetIMByAccountID :: "gate_env \<Rightarrow> u64 \<Rightarrow> gate \<Rightarrow> nat option" where
  "GetIMByAccountID env accountID g =
     (case hashRing g of
        None \<Rightarrow> None
      | Some h \<Rightarrow>
          (case GetNode (env_md5 env) (Itoa (sint accountID)) h of
             None \<Rightarrow> None
           | Some sid \<Rightarrow>
               let imID = (case Atoi sid of Some i \<Rightarrow> i | None \<Rightarrow> 0)
               in map_of (imMap g) (word_of_int imID)))"

definition GetIMByID :: "u16 \<Rightarrow> gate \<Rightarrow> nat option" where
  "GetIMByID imid g = map_of (imMap g) imid"

section \<open>The list of servers\<close>

text \<open>
  \<open>json.Unmarshal\<close> into a \<open>map[string]interface{}\<close>, of which \<open>timestamp\<close> must be a number and
  \<open>addr\<close> a string: the type assertions panic otherwise. \<open>JBad\<close> is an unmarshalling error.
\<close>

datatype json_im = JBad | JObject "int option" "string option"

definition NewIMSvr :: "u16 \<Rightarrow> string \<Rightarrow> IMSvr" where
  "NewIMSvr i addr = \<lparr>im_addr = addr, im_id = i, im_status = 0, im_conn = None\<rparr>"

fun live_ims ::
  "gate_env \<Rightarrow> (string \<Rightarrow> json_im) \<Rightarrow> (string \<times> string) list \<Rightarrow> (int \<times> string) list \<Rightarrow> (int \<times> string) list option" where
  "live_ims env parse [] l = Some l"
| "live_ims env parse ((i, d) # rest) l =
     (case parse d of
        JBad \<Rightarrow> live_ims env parse rest l
      | JObject None _ \<Rightarrow> None
      | JObject (Some timestamp) addr \<Rightarrow>
          if env_now env - timestamp > 15 then live_ims env parse rest l
          else (case Atoi i of
                  None \<Rightarrow> live_ims env parse rest l
                | Some serverId \<Rightarrow>
                    (case addr of
                       None \<Rightarrow> None
                     | Some a \<Rightarrow> live_ims env parse rest (AList.update serverId a l))))"

definition start_im :: "int \<times> string \<Rightarrow> gate \<Rightarrow> gate" where
  "start_im = (\<lambda>(sid, addr) g.
     g\<lparr>imsvrs := imsvrs g @ [NewIMSvr (word_of_int sid) addr],
       imMap := AList.update (word_of_int sid) (length (imsvrs g)) (imMap g)\<rparr>)"

definition refreshIMSvrList ::
  "gate_env \<Rightarrow> (string \<Rightarrow> json_im) \<Rightarrow> (string \<times> string) list \<Rightarrow> gate \<Rightarrow> gate option" where
  "refreshIMSvrList env parse svrMap g =
     (case live_ims env parse svrMap [] of
        None \<Rightarrow> None
      | Some newSvrlist \<Rightarrow>
          let new = filter (\<lambda>(sid, _). map_of (ims g) sid = None) newSvrlist;
              g = fold start_im new g;
              addNodes = map fst new
          in Some (if addNodes = [] then g
             else case hashRing g of
               None \<Rightarrow>
                 g\<lparr>ims := fold (\<lambda>sid. AList.update sid []) addNodes (ims g),
                   hashRing := Some (NewHashringWithWeights (env_md5 env)
                     (fold (\<lambda>sid. AList.update (Itoa sid) 1) addNodes []))\<rparr>
             | Some h \<Rightarrow>
                 g\<lparr>ims := fold (\<lambda>sid. AList.update sid []) addNodes (ims g),
                   hashRing := Some (fold (\<lambda>sid. AddNode (env_md5 env) (Itoa sid)) addNodes h)\<rparr>))"

section \<open>Messages to an IM server\<close>

text \<open>\<open>None\<close> as the whole result is a panic: \<open>Send\<close> on a nil connection.\<close>

definition im_sendMsg :: "nat \<Rightarrow> SSMessage \<Rightarrow> gate \<Rightarrow> (ErrCode option \<times> gate) option" where
  "im_sendMsg i ssMsg g =
     (case im_conn (imsvrs g ! i) of
        None \<Rightarrow> None
      | Some cn \<Rightarrow>
          let (ok, g) = gate_Send cn (PackSSMessage ssMsg) g
          in Some (if ok then None else Some EC_IMSvrNotFound, g))"

definition im_SendMsg :: "nat \<Rightarrow> SSMessage \<Rightarrow> gate \<Rightarrow> (ErrCode option \<times> gate) option" where
  "im_SendMsg i ssMsg g =
     (if im_status (imsvrs g ! i) = 0 then Some (Some EC_IMSvrNotFound, g) else im_sendMsg i ssMsg g)"

definition im_register :: "gate_env \<Rightarrow> nat \<Rightarrow> gate \<Rightarrow> (ErrCode option \<times> gate) option" where
  "im_register env i g =
     do { (e, g) \<leftarrow> im_sendMsg i (register_message env) g;
          Some (case e of Some _ \<Rightarrow> Some EC_MarshalFail | None \<Rightarrow> None, g) }"

definition im_close :: "gate_env \<Rightarrow> nat \<Rightarrow> gate \<Rightarrow> (ErrCode option \<times> gate) option" where
  "im_close env i g =
     do { (e, g) \<leftarrow> im_sendMsg i \<lparr>ss_Head = \<lparr>SSCmd = SSCMD_DISCONNECT, TransType = 0, SrcType = EntityType_Portal,
            DstType = 0, SrcID = cfg_ServerID env, DstID = 0\<rparr>, ss_Body = []\<rparr> g;
          Some (case e of
            Some code \<Rightarrow> (Some code, g)
          | None \<Rightarrow> (None, g\<lparr>imsvrs := (imsvrs g)[i := (imsvrs g ! i)\<lparr>im_status := 0\<rparr>]\<rparr>)) }"

section \<open>Messages from an IM server\<close>

fun relay_to_ims :: "SSMessageHead \<Rightarrow> byte list \<Rightarrow> nat list \<Rightarrow> gate \<Rightarrow> gate option" where
  "relay_to_ims head body [] g = Some g"
| "relay_to_ims head body (i # rest) g =
     (if SrcType head = EntityType_IM \<and> im_id (imsvrs g ! i) = SrcID head then relay_to_ims head body rest g
      else do { (_, g) \<leftarrow> im_SendMsg i
                  \<lparr>ss_Head = \<lparr>SSCmd = SSCMD_MSG, TransType = TransType_ByKey, SrcType = SrcType head,
                     DstType = EntityType_IM, SrcID = SrcID head, DstID = im_id (imsvrs g ! i)\<rparr>, ss_Body = body\<rparr> g;
                relay_to_ims head body rest g })"

definition cs_of :: "u16 \<Rightarrow> byte list \<Rightarrow> CSMessage" where
  "cs_of i body = \<lparr>cs_Head = \<lparr>ch_MessageID = i, ch_PacketNo = 0, ch_Version = 0\<rparr>, cs_Body = body\<rparr>"

definition im_dispatch ::
  "gate_env \<Rightarrow> SSMessageHead \<Rightarrow> SSMessageBody \<Rightarrow> gate \<Rightarrow> (ErrCode option \<times> gate) option" where
  "im_dispatch env head ssMsg g =
     (let transType = TransType head in
      if DstType head = EntityType_Portal then
        (if transType = TransType_ByKey then
           (case GetByID (sb_DstAccountID ssMsg) g of
              None \<Rightarrow> Some (Some EC_PlayerNoOnline, g)
            | Some client \<Rightarrow>
                (case HookServerMessage ssMsg of
                   (True, None) \<Rightarrow> do { (_, g) \<leftarrow> SendCSMsg client (cs_of (sb_MessageID ssMsg) (sb_Body ssMsg)) g; Some (None, g) }
                 | _ \<Rightarrow> Some (None, g)))
         else if transType = TransType_Broadcast then
           do { g \<leftarrow> BroadcastMsg (cs_of (sb_MessageID ssMsg) (sb_Body ssMsg)) g; Some (None, g) }
         else if transType = TransType_Group then
           (if sb_MessageID ssMsg \<noteq> MsgID_MessageGroupMsgNoti then Some (Some EC_ParameterInvalid, g)
            else case decode_group env (sb_Body ssMsg) of
              None \<Rightarrow> Some (Some EC_UnmarshalFail, g)
            | Some noti \<Rightarrow>
                do { g \<leftarrow> send_to_tasks (cs_of (ucast (gn_MsgID noti)) (gn_MsgBody noti))
                       (List.map_filter (\<lambda>a. GetByID a g) (gn_AccountIDs noti)) g;
                     Some (None, g) })
         else Some (Some EC_ParameterInvalid, g))
      else if DstType head = EntityType_IM then
        (if transType = TransType_ByKey then
           (case GetIMByID (DstID head) g of
              None \<Rightarrow> Some (Some EC_IMSvrNotFound, g)
            | Some im \<Rightarrow>
                (case SSMessageBody_Marshal ssMsg of
                   Ret body \<Rightarrow> im_SendMsg im
                     \<lparr>ss_Head = head\<lparr>SrcType := EntityType_Portal, SrcID := cfg_ServerID env\<rparr>, ss_Body = body\<rparr> g
                 | _ \<Rightarrow> Some (Some EC_MarshalFail, g)))
         else if transType = TransType_Broadcast then
           (case SSMessageBody_Marshal ssMsg of
              Ret body \<Rightarrow> do { g \<leftarrow> relay_to_ims head body (map snd (imMap g)) g; Some (None, g) }
            | _ \<Rightarrow> Some (Some EC_MarshalFail, g))
         else Some (Some EC_ParameterInvalid, g))
      else Some (Some EC_ParameterInvalid, g))"

definition im_Receive :: "gate_env \<Rightarrow> nat \<Rightarrow> byte list \<Rightarrow> gate \<Rightarrow> gate option" where
  "im_Receive env i d g =
     (case UnpackSSMessage d of
        None \<Rightarrow> Some g
      | Some msg \<Rightarrow>
          (case SSMessageBody_UnMarshal (ss_Body msg) zero_body of
             (Panic, _) \<Rightarrow> None
           | (Err _, _) \<Rightarrow> Some g
           | (Ret _, _) \<Rightarrow>
               let head = ss_Head msg in
               if SSCmd head = SSCMD_READY then
                 Some (if SrcType head = EntityType_IM
                       then g\<lparr>imsvrs := (imsvrs g)[i := (imsvrs g ! i)\<lparr>im_id := SrcID head, im_status := 1\<rparr>]\<rparr>
                       else g)
               else if SSCmd head = SSCMD_MSG then
                 (case SSMessageBody_UnMarshal (ss_Body msg) zero_body of
                    (Panic, _) \<Rightarrow> None
                  | (_, msgBody) \<Rightarrow> do { (_, g) \<leftarrow> im_dispatch env head msgBody g; Some g })
               else Some g))"

section \<open>Messages to the IM server of an account\<close>

definition SendMessageToIMSvr ::
  "gate_env \<Rightarrow> SSMessageBody \<Rightarrow> gate \<Rightarrow> (ErrCode option \<times> gate) option" where
  "SendMessageToIMSvr env ssMsg g =
     (case GetIMByAccountID env (sb_DstAccountID ssMsg) g of
        None \<Rightarrow> Some (Some EC_ParameterInvalid, g)
      | Some im \<Rightarrow>
          (case SSMessageBody_Marshal ssMsg of
             Ret body \<Rightarrow> im_SendMsg im
               \<lparr>ss_Head = \<lparr>SSCmd = SSCMD_MSG, TransType = TransType_ByKey, SrcType = EntityType_Portal,
                  DstType = EntityType_IM, SrcID = cfg_ServerID env, DstID = im_id (imsvrs g ! im)\<rparr>, ss_Body = body\<rparr> g
           | _ \<Rightarrow> Some (Some EC_MarshalFail, g)))"

end
