(* ===== verification/GateLogin.thy ===== *)
theory GateLogin
  imports GateIM
begin

text \<open>
  The gate, fourth part: what \<open>gamegate/client.go\<close> does with a player's message: decrypt,
  unmarshal, log in or answer a ping, and forward the rest by the range of its id.
\<close>

section \<open>Login\<close>

text \<open>The last steps of a login: the server is chosen, the client is added, its IP filled in.\<close>

definition login_dispatch ::
  "gate_env \<Rightarrow> nat \<Rightarrow> login_req \<Rightarrow> byte list \<Rightarrow> gate \<Rightarrow> (byte list \<times> ErrCode option) \<times> gate" where
  "login_dispatch env a logReq bMsgBody g =
     (case redis_loc env (AccountID (tasks g ! a)) of
        LocErr \<Rightarrow> ((bMsgBody, Some EC_ServerBusy), g)
      | loc \<Rightarrow>
          let gsID = (case loc of LocOk i \<Rightarrow> i | _ \<Rightarrow> 0);
              gsID = (if \<not> GameSvrAlive gsID g then DispatchGameSvr env g else gsID)
          in if gsID = 0 then ((bMsgBody, Some EC_ServerBusy), g)
             else
               let g = mgr_Add a (on_task a (\<lambda>t. t\<lparr>GSID := gsID\<rparr>) g);
                   remoteAddr = remote_addr env (ct_conn (tasks g ! a));
                   ipIdx = strings_Index remoteAddr CHR '':''
               in if ipIdx > 0 then
                    (case encode_login env (logReq\<lparr>lr_ClientIP := take (nat ipIdx) remoteAddr\<rparr>) of
                       None \<Rightarrow> (([], Some EC_MarshalFail), g)
                     | Some b \<Rightarrow> ((b, None), g))
                  else ((bMsgBody, None), g))"

definition handlerLoginMsg ::
  "gate_env \<Rightarrow> nat \<Rightarrow> byte list \<Rightarrow> gate \<Rightarrow> ((byte list \<times> ErrCode option) \<times> gate) option" where
  "handlerLoginMsg env a bMsgBody g =
     (case decode_login env bMsgBody of
        None \<Rightarrow> Some ((bMsgBody, Some EC_UnmarshalFail), g)
      | Some logReq \<Rightarrow>
          if lr_AccountID logReq \<le>s 0 then Some ((bMsgBody, Some EC_ParameterInvalid), g)
          else
            let g = on_task a (\<lambda>t. t\<lparr>AccountID := lr_AccountID logReq\<rparr>) g in
            (case redis_token env (AccountID (tasks g ! a)) of
               None \<Rightarrow> Some ((bMsgBody, Some EC_TokenInvalid), g)
             | Some tokenWithTs \<Rightarrow>
                 let tokenAndTs = strings_Split tokenWithTs CHR ''|'' in
                 if length tokenAndTs \<noteq> 2 then Some ((bMsgBody, Some EC_TokenInvalid), g)
                 else if tokenAndTs ! 0 \<noteq> lr_UserToken logReq then Some ((bMsgBody, Some EC_TokenInvalid), g)
                 else (case GetByID (AccountID (tasks g ! a)) g of
                   Some oldClient \<Rightarrow>
                     if oldClient = a then Some ((bMsgBody, None), g)
                     else do {
                       g \<leftarrow> SendErrToMe env oldClient EC_AccountReplaced 0 g;
                       Some (login_dispatch env a logReq bMsgBody (TerminateClient oldClient SESS_REPLACED g))
                     }
                 | None \<Rightarrow> Some (login_dispatch env a logReq bMsgBody g))))"

definition HookClientMessage ::
  "gate_env \<Rightarrow> nat \<Rightarrow> u16 \<Rightarrow> u32 \<Rightarrow> byte list \<Rightarrow> gate
   \<Rightarrow> ((bool \<times> byte list \<times> ErrCode option) \<times> gate) option" where
  "HookClientMessage env a mid packetNo bMsgBody g =
     (if mid = MsgID_MessagePing then
        do { (_, g) \<leftarrow> handlePing env a packetNo g; Some ((False, bMsgBody, None), g) }
      else do {
        ((bMsgBody, ret), g) \<leftarrow>
          (if mid = MsgID_MessageCharLoginReq then handlerLoginMsg env a bMsgBody g
           else Some ((bMsgBody, None), g));
        Some (if ret \<noteq> None then ((False, bMsgBody, ret), g)
              else if \<not> IsProtocolExist init_processor mid then ((False, bMsgBody, Some EC_UnknownMessage), g)
              else ((True, bMsgBody, None), g))
      })"

section \<open>Forwarding\<close>

definition Message_ID_MASK :: u16 where "Message_ID_MASK = 0xff00"
definition Message_IM_Start :: u16 where "Message_IM_Start = 0x4000"
definition Message_Team_Start :: u16 where "Message_Team_Start = 0x5000"

definition GetMessageDestByMsgID :: "u16 \<Rightarrow> u32" where
  "GetMessageDestByMsgID mid =
     (if mid AND Message_ID_MASK = Message_IM_Start then EntityType_IM
      else if mid AND Message_ID_MASK = Message_Team_Start then EntityType_TeamSvr
      else EntityType_GameSvr)"

text \<open>
  \<open>SendMessageToRouter\<close> builds the message, logs it and returns nil: the sending is commented
  out. The message it builds is \<open>router_message\<close>.
\<close>

definition router_message :: "gate_env \<Rightarrow> byte \<Rightarrow> u16 \<Rightarrow> byte list \<Rightarrow> SSMessage" where
  "router_message env dstType dstID body =
     \<lparr>ss_Head = \<lparr>SSCmd = SSCMD_MSG, TransType = TransType_ByKey, SrcType = EntityType_Portal,
        DstType = dstType, SrcID = cfg_ServerID env, DstID = dstID\<rparr>, ss_Body = body\<rparr>"

definition SendMessageToRouter ::
  "gate_env \<Rightarrow> byte \<Rightarrow> u16 \<Rightarrow> SSMessageBody \<Rightarrow> gate \<Rightarrow> (ErrCode option \<times> gate) option" where
  "SendMessageToRouter env dstType dstID ssMsg g =
     (case SSMessageBody_Marshal ssMsg of
        Ret body \<Rightarrow> (let msg = router_message env dstType dstID body in Some (None, g))
      | Err _ \<Rightarrow> Some (Some EC_MarshalFail, g)
      | Panic \<Rightarrow> None)"

definition forward_body :: "ClientTask \<Rightarrow> u16 \<Rightarrow> u32 \<Rightarrow> byte list \<Rightarrow> SSMessageBody" where
  "forward_body t mid packetNo b =
     \<lparr>sb_MessageID = mid, sb_PacketNo = packetNo, sb_SrcAccountID = AccountID t,
      sb_DstAccountID = AccountID t, sb_GSID = GSID t, sb_Body = b\<rparr>"

definition gameServerForward ::
  "gate_env \<Rightarrow> nat \<Rightarrow> u16 \<Rightarrow> u32 \<Rightarrow> byte list \<Rightarrow> gate \<Rightarrow> (ErrCode option \<times> gate) option" where
  "gameServerForward env a mid packetNo b g =
     (let t = tasks g ! a
      in if GSID t = INVALID_GAMESVR_ID then Some (Some EC_GamesvrError, g)
         else SendMessageToRouter env EntityType_GameSvr (GSID t) (forward_body t mid packetNo b) g)"

definition teamServerForward ::
  "gate_env \<Rightarrow> nat \<Rightarrow> u16 \<Rightarrow> u32 \<Rightarrow> byte list \<Rightarrow> gate \<Rightarrow> (ErrCode option \<times> gate) option" where
  "teamServerForward env a mid packetNo b g =
     (let t = tasks g ! a
      in SendMessageToRouter env EntityType_TeamSvr (TSID t) (forward_body t mid packetNo b) g)"

definition imServerForward ::
  "gate_env \<Rightarrow> nat \<Rightarrow> u16 \<Rightarrow> u32 \<Rightarrow> byte list \<Rightarrow> gate \<Rightarrow> (ErrCode option \<times> gate) option" where
  "imServerForward env a mid packetNo b g =
     SendMessageToIMSvr env (forward_body (tasks g ! a) mid packetNo b) g"

section \<open>A message arrives\<close>

text \<open>\<open>SendErrToMe\<close> followed by \<open>TerminateClient(SESS_KICKED_OUT)\<close>.\<close>

definition kick :: "gate_env \<Rightarrow> nat \<Rightarrow> ErrCode \<Rightarrow> u32 \<Rightarrow> gate \<Rightarrow> gate option" where
  "kick env a code packetNo g =
     do { g \<leftarrow> SendErrToMe env a code packetNo g; Some (TerminateClient a SESS_KICKED_OUT g) }"

definition forward ::
  "gate_env \<Rightarrow> nat \<Rightarrow> u16 \<Rightarrow> u32 \<Rightarrow> byte list \<Rightarrow> gate \<Rightarrow> gate option" where
  "forward env a mid packetNo b g =
     (let destType = GetMessageDestByMsgID mid in
      if destType = EntityType_GameSvr then
        do { (ret, g) \<leftarrow> gameServerForward env a mid packetNo b g;
             (case ret of None \<Rightarrow> Some g | Some e \<Rightarrow> kick env a e packetNo g) }
      else if destType = EntityType_IM then
        do { (_, g) \<leftarrow> imServerForward env a mid packetNo b g; Some g }
      else if destType = EntityType_TeamSvr then
        do { (_, g) \<leftarrow> teamServerForward env a mid packetNo b g; Some g }
      else kick env a EC_UnknownMessage packetNo g)"

definition client_message :: "gate_env \<Rightarrow> nat \<Rightarrow> byte list \<Rightarrow> gate \<Rightarrow> gate option" where
  "client_message env a d g =
     do {
       (d, g) \<leftarrow>
         (if Flag (tasks g ! a) AND SESS_ENCRYPT \<noteq> 0
          then (case Decoder (tasks g ! a) of
                  None \<Rightarrow> None
                | Some e \<Rightarrow> (let (d, e) = XORKeyStream d e in Some (d, on_task a (\<lambda>t. t\<lparr>Decoder := Some e\<rparr>) g)))
          else Some (d, g));
       (case CSMessage_UnMarshal d \<lparr>cs_Head = \<lparr>ch_MessageID = 0, ch_PacketNo = 0, ch_Version = 0\<rparr>, cs_Body = []\<rparr> of
          (Panic, _) \<Rightarrow> None
        | (Err _, _) \<Rightarrow> kick env a EC_UnmarshalFail 0 g
        | (Ret _, csMsg) \<Rightarrow>
            do {
              ((bContinue, msgBody, ret), g) \<leftarrow>
                HookClientMessage env a (ch_MessageID (cs_Head csMsg)) (ch_PacketNo (cs_Head csMsg)) (cs_Body csMsg) g;
              (case ret of
                 Some e \<Rightarrow> kick env a e (ch_PacketNo (cs_Head csMsg)) g
               | None \<Rightarrow>
                   if bContinue then forward env a (ch_MessageID (cs_Head csMsg)) (ch_PacketNo (cs_Head csMsg)) msgBody g
                   else Some g)
            })
     }"

text \<open>
  \<open>ClientMgr.Receive\<close>: \<open>con.Owner.(ClientTask)\<close> asserts that the owner is a task by value and
  makes a copy of it, on which the rest of the method works; with any other owner it panics.
\<close>

definition mgr_Receive :: "gate_env \<Rightarrow> nat \<Rightarrow> byte list \<Rightarrow> gate \<Rightarrow> gate option" where
  "mgr_Receive env cn d g =
     (case conn_owners g cn of
        OwnerTask t \<Rightarrow> client_message env (length (tasks g)) d (g\<lparr>tasks := tasks g @ [t]\<rparr>)
      | _ \<Rightarrow> None)"

end
