(* ===== verification/GateProps.thy ===== *)
theory GateProps
  imports GateLogin RouterProps
begin

text \<open>
  The properties of the gate, on the model of \<open>GateClients\<close>, \<open>GateRouters\<close>, \<open>GateIM\<close> and
  \<open>GateLogin\<close>.
\<close>

section \<open>Which server is behind which router\<close>

lemma in_slice_set: "in_slice xs x \<longleftrightarrow> x \<in> set xs"
  by (induction xs) auto

lemma map_of_fold_update:
  "map_of (fold (\<lambda>i. AList.update (f i) v) is m) k = (if k \<in> f ` set is then Some v else map_of m k)"
  by (induction "is" arbitrary: m) (auto simp: update_conv')

lemma map_of_filter_value:
  "distinct (map fst m) \<Longrightarrow> map_of (filter (\<lambda>(_, v). v \<noteq> r) m) k
    = (case map_of m k of Some v \<Rightarrow> if v = r then None else Some v | None \<Rightarrow> None)"
proof (induction m)
  case (Cons x m)
  obtain i v where x: "x = (i, v)" by (cases x)
  have "map_of (filter (\<lambda>(_, v). v \<noteq> r) m) i = None"
    using Cons.prems by (force simp: x map_of_eq_None_iff)
  with Cons show ?case by (auto simp: x)
qed simp

lemma set_servers_map:
  "distinct (map fst m) \<Longrightarrow> map_of (set_servers ids r m) i
    = (if i \<in> ucast ` set ids then Some r
       else case map_of m i of Some v \<Rightarrow> if v = r then None else Some v | None \<Rightarrow> None)"
  by (simp add: set_servers_def map_of_fold_update map_of_filter_value)

text \<open>The servers the gate routes through router \<open>r\<close>.\<close>

definition behind :: "bool \<Rightarrow> nat \<Rightarrow> gate \<Rightarrow> u16 set" where
  "behind team r g = {i. map_of (if team then crossRouterMgr g else routerMgr g) i = Some r}"

section \<open>What players are sent\<close>

text \<open>Between two states every connection accepted some empty messages and nothing else.\<close>

definition only_empty :: "gate \<Rightarrow> gate \<Rightarrow> bool" where
  "only_empty g g' \<longleftrightarrow> (\<forall>cn. \<exists>n. accepted (conns g' cn) = accepted (conns g cn) @ replicate n [])"

lemma only_empty_refl [simp]: "only_empty g g"
  by (auto simp: only_empty_def intro: exI [of _ 0])

lemma only_empty_same: "conns g' = conns g \<Longrightarrow> only_empty g g'"
  by (auto simp: only_empty_def intro: exI [of _ 0])

lemma only_empty_trans: "only_empty g g' \<Longrightarrow> only_empty g' g'' \<Longrightarrow> only_empty g g''"
  unfolding only_empty_def by (metis append.assoc replicate_add)

lemma accepted_Shutdown [simp]: "accepted (Shutdown c) = accepted c"
  by (simp add: Shutdown_def stopBackgroundWrite_def)

lemma only_empty_Terminate: "only_empty g (TerminateClient a flag g)"
  by (auto simp: only_empty_def TerminateClient_def task_Close_def on_task_def Let_def intro: exI [of _ 0])

lemma SendCSMsg_sends:
  assumes "SendCSMsg a m g = Some (e, g')"
  shows "\<exists>q cn. g' = snd (gate_Send cn [] q) \<and> conns q = conns g \<and> mgr_clients q = mgr_clients g"
proof (cases "Flag (tasks g ! a) AND SESS_ENCRYPT = 0")
  case True
  then show ?thesis
    using assms by (auto simp: SendCSMsg_def CSMessage_Marshal_def split_beta Let_def intro!: exI [of _ g])
next
  case False
  then obtain c where "Encoder (tasks g ! a) = Some c"
    using assms by (auto simp: SendCSMsg_def CSMessage_Marshal_def split: option.splits)
  with False show ?thesis
    using assms
    by (auto simp: SendCSMsg_def CSMessage_Marshal_def XORKeyStream_def split_beta Let_def on_task_def
        intro!: exI [of _ "on_task a (\<lambda>t. t\<lparr>Encoder := Some (c\<lparr>key_pos := key_pos c\<rparr>)\<rparr>) g"])
qed

lemma only_empty_Send:
  assumes "SendCSMsg a m g = Some (e, g')"
  shows "only_empty g g' \<and> mgr_clients g' = mgr_clients g"
proof -
  have "accepted (snd (Send [[]] c)) = accepted c @ replicate (if closed c then 0 else 1) []" for c
    by (simp add: Send_def)
  then have sent: "only_empty q (snd (gate_Send cn [] q)) \<and> mgr_clients (snd (gate_Send cn [] q)) = mgr_clients q" for cn q
    by (auto simp: only_empty_def gate_Send_def Let_def split_beta intro: exI [of _ 0])
  obtain q cn where q: "g' = snd (gate_Send cn [] q)" "conns q = conns g" "mgr_clients q = mgr_clients g"
    using SendCSMsg_sends [OF assms] by blast
  have "only_empty g q" using q(2) by (rule only_empty_same)
  then show ?thesis using sent [of q cn] q by (auto intro: only_empty_trans)
qed

lemma only_empty_send_to_tasks:
  "send_to_tasks m as g = Some g' \<Longrightarrow> only_empty g g' \<and> mgr_clients g' = mgr_clients g"
proof (induction "as" arbitrary: g)
  case (Cons a "as")
  then obtain e q where "SendCSMsg a m g = Some (e, q)" "send_to_tasks m as q = Some g'"
    by (auto split: Option.bind_splits)
  then show ?case using only_empty_Send [of a m g e q] Cons.IH [of q] only_empty_trans by auto
qed simp

lemma only_empty_fold:
  "(\<And>x q. only_empty q (f x q)) \<Longrightarrow> only_empty g (fold f xs g)"
proof (induction xs arbitrary: g)
  case (Cons x xs)
  have "only_empty (f x g) (fold f xs (f x g))" using Cons by blast
  with Cons.prems show ?case using only_empty_trans [of g "f x g"] by simp
qed simp

lemma only_empty_router_sync: "only_empty g (router_sync env r b g)"
proof -
  have "only_empty q (ServerClose i q)" for i q
    unfolding ServerClose_def by (rule only_empty_fold) (rule only_empty_Terminate)
  then have "only_empty q (AddRouterServer ids r q)" for ids q
    unfolding AddRouterServer_def Let_def
    by (rule_tac only_empty_trans [OF only_empty_same only_empty_fold]) simp_all
  moreover have "only_empty q (AddCrossRouterServer ids r q)" for ids q
    by (rule only_empty_same) (simp add: AddCrossRouterServer_def Let_def)
  ultimately show ?thesis by (simp add: router_sync_def split: option.split)
qed

section \<open>Login\<close>

lemma on_task_fields [simp]:
  "conns (on_task a f g) = conns g" "mgr_clients (on_task a f g) = mgr_clients g"
  "length (tasks (on_task a f g)) = length (tasks g)" "svrList (on_task a f g) = svrList g"
  "a < length (tasks g) \<Longrightarrow> tasks (on_task a f g) ! b = (if b = a then f (tasks g ! a) else tasks g ! b)"
  by (auto simp: on_task_def nth_list_update)

lemma Terminate_fields [simp]:
  "mgr_clients (TerminateClient a flag g) = mgr_clients g" "length (tasks (TerminateClient a flag g)) = length (tasks g)"
  "AccountID (tasks (TerminateClient a flag g) ! b) = AccountID (tasks g ! b)"
  "ct_conn (tasks (TerminateClient a flag g) ! b) = ct_conn (tasks g ! b)"
  "closed (conns (TerminateClient a flag g) (ct_conn (tasks g ! a)))"
proof -
  show "AccountID (tasks (TerminateClient a flag g) ! b) = AccountID (tasks g ! b)"
    and "ct_conn (tasks (TerminateClient a flag g) ! b) = ct_conn (tasks g ! b)"
    by (cases "a < length (tasks g)"; cases "a = b";
        simp add: TerminateClient_def task_Close_def on_task_def Let_def list_update_beyond)+
  then show "closed (conns (TerminateClient a flag g) (ct_conn (tasks g ! a)))"
    by (cases "a < length (tasks g)") (simp_all add: TerminateClient_def task_Close_def on_task_def Let_def list_update_beyond)
qed (simp_all add: TerminateClient_def task_Close_def on_task_def Let_def)

lemma SendErr_fields:
  assumes "SendErrToMe env a code n g = Some g'"
  shows "mgr_clients g' = mgr_clients g" "length (tasks g') = length (tasks g)"
    "AccountID (tasks g' ! b) = AccountID (tasks g ! b)" "ct_conn (tasks g' ! b) = ct_conn (tasks g ! b)"
proof -
  have s: "length (tasks g') = length (tasks g) \<and> AccountID (tasks g' ! b) = AccountID (tasks g ! b)
      \<and> ct_conn (tasks g' ! b) = ct_conn (tasks g ! b) \<and> mgr_clients g' = mgr_clients g"
    if "SendCSMsg a m g = Some (e, g')" for m e g'
    using that
    by (cases "a < length (tasks g)"; cases "a = b")
      (auto simp: SendCSMsg_def on_task_def gate_Send_def split_beta Let_def list_update_beyond
        split: if_splits option.splits outcome.splits Option.bind_splits)
  obtain e where "SendMessageToMe env a (ErrorNoti code n (env_now env)) g = Some (e, g')"
    using assms by (auto simp: SendErrToMe_def split: Option.bind_splits)
  then show "mgr_clients g' = mgr_clients g" "length (tasks g') = length (tasks g)"
    "AccountID (tasks g' ! b) = AccountID (tasks g ! b)" "ct_conn (tasks g' ! b) = ct_conn (tasks g ! b)"
    by (auto simp: SendMessageToMe_def split: sum.splits dest: s)
qed

lemma login_dispatch_ok:
  assumes "login_dispatch env a req b g = ((b', None), g')" and "a < length (tasks g)"
    and "AccountID (tasks g ! a) \<noteq> 0"
  shows "GetByID (AccountID (tasks g ! a)) g' = Some a \<and> AccountID (tasks g' ! a) = AccountID (tasks g ! a)
    \<and> GSID (tasks g' ! a) \<noteq> 0 \<and> conns g' = conns g"
  using assms
  by (auto simp: login_dispatch_def Let_def mgr_Add_def GetByID_def update_conv' go_consts
      split: user_loc.splits if_splits option.splits)

lemma login_dispatch_error:
  "login_dispatch env a req b g = ((b', Some e), g') \<Longrightarrow> e \<noteq> EC_MarshalFail \<Longrightarrow> mgr_clients g' = mgr_clients g"
  by (auto simp: login_dispatch_def Let_def split: user_loc.splits if_splits option.splits)

text \<open>The successful path of a login up to the choice of a server, from the state \<open>g1\<close> in which
  the task has its account id.\<close>

lemma login_tail:
  assumes "(case GetByID k g1 of
      Some oldClient \<Rightarrow>
        if oldClient = a then Some ((b, None), g1)
        else do {
          g \<leftarrow> SendErrToMe env oldClient EC_AccountReplaced 0 g1;
          Some (login_dispatch env a req b (TerminateClient oldClient SESS_REPLACED g))
        }
    | None \<Rightarrow> Some (login_dispatch env a req b g1)) = Some ((b', err), g')"
    and "a < length (tasks g1)" and "AccountID (tasks g1 ! a) = k" and "k \<noteq> 0"
  shows "(err = None \<longrightarrow> GetByID k g' = Some a \<and> AccountID (tasks g' ! a) = k
      \<and> (\<forall>old. GetByID k g1 = Some old \<and> old \<noteq> a \<longrightarrow> closed (conns g' (ct_conn (tasks g1 ! old)))))
    \<and> (err \<noteq> None \<and> err \<noteq> Some EC_MarshalFail \<longrightarrow> mgr_clients g' = mgr_clients g1)"
proof (cases "GetByID k g1")
  case None
  then have d: "login_dispatch env a req b g1 = ((b', err), g')" using assms(1) by simp
  show ?thesis
    using login_dispatch_ok [of env a req b g1 b' g'] login_dispatch_error [of env a req b g1 b' _ g'] d None assms(2-4)
    by (cases err) auto
next
  case (Some old)
  show ?thesis
  proof (cases "old = a")
    case True
    then show ?thesis using assms(1,3) Some by auto
  next
    case False
    then obtain g2 where g2: "SendErrToMe env old EC_AccountReplaced 0 g1 = Some g2"
        "login_dispatch env a req b (TerminateClient old SESS_REPLACED g2) = ((b', err), g')"
      using assms(1) Some by (auto split: Option.bind_splits)
    let ?g3 = "TerminateClient old SESS_REPLACED g2"
    note e = SendErr_fields [OF g2(1)]
    have g3: "a < length (tasks ?g3)" "AccountID (tasks ?g3 ! a) = k" "mgr_clients ?g3 = mgr_clients g1"
        "closed (conns ?g3 (ct_conn (tasks g1 ! old)))"
      using assms(2,3) e Terminate_fields(5) [of old SESS_REPLACED g2] by (simp_all del: Terminate_fields(5))
    show ?thesis
      using login_dispatch_ok [of env a req b ?g3 b' g'] login_dispatch_error [of env a req b ?g3 b' _ g']
        g2(2) g3 Some assms(4)
      by (cases err) auto
  qed
qed

section \<open>Finding the chat server of an account\<close>

text \<open>The ring's nodes are the known servers, and every known server has its object.\<close>

definition im_inv :: "(byte list \<Rightarrow> byte list) \<Rightarrow> gate \<Rightarrow> bool" where
  "im_inv md5 g \<longleftrightarrow> (\<forall>sid addr. (sid, addr) \<in> set (ims g) \<longrightarrow>
       - (2 ^ 63) \<le> sid \<and> sid < 2 ^ 63 \<and> map_of (imMap g) (word_of_int sid) \<noteq> None)
     \<and> (case hashRing g of None \<Rightarrow> True
        | Some h \<Rightarrow> built md5 h \<and> uniform 1 h \<and> distinct (nodes h) \<and> nodes h \<noteq> [] \<and> set (nodes h) \<subseteq> (\<lambda>(sid, _). Itoa sid) ` set (ims g))"

lemma live_ims_range:
  "live_ims env parse xs l = Some l' \<Longrightarrow> \<forall>(i, _) \<in> set l. - (2 ^ 63) \<le> i \<and> i < 2 ^ 63 \<Longrightarrow> distinct (map fst l)
    \<Longrightarrow> (\<forall>(i, _) \<in> set l'. - (2 ^ 63) \<le> i \<and> i < 2 ^ 63) \<and> distinct (map fst l')"
proof (induction env parse xs l rule: live_ims.induct)
  case (2 env parse i d rest l)
  have "\<forall>(k, _) \<in> set (AList.update sid a l). - (2 ^ 63) \<le> k \<and> k < 2 ^ 63" if "Atoi i = Some sid" for sid and a :: string
    using that "2.prems"(2,3) Atoi_range [of i sid] by (auto simp: set_update_distinct)
  with 2 show ?case
    by (auto simp: distinct_update split: json_im.splits option.splits if_splits)
qed simp

lemma start_im_fold:
  "ims (fold start_im new g) = ims g" "hashRing (fold start_im new g) = hashRing g"
  by (induction new arbitrary: g) (auto simp: start_im_def split_beta)

lemma start_im_maps:
  "map_of (imMap (start_im x g)) = (map_of (imMap g))(word_of_int (fst x) \<mapsto> length (imsvrs g))"
  by (simp add: start_im_def split_beta update_conv')

lemma imMap_grows:
  "map_of (imMap g) k \<noteq> None \<or> k \<in> word_of_int ` fst ` set new
    \<Longrightarrow> map_of (imMap (fold start_im new g)) k \<noteq> None"
proof (induction new arbitrary: g)
  case (Cons x new)
  then have "map_of (imMap (start_im x g)) k \<noteq> None \<or> k \<in> word_of_int ` fst ` set new"
    by (auto simp: start_im_maps)
  then show ?case using Cons.IH [of "start_im x g"] by simp
qed simp

lemma fold_ims:
  "fst ` set (fold (\<lambda>sid. AList.update sid ([] :: string)) sids l) = fst ` set l \<union> set sids"
  "distinct (map fst l) \<Longrightarrow> distinct (map fst (fold (\<lambda>sid. AList.update sid ([] :: string)) sids l))"
  by (induction sids arbitrary: l) (auto simp: dom_update distinct_update)

lemma weights_of:
  "distinct (map fst l) \<Longrightarrow> distinct (map fst (fold (\<lambda>sid. AList.update (Itoa sid) (1 :: int)) sids l))
    \<and> fst ` set (fold (\<lambda>sid. AList.update (Itoa sid) (1 :: int)) sids l) = fst ` set l \<union> Itoa ` set sids"
  by (induction sids arbitrary: l) (auto simp: distinct_update dom_update)

lemma AddNode_distinct: "distinct (nodes h) \<Longrightarrow> distinct (nodes (AddNode md5 n h))"
  by (simp add: AddNode_def AddWeightedNode_def generateCircle_fields)

lemma AddNode_fold:
  "built md5 h \<Longrightarrow> uniform 1 h \<Longrightarrow> distinct (nodes h) \<Longrightarrow> nodes h \<noteq> [] \<Longrightarrow>
    built md5 (fold (\<lambda>sid. AddNode md5 (Itoa sid)) sids h)
    \<and> uniform 1 (fold (\<lambda>sid. AddNode md5 (Itoa sid)) sids h)
    \<and> distinct (nodes (fold (\<lambda>sid. AddNode md5 (Itoa sid)) sids h))
    \<and> nodes (fold (\<lambda>sid. AddNode md5 (Itoa sid)) sids h) \<noteq> []
    \<and> set (nodes (fold (\<lambda>sid. AddNode md5 (Itoa sid)) sids h)) \<subseteq> set (nodes h) \<union> Itoa ` set sids"
proof (induction sids arbitrary: h)
  case (Cons sid sids)
  have "built md5 (AddNode md5 (Itoa sid) h)" using Cons.prems(1) by (rule built.intros)
  moreover have "uniform 1 (AddNode md5 (Itoa sid) h)" "nodes (AddNode md5 (Itoa sid) h) \<noteq> []"
    using Cons.prems AddWeightedNode_fields [of "Itoa sid" h 1 md5]
    by (cases "Itoa sid \<in> set (nodes h)"; simp add: AddNode_def; simp add: AddWeightedNode_def)+
  moreover have "set (nodes (AddNode md5 (Itoa sid) h)) \<subseteq> insert (Itoa sid) (set (nodes h))"
    by (auto simp: AddNode_def AddWeightedNode_def generateCircle_fields)
  ultimately show ?case
    using Cons.IH [of "AddNode md5 (Itoa sid) h"] AddNode_distinct [OF Cons.prems(3)] by auto
qed simp

text \<open>The ring after a refresh that found the servers \<open>sids\<close> new.\<close>

definition refreshed_ring :: "(byte list \<Rightarrow> byte list) \<Rightarrow> int list \<Rightarrow> hashring option \<Rightarrow> hashring" where
  "refreshed_ring md5 sids r =
     (case r of
        None \<Rightarrow> NewHashringWithWeights md5 (fold (\<lambda>sid. AList.update (Itoa sid) 1) sids [])
      | Some h \<Rightarrow> fold (\<lambda>sid. AddNode md5 (Itoa sid)) sids h)"

lemma new_ring_ok:
  assumes "sids \<noteq> []"
    and "h = refreshed_ring md5 sids None"
  shows "built md5 h \<and> uniform 1 h \<and> distinct (nodes h) \<and> nodes h \<noteq> [] \<and> set (nodes h) = Itoa ` set sids"
proof -
  let ?ws = "fold (\<lambda>sid. AList.update (Itoa sid) (1 :: int)) sids []"
  have h: "h = NewHashringWithWeights md5 ?ws" "nodes h = map fst ?ws" "weights h = ?ws"
    by (simp_all add: assms(2) refreshed_ring_def NewHashringWithWeights_def generateCircle_fields)
  have "?ws \<noteq> []" using weights_of [of "[]" sids] assms(1) by auto
  moreover have "uniform 1 h" by (simp add: uniform_def h(2,3) map_of_fold_update)
  moreover have "built md5 h" using weights_of [of "[]" sids] unfolding h(1) by (auto intro: built.intros(2))
  ultimately show ?thesis using weights_of [of "[]" sids] by (simp add: h(2))
qed

lemma refreshed_ring_ok:
  assumes "sids \<noteq> []" and "\<And>h. r = Some h \<Longrightarrow> built md5 h \<and> uniform 1 h \<and> distinct (nodes h) \<and> nodes h \<noteq> [] \<and> set (nodes h) \<subseteq> N"
  shows "built md5 (refreshed_ring md5 sids r) \<and> uniform 1 (refreshed_ring md5 sids r)
    \<and> distinct (nodes (refreshed_ring md5 sids r)) \<and> nodes (refreshed_ring md5 sids r) \<noteq> [] \<and> set (nodes (refreshed_ring md5 sids r)) \<subseteq> N \<union> Itoa ` set sids"
proof (cases r)
  case None
  then show ?thesis using new_ring_ok [OF assms(1) refl, of md5] by auto
next
  case (Some h)
  then show ?thesis using assms(2) [OF Some] AddNode_fold [of md5 h sids] by (auto simp: refreshed_ring_def)
qed

lemma refreshIM_result:
  assumes "refreshIMSvrList env parse svrMap g = Some g'"
  obtains new where "\<And>sid. sid \<in> fst ` set new \<Longrightarrow> - (2 ^ 63) \<le> sid \<and> sid < 2 ^ 63"
    and "new = [] \<Longrightarrow> g' = g"
    and "new \<noteq> [] \<Longrightarrow> ims g' = fold (\<lambda>sid. AList.update sid []) (map fst new) (ims g)
      \<and> imMap g' = imMap (fold start_im new g)
      \<and> hashRing g' = Some (refreshed_ring (env_md5 env) (map fst new) (hashRing g))"
proof -
  obtain l where l: "live_ims env parse svrMap [] = Some l"
    using assms by (auto simp: refreshIMSvrList_def split: option.splits)
  define new where "new = filter (\<lambda>(sid, _). map_of (ims g) sid = None) l"
  let ?q = "fold start_im new g"
  have "g' = (if map fst new = [] then ?q
      else case hashRing ?q of
        None \<Rightarrow> ?q\<lparr>ims := fold (\<lambda>sid. AList.update sid []) (map fst new) (ims ?q),
          hashRing := Some (NewHashringWithWeights (env_md5 env) (fold (\<lambda>sid. AList.update (Itoa sid) 1) (map fst new) []))\<rparr>
      | Some h \<Rightarrow> ?q\<lparr>ims := fold (\<lambda>sid. AList.update sid []) (map fst new) (ims ?q),
          hashRing := Some (fold (\<lambda>sid. AddNode (env_md5 env) (Itoa sid)) (map fst new) h)\<rparr>)"
    using assms by (simp only: refreshIMSvrList_def l option.case Let_def new_def option.inject)
  then have "new = [] \<Longrightarrow> g' = g" "new \<noteq> [] \<Longrightarrow> ims g' = fold (\<lambda>sid. AList.update sid []) (map fst new) (ims g)
      \<and> imMap g' = imMap ?q \<and> hashRing g' = Some (refreshed_ring (env_md5 env) (map fst new) (hashRing g))"
    by (simp_all add: start_im_fold refreshed_ring_def split: option.split)
  moreover have "- (2 ^ 63) \<le> sid \<and> sid < 2 ^ 63" if "sid \<in> fst ` set new" for sid
    using live_ims_range [OF l] that by (auto simp: new_def)
  ultimately show ?thesis by (intro that)
qed

lemma im_inv_refresh:
  assumes "im_inv (env_md5 env) g" and "distinct (map fst (ims g))"
    and "refreshIMSvrList env parse svrMap g = Some g'"
  shows "im_inv (env_md5 env) g' \<and> distinct (map fst (ims g'))"
proof -
  obtain new where range: "\<And>sid. sid \<in> fst ` set new \<Longrightarrow> - (2 ^ 63) \<le> sid \<and> sid < 2 ^ 63"
      and none: "new = [] \<Longrightarrow> g' = g"
      and some: "new \<noteq> [] \<Longrightarrow> ims g' = fold (\<lambda>sid. AList.update sid []) (map fst new) (ims g)
        \<and> imMap g' = imMap (fold start_im new g)
        \<and> hashRing g' = Some (refreshed_ring (env_md5 env) (map fst new) (hashRing g))"
    using refreshIM_result [OF assms(3)] by blast
  show ?thesis
  proof (cases "new = []")
    case False
    note g' = some [OF False]
    have dom: "fst ` set (ims g') = fst ` set (ims g) \<union> fst ` set new" using g' by (simp add: fold_ims(1))
    have nodes: "(\<lambda>(sid, _). Itoa sid) ` set x = Itoa ` fst ` set x" for x :: "(int \<times> string) list"
      by (simp add: image_image split_beta)
    have ring: "built (env_md5 env) h \<and> uniform 1 h \<and> distinct (nodes h) \<and> nodes h \<noteq> [] \<and> set (nodes h) \<subseteq> Itoa ` fst ` set (ims g)"
      if "hashRing g = Some h" for h
      using assms(1) that by (simp add: im_inv_def nodes)
    have "case hashRing g' of None \<Rightarrow> True
        | Some h \<Rightarrow> built (env_md5 env) h \<and> uniform 1 h \<and> distinct (nodes h) \<and> nodes h \<noteq> [] \<and> set (nodes h) \<subseteq> (\<lambda>(sid, _). Itoa sid) ` set (ims g')"
      using refreshed_ring_ok [OF _ ring, of "map fst new" "hashRing g"] False
      unfolding nodes dom image_Un by (simp add: conjunct2 [OF conjunct2 [OF g']])
    moreover have "- (2 ^ 63) \<le> sid \<and> sid < 2 ^ 63 \<and> map_of (imMap g') (word_of_int sid) \<noteq> None"
      if "(sid, addr) \<in> set (ims g')" for sid addr
    proof -
      have "sid \<in> fst ` set (ims g) \<union> fst ` set new" using that unfolding dom [symmetric] by (intro image_eqI [of _ fst]) simp_all
      then consider addr where "(sid, addr) \<in> set (ims g)" | "sid \<in> fst ` set new" by auto
      then have "- (2 ^ 63) \<le> sid \<and> sid < 2 ^ 63"
        "map_of (imMap g) (word_of_int sid) \<noteq> None \<or> word_of_int sid \<in> (word_of_int ` fst ` set new :: u16 set)"
        using assms(1) [unfolded im_inv_def] range [of sid] by (cases; blast)+
      moreover have "imMap g' = imMap (fold start_im new g)" using g' by blast
      ultimately show ?thesis using imMap_grows [of g "word_of_int sid" new] by simp
    qed
    ultimately show ?thesis using fold_ims(2) [OF assms(2)] g' by (simp add: im_inv_def)
  qed (use none assms in simp)
qed

text \<open>A gate whose server list was refreshed any number of times, from none.\<close>

inductive im_run :: "(byte list \<Rightarrow> byte list) \<Rightarrow> gate \<Rightarrow> bool" for md5 where
  "ims g = [] \<Longrightarrow> hashRing g = None \<Longrightarrow> im_run md5 g"
| "im_run md5 g \<Longrightarrow> env_md5 env = md5 \<Longrightarrow> refreshIMSvrList env parse svrMap g = Some g' \<Longrightarrow> im_run md5 g'"

lemma im_run_inv: "im_run md5 g \<Longrightarrow> im_inv md5 g \<and> distinct (map fst (ims g))"
proof (induction rule: im_run.induct)
  case (2 g env parse svrMap g')
  then show ?case using im_inv_refresh [of env g parse svrMap g'] by simp
qed (simp add: im_inv_def)

lemma uniform_owned: "uniform w h \<Longrightarrow> light w (length (nodes h)) \<Longrightarrow> nodes h \<noteq> [] \<Longrightarrow> owned md5 h \<noteq> []"
  by (cases "nodes h") (simp_all add: owned_uniform virtual_keys_def Let_def upt_rec)

section \<open>Registration with a router\<close>

lemma register_loop_open:
  "r_conn (routers g ! r) = Some cn \<Longrightarrow> \<not> closed (conns g cn) \<Longrightarrow>
    \<exists>g'. register_loop fuel d r g = Some (None, g')
      \<and> accepted (conns g' cn) = accepted (conns g cn) @ replicate fuel d"
proof (induction fuel arbitrary: g)
  case (Suc fuel)
  let ?g = "snd (gate_Send cn d g)"
  have "r_conn (routers ?g ! r) = Some cn" "\<not> closed (conns ?g cn)" "fst (gate_Send cn d g)"
    "accepted (conns ?g cn) = accepted (conns g cn) @ [d]"
    using Suc.prems by (simp_all add: gate_Send_def Send_def Let_def)
  then show ?case using Suc.IH [of ?g] Suc.prems(1) by (auto simp: split_beta Let_def)
qed simp

lemma ServerClose_maps:
  "routerMgr (fold (\<lambda>i. ServerClose (f i)) is q) = routerMgr q
    \<and> crossRouterMgr (fold (\<lambda>i. ServerClose (f i)) is q) = crossRouterMgr q"
proof -
  have t: "routerMgr (fold (\<lambda>a. TerminateClient a SESS_GAMESVR_CLOSE) as q) = routerMgr q
      \<and> crossRouterMgr (fold (\<lambda>a. TerminateClient a SESS_GAMESVR_CLOSE) as q) = crossRouterMgr q" for "as" q
    by (induction "as" arbitrary: q) (simp_all add: TerminateClient_def task_Close_def on_task_def Let_def)
  show ?thesis by (induction "is" arbitrary: q) (simp_all add: ServerClose_def t)
qed

lemma synced_Receive:
  assumes "synced (decode_sync env) team m = Some ids"
  shows "\<exists>body sync. router_Receive env r m g = Some (router_sync env r body g)
    \<and> decode_sync env (sb_Body body) = Some sync \<and> (ServerType sync = EntityType_TeamSvr) = team
    \<and> ids = ServerIDs sync"
proof -
  obtain ss body sync where m: "UnpackSSMessage m = Some ss" "SSCmd (ss_Head ss) = SSCMD_SYNC"
      "SSMessageBody_UnMarshal (ss_Body ss) zero_body = (Ret (), body)"
      "decode_sync env (sb_Body body) = Some sync" "(ServerType sync = EntityType_TeamSvr) = team"
      "ids = ServerIDs sync"
    using assms by (auto simp: synced_def split: option.splits outcome.splits prod.splits if_splits)
  then have "router_Receive env r m g = Some (router_sync env r body g)"
    by (simp add: router_Receive_def go_consts)
  then show ?thesis using m(4-6) by blast
qed

section \<open>Properties\<close>

text \<open>
  The gate installs exactly what the router tells it. When a router's message is, to the
  reader \<open>synced\<close> of the router's side, the full list \<open>ids\<close> of its game (or team) servers, then
  after \<open>Receive\<close> the servers behind that router are exactly these; servers behind other
  routers stay where they were unless they are in the list; the other of the two maps is
  untouched, and the list of team servers is the domain of its map.
\<close>

lemma sync_installs_the_list:
  assumes "synced (decode_sync env) team m = Some ids"
    and "distinct (map fst (routerMgr g))" and "distinct (map fst (crossRouterMgr g))"
  shows "\<exists>g'. router_Receive env r m g = Some g' \<and> behind team r g' = ucast ` set ids
    \<and> (\<forall>r'. r' \<noteq> r \<longrightarrow> behind team r' g' = behind team r' g - ucast ` set ids)
    \<and> (\<forall>r'. behind (\<not> team) r' g' = behind (\<not> team) r' g)
    \<and> (team \<longrightarrow> set (teamIds g') = dom (map_of (crossRouterMgr g')))"
proof -
  obtain body sync where m: "router_Receive env r m g = Some (router_sync env r body g)"
      "decode_sync env (sb_Body body) = Some sync" "(ServerType sync = EntityType_TeamSvr) = team"
      "ids = ServerIDs sync"
    using synced_Receive [OF assms(1)] by blast
  note closes = ServerClose_maps
  let ?g = "router_sync env r body g"
  note servers = set_servers_map [OF assms(2), of ids r] set_servers_map [OF assms(3), of ids r]
  show ?thesis
  proof (cases team)
    case True
    then have "routerMgr ?g = routerMgr g" "crossRouterMgr ?g = set_servers ids r (crossRouterMgr g)"
      "teamIds ?g = map fst (set_servers ids r (crossRouterMgr g))"
      using m(2-4) by (simp_all add: router_sync_def AddCrossRouterServer_def Let_def)
    then show ?thesis
      using m(1) True by (auto simp: behind_def servers dom_map_of_conv_image_fst split: option.splits if_splits)
  next
    case False
    then have "crossRouterMgr ?g = crossRouterMgr g" "routerMgr ?g = set_servers ids r (routerMgr g)"
      using m(2-4) by (simp_all add: router_sync_def AddRouterServer_def Let_def closes)
    then show ?thesis
      using m(1) False by (auto simp: behind_def servers split: option.splits if_splits)
  qed
qed

definition demo_gate :: gate where
  "demo_gate = \<lparr>conns = (\<lambda>_. newTCPConnection), conn_owners = (\<lambda>_. NoOwner), tasks = [], mgr_clients = [],
     routers = [\<lparr>r_addr = ''r'', r_conn = Some 9\<rparr>], routerMgr = [(3, 0), (4, 1)], crossRouterMgr = [],
     routerMap = [(''r'', True)], svrList = [(5, 1)], teamIds = [], imsvrs = [], ims = [], imMap = [],
     hashRing = None\<rparr>"

definition demo_gate_env :: gate_env where
  "demo_gate_env = \<lparr>env_now = 100, cfg_ServerID = 7, cfg_ZoneID = 1, encode_pb = (\<lambda>_. Some [1, 2]),
     encode_login = (\<lambda>_. Some [9]),
     decode_login = (\<lambda>_. Some \<lparr>lr_AccountID = 77, lr_UserToken = ''tok'', lr_ClientVer = [], lr_ClientIP = []\<rparr>),
     decode_sync = demo_unpb, decode_group = (\<lambda>_. None), redis_token = (\<lambda>_. Some ''tok|1''),
     redis_loc = (\<lambda>_. LocNil), remote_addr = (\<lambda>_. ''10.0.0.1:99''), rand_Intn = (\<lambda>_. 0),
     env_md5 = zero_digest\<rparr>"

text \<open>The message of the demo router: the game servers 3 and 5.\<close>

definition demo_sync :: "byte list" where
  "demo_sync = PackSSMessage \<lparr>ss_Head = \<lparr>SSCmd = SSCMD_SYNC, TransType = TransType_ByKey, SrcType = EntityType_Router,
       DstType = 0, SrcID = 1, DstID = 0\<rparr>,
     ss_Body = body_head (zero_body\<lparr>sb_MessageID := 4613\<rparr>) @ concat (map be_PutUint32 [3, 3, 5])\<rparr>"

lemma demo_sync_synced: "synced demo_unpb False demo_sync = Some [3, 5]"
proof -
  let ?b = "zero_body\<lparr>sb_MessageID := 4613, sb_Body := concat (map be_PutUint32 [3, 3, 5])\<rparr>"
  have "SSMessageBody_UnMarshal (body_head ?b @ sb_Body ?b) zero_body = (Ret (), ?b)"
    by (rule SSMessageBody_UnMarshal_bytes)
  moreover have "body_head ?b = body_head (zero_body\<lparr>sb_MessageID := 4613\<rparr>)" by (simp add: body_head_def)
  ultimately have u: "SSMessageBody_UnMarshal (body_head (zero_body\<lparr>sb_MessageID := 4613\<rparr>)
      @ concat (map be_PutUint32 [3, 3, 5])) zero_body = (Ret (), ?b)" by simp
  have "words_of (be_PutUint32 a @ be_PutUint32 b @ be_PutUint32 c) = [a, b, c]" for a b c
    using words_of_Put [of c "[]"] by (simp add: words_of_Put)
  then have "demo_unpb (concat (map be_PutUint32 [3, 3, 5])) = Some \<lparr>ServerIDs = [3, 5], ServerType = 3\<rparr>"
    by (simp add: demo_unpb_def)
  then show ?thesis
    unfolding demo_sync_def synced_def UnpackSSMessage_Pack by (simp only: u option.case SSMessage.simps SSMessageHead.simps prod.case outcome.case) (simp add: go_consts)
qed

lemma sync_installs_the_list_witness:
  "\<exists>g'. router_Receive demo_gate_env 0 demo_sync demo_gate = Some g' \<and> behind False 0 g' = {3, 5}"
  using sync_installs_the_list [of demo_gate_env False demo_sync "[3, 5]" demo_gate 0]
  by (simp add: demo_gate_env_def demo_sync_synced demo_gate_def) blast

text \<open>
  Whatever the routers send, players receive nothing but empty messages: whichever message
  \<open>Receive\<close> gets from a router, forwarded by key or broadcast or anything else, all that any
  connection accepts as a consequence is some number of empty messages, because
  \<open>CSMessage.Marshal\<close> returns an empty buffer.
\<close>

lemma players_only_get_empty_messages:
  assumes "router_Receive env r d g = Some g'"
  shows "\<exists>n. accepted (conns g' cn) = accepted (conns g cn) @ replicate n []"
proof -
  have "only_empty g g'"
    using assms
    by (auto simp: router_Receive_def router_dispatch_def BroadcastMsg_def HookServerMessage_def Let_def
        only_empty_router_sync split: option.splits prod.splits outcome.splits if_splits Option.bind_splits
        dest: only_empty_Send only_empty_send_to_tasks)
  then show ?thesis by (simp add: only_empty_def)
qed

lemma players_only_get_empty_messages_witness:
  "\<exists>g' n. router_Receive demo_gate_env 0 demo_sync demo_gate = Some g'
    \<and> accepted (conns g' 2) = accepted (conns demo_gate 2) @ replicate n []"
proof -
  obtain g' where g': "router_Receive demo_gate_env 0 demo_sync demo_gate = Some g'"
    using synced_Receive [of demo_gate_env False demo_sync "[3, 5]" 0 demo_gate] demo_sync_synced
    by (auto simp: demo_gate_env_def)
  then show ?thesis using players_only_get_empty_messages [OF g', of 2] by blast
qed

text \<open>
  No message of a player is ever handled. \<open>Connect\<close> stores a pointer to the new task as
  the owner of the connection and \<open>Receive\<close> asserts a task by value: on a connection that
  \<open>Connect\<close> was called for, \<open>Receive\<close> panics whatever the bytes are.
\<close>

lemma every_player_message_panics:
  "mgr_Receive env' cn d (mgr_Connect env cn g) = None
   \<and> conn_owners (mgr_Connect env cn g) cn = OwnerTaskPtr (length (tasks g))"
  by (simp add: mgr_Receive_def mgr_Connect_def Let_def)

text \<open>
  C12: a login needs the token. When \<open>handlerLoginMsg\<close> returns no error, the request decoded,
  its account id is positive, Redis holds a token of two parts for it and the first part is the
  token of the request; the account is then registered to this very task, and a task that was
  registered for it before has its connection closed. With any error but \<open>EC_MarshalFail\<close> the
  registered clients are as before.
\<close>

theorem login_needs_the_token:
  assumes "handlerLoginMsg env a b g = Some ((b', err), g')" and "a < length (tasks g)"
  shows "(err = None \<longrightarrow> (\<exists>req tok. decode_login env b = Some req \<and> 0 <s lr_AccountID req
        \<and> redis_token env (lr_AccountID req) = Some tok
        \<and> strings_Split tok CHR ''|'' = [lr_UserToken req, strings_Split tok CHR ''|'' ! 1]
        \<and> GetByID (lr_AccountID req) g' = Some a
        \<and> AccountID (tasks g' ! a) = lr_AccountID req
        \<and> (\<forall>old. GetByID (lr_AccountID req) g = Some old \<and> old \<noteq> a
              \<longrightarrow> closed (conns g' (ct_conn (tasks g ! old))))))
    \<and> (err \<noteq> None \<and> err \<noteq> Some EC_MarshalFail \<longrightarrow> mgr_clients g' = mgr_clients g)"
proof (cases "decode_login env b")
  case None
  then show ?thesis using assms(1) by (auto simp: handlerLoginMsg_def)
next
  case (Some req)
  let ?k = "lr_AccountID req" and ?g1 = "on_task a (\<lambda>t. t\<lparr>AccountID := lr_AccountID req\<rparr>) g"
  have fields: "AccountID (tasks ?g1 ! a) = ?k" "mgr_clients ?g1 = mgr_clients g" "a < length (tasks ?g1)"
    "ct_conn (tasks ?g1 ! c) = ct_conn (tasks g ! c)" "GetByID i ?g1 = GetByID i g" for c i
    using assms(2) by (simp_all add: GetByID_def)
  have sgn: "?k \<le>s 0 \<longleftrightarrow> \<not> 0 <s ?k" by (simp add: word_sle_eq word_sless_alt not_less)
  show ?thesis
  proof (cases "0 <s ?k \<and> (\<exists>tok. redis_token env ?k = Some tok
      \<and> length (strings_Split tok CHR ''|'') = 2 \<and> strings_Split tok CHR ''|'' ! 0 = lr_UserToken req)")
    case False
    then have "err = Some EC_ParameterInvalid \<or> err = Some EC_TokenInvalid" "mgr_clients g' = mgr_clients g"
      using assms(1) fields
      by (auto simp: handlerLoginMsg_def Some Let_def sgn split: if_splits option.splits)
    then show ?thesis by auto
  next
    case True
    then obtain tok where tok: "0 <s ?k" "redis_token env ?k = Some tok"
        "length (strings_Split tok CHR ''|'') = 2" "strings_Split tok CHR ''|'' ! 0 = lr_UserToken req" by blast
    then have "strings_Split tok CHR ''|'' = [lr_UserToken req, strings_Split tok CHR ''|'' ! 1]"
      by (auto simp: length_Suc_conv numeral_2_eq_2)
    moreover have "?k \<noteq> 0" using tok(1) by auto
    moreover have "(case GetByID ?k ?g1 of
      Some oldClient \<Rightarrow>
        if oldClient = a then Some ((b, None), ?g1)
        else do {
          g \<leftarrow> SendErrToMe env oldClient EC_AccountReplaced 0 ?g1;
          Some (login_dispatch env a req b (TerminateClient oldClient SESS_REPLACED g))
        }
    | None \<Rightarrow> Some (login_dispatch env a req b ?g1)) = Some ((b', err), g')"
      using assms(1) tok by (simp add: handlerLoginMsg_def Some Let_def sgn fields)
    ultimately show ?thesis
      using login_tail [where k = ?k and ?g1.0 = ?g1 and a = a and b = b and env = env and req = req
          and b' = b' and err = err and g' = g'] fields Some tok(1,2)
      by auto
  qed
qed

theorem login_needs_the_token_witness:
  "\<exists>b' g'. handlerLoginMsg demo_gate_env 0 [] (mgr_Connect demo_gate_env 2 demo_gate) = Some ((b', None), g')
    \<and> GetByID 77 g' = Some 0"
proof -
  let ?g = "mgr_Connect demo_gate_env 2 demo_gate"
  have "\<exists>b' g'. handlerLoginMsg demo_gate_env 0 [] ?g = Some ((b', None), g')"
    by (simp add: handlerLoginMsg_def demo_gate_env_def demo_gate_def mgr_Connect_def 
        on_task_def GetByID_def login_dispatch_def GameSvrAlive_def DispatchGameSvr_def Let_def go_consts
        word_sle_eq split: option.split)
  then obtain b' g' where "handlerLoginMsg demo_gate_env 0 [] ?g = Some ((b', None), g')" by blast
  then show ?thesis
    using login_needs_the_token [of demo_gate_env 0 "[]" ?g b' None g']
    by (auto simp: demo_gate_env_def mgr_Connect_def demo_gate_def Let_def)
qed

text \<open>
  \<open>register\<close> does not come back while the connection is open. Its loop is left only when
  sending fails: for any number of rounds, on an open connection, it has then sent the same
  \<open>READY\<close> message in every round and goes on; and between two connections, when there is none,
  it panics. (The router answers the
  second \<open>READY\<close> by closing the connection.)
\<close>

lemma register_repeats_for_ever:
  assumes "r_conn (routers g ! r) = Some cn" and "\<not> closed (conns g cn)"
  shows "(\<exists>g'. router_register fuel env r g = Some (None, g')
      \<and> accepted (conns g' cn)
        = accepted (conns g cn) @ replicate fuel (PackSSMessage (register_message env)))
    \<and> (r_conn (routers q ! r) = None \<longrightarrow> router_register (Suc fuel) env r q = None)"
  using register_loop_open [OF assms] by (simp add: router_register_def)

lemma register_repeats_for_ever_witness:
  "\<exists>g'. router_register 3 demo_gate_env 0 demo_gate = Some (None, g')
    \<and> accepted (conns g' 9) = replicate 3 (PackSSMessage (register_message demo_gate_env))"
  using register_repeats_for_ever [of demo_gate 0 9 3 demo_gate_env]
  by (simp add: demo_gate_def newTCPConnection_def)

text \<open>
  C31: every account has a chat server. However often the server list was refreshed, as soon
  as one server has been known (and fewer than \<open>2^47\<close> are, so that the counts of virtual nodes
  are exact) \<open>GetIMByAccountID\<close> finds a server object for every account id: the ring is never
  empty, its nodes print and parse back to known ids, and the map holds an object for each.
\<close>

theorem every_account_has_an_im:
  assumes "im_run (env_md5 env) g" and "hashRing g \<noteq> None" and "length (ims g) < 2 ^ 47"
  shows "\<exists>im. GetIMByAccountID env accountID g = Some im"
proof -
  obtain h where h: "hashRing g = Some h" using assms(2) by blast
  have inv: "im_inv (env_md5 env) g" using im_run_inv [OF assms(1)] by simp
  then have b: "built (env_md5 env) h" "uniform 1 h" "distinct (nodes h)" "nodes h \<noteq> []"
      "set (nodes h) \<subseteq> (\<lambda>(sid, _). Itoa sid) ` set (ims g)"
    using h by (simp_all add: im_inv_def)
  have c: "circle (env_md5 env) h" using b(1) by (rule built_circle)
  have "length (nodes h) \<le> card ((\<lambda>(sid, _). Itoa sid) ` set (ims g))"
    using b(3,5) by (simp add: card_mono flip: distinct_card)
  also have "\<dots> \<le> length (ims g)" using card_image_le card_length le_trans by blast
  finally have "light 1 (length (nodes h))" using assms(3) by (simp add: light_def)
  then have "owned (env_md5 env) h \<noteq> []" using b(2,4) by (intro uniform_owned)
  then obtain n where n: "GetNode (env_md5 env) (Itoa (sint accountID)) h = Some n" "n \<in> set (nodes h)"
    using owner_Some [of "owned (env_md5 env) h" "env_md5 env" "Itoa (sint accountID)"] owned_member [of "env_md5 env" h]
    by (auto simp: GetNode_owner [OF c])
  then obtain sid addr where s: "n = Itoa sid" "(sid, addr) \<in> set (ims g)" using b(5) by auto
  then have "- (2 ^ 63) \<le> sid" "sid < 2 ^ 63" "map_of (imMap g) (word_of_int sid) \<noteq> None"
    using inv by (auto simp: im_inv_def)
  then show ?thesis
    using n s by (auto simp: GetIMByAccountID_def h Let_def Atoi_Itoa)
qed

theorem every_account_has_an_im_witness:
  "\<exists>g' im. refreshIMSvrList demo_gate_env (\<lambda>_. JObject (Some 90) (Some ''im'')) [(''11'', [])] demo_gate = Some g'
    \<and> GetIMByAccountID demo_gate_env 77 g' = Some im"
proof -
  let ?parse = "\<lambda>_. JObject (Some 90) (Some ''im'')"
  have "Atoi ''11'' = Some 11" by (simp add: Atoi_def strconv_Atoi_def ParseInt_def ParseUint_def digit_val_def lower_def)
  then obtain g' where g': "refreshIMSvrList demo_gate_env ?parse [(''11'', [])] demo_gate = Some g'"
      "hashRing g' \<noteq> None" "length (ims g') = 1"
    by (simp add: refreshIMSvrList_def demo_gate_env_def demo_gate_def Let_def start_im_def)
  have "im_run (env_md5 demo_gate_env) demo_gate" by (rule im_run.intros(1)) (simp_all add: demo_gate_def)
  then have "im_run (env_md5 demo_gate_env) g'" by (rule im_run.intros(2) [OF _ refl g'(1)])
  moreover have "length (ims g') < 2 ^ 47" using g'(3) by simp
  ultimately show ?thesis using every_account_has_an_im [of demo_gate_env g' 77] g' by blast
qed

end
