(* ===== verification/RedisMutex.thy ===== *)
theory RedisMutex
  imports HashRing
begin

text \<open>
  The lock of \<open>base/dao/redis/redismutex.go\<close>: a counter in Redis that a client increments to
  take the lock and decrements to give it back; whoever sees 1 holds it. \<open>removeUserLoc\<close> of
  \<open>redis.go\<close> and \<open>GenKey\<close> of \<open>rediskey.go\<close> are its client and its key.

  Redis is not part of the repository: its commands are the argument \<open>ops\<close> on a state \<open>'r\<close>,
  with \<open>None\<close> an error reply. \<open>redis_docs\<close> is what its manual says, keys that expire and replies that
  are lost included; under it the clients run side by side (\<open>mutex_step\<close>), and \<open>mutex_excludes\<close> and
  \<open>every_fault_breaks_the_mutex\<close> say when the lock excludes. \<open>redis_ok\<close> is a Redis that always answers
  and on which no key expires, for a call that runs alone (\<open>lock_timeout_steals\<close>). \<open>Lock_runs\<close> and
  \<open>UnLock_runs\<close> relate the two: the functions do what the steps of one client do.
\<close>

record 'r redis =
  do_INCR :: "string \<Rightarrow> 'r \<Rightarrow> int option \<times> 'r"
  do_DECR :: "string \<Rightarrow> 'r \<Rightarrow> int option \<times> 'r"
  do_GET :: "string \<Rightarrow> 'r \<Rightarrow> int option \<times> 'r"
  do_DEL :: "string \<Rightarrow> 'r \<Rightarrow> bool \<times> 'r"
  do_EXPIRE :: "string \<Rightarrow> int \<Rightarrow> 'r \<Rightarrow> 'r"

record RedisMutex =
  LockerKey :: nat
  Spec :: string

datatype mutex_error = ReplyError | MutexTimeout

definition RedisMutexTTL :: int where "RedisMutexTTL = 1 * 1800"
definition RedisMutexRetryTimes :: nat where "RedisMutexRetryTimes = 5"

definition redis_GenKey :: "string \<Rightarrow> string \<Rightarrow> nat \<Rightarrow> string" where
  "redis_GenKey kt ks i = kt @ '':'' @ show_nat i @ '':'' @ ks"

section \<open>Commands with retries\<close>

fun retry :: "nat \<Rightarrow> ('r \<Rightarrow> 'a option \<times> 'r) \<Rightarrow> 'r \<Rightarrow> 'a option \<times> 'r" where
  "retry 0 cmd r = (None, r)"
| "retry (Suc n) cmd r = (case cmd r of (Some v, r) \<Rightarrow> (Some v, r) | (None, r) \<Rightarrow> retry n cmd r)"

definition wrapRedisInt64Clear :: "'r redis \<Rightarrow> string \<Rightarrow> 'r \<Rightarrow> unit option \<times> 'r" where
  "wrapRedisInt64Clear ops key =
     retry RedisMutexRetryTimes (\<lambda>r. case do_DEL ops key r of (True, r) \<Rightarrow> (Some (), r) | (False, r) \<Rightarrow> (None, r))"

definition wrapRedisInt64Get :: "'r redis \<Rightarrow> string \<Rightarrow> 'r \<Rightarrow> int option \<times> 'r" where
  "wrapRedisInt64Get ops key = retry RedisMutexRetryTimes (do_GET ops key)"

definition wrapRedisInt64Decr :: "'r redis \<Rightarrow> string \<Rightarrow> 'r \<Rightarrow> int option \<times> 'r" where
  "wrapRedisInt64Decr ops key = retry RedisMutexRetryTimes (do_DECR ops key)"

definition wrapRedisInt64Incr :: "'r redis \<Rightarrow> string \<Rightarrow> 'r \<Rightarrow> int option \<times> 'r" where
  "wrapRedisInt64Incr ops key =
     retry RedisMutexRetryTimes (\<lambda>r. case do_INCR ops key r of
         (Some n, r) \<Rightarrow> (Some n, do_EXPIRE ops key RedisMutexTTL r)
       | (None, r) \<Rightarrow> (None, r))"

section \<open>Lock and unlock\<close>

definition mutex_key :: "RedisMutex \<Rightarrow> string" where
  "mutex_key m = redis_GenKey ''rmutex'' (Spec m) (LockerKey m)"

text \<open>\<open>n\<close> is the number of tries left of the 150.\<close>

fun lock_loop :: "'r redis \<Rightarrow> string \<Rightarrow> nat \<Rightarrow> 'r \<Rightarrow> mutex_error option \<times> 'r" where
  "lock_loop ops key 0 r = (Some MutexTimeout, snd (wrapRedisInt64Clear ops key r))"
| "lock_loop ops key (Suc n) r =
     (case wrapRedisInt64Incr ops key r of
        (None, r) \<Rightarrow> (Some ReplyError, r)
      | (Some redisM, r) \<Rightarrow>
          if redisM \<ge> 2 then
            (case wrapRedisInt64Decr ops key r of
               (None, r) \<Rightarrow> (Some ReplyError, r)
             | (Some _, r) \<Rightarrow> lock_loop ops key n r)
          else (None, r))"

definition Lock :: "'r redis \<Rightarrow> RedisMutex \<Rightarrow> 'r \<Rightarrow> mutex_error option \<times> 'r" where
  "Lock ops m = lock_loop ops (mutex_key m) 150"

definition UnLock :: "'r redis \<Rightarrow> RedisMutex \<Rightarrow> 'r \<Rightarrow> mutex_error option \<times> 'r" where
  "UnLock ops m r =
     (case wrapRedisInt64Decr ops (mutex_key m) r of
        (None, r) \<Rightarrow> (Some ReplyError, r)
      | (Some redisM, r) \<Rightarrow> (None, if redisM < 0 then snd (wrapRedisInt64Clear ops (mutex_key m) r) else r))"

definition Validate :: "'r redis \<Rightarrow> RedisMutex \<Rightarrow> 'r \<Rightarrow> bool \<times> 'r" where
  "Validate ops m r =
     (case wrapRedisInt64Get ops (mutex_key m) r of (v, r) \<Rightarrow> (v = Some 0, r))"

section \<open>The client: \<open>redis.go\<close>\<close>

definition userLoc :: "'r redis \<Rightarrow> nat \<Rightarrow> 'r \<Rightarrow> u16 option \<times> 'r" where
  "userLoc ops uid r =
     (case do_GET ops (redis_GenKey ''user'' ''loc'' uid) r of
        (None, r) \<Rightarrow> (None, r)
      | (Some loc, r) \<Rightarrow> (Some (word_of_int loc), r))"

text \<open>The error of \<open>Lock\<close> is not looked at; on an error \<open>userLoc\<close> returns zero.\<close>

definition removeUserLoc :: "'r redis \<Rightarrow> nat \<Rightarrow> u16 \<Rightarrow> 'r \<Rightarrow> mutex_error option \<times> 'r" where
  "removeUserLoc ops uid gsid r =
     (let lock = \<lparr>LockerKey = uid, Spec = ''loc''\<rparr>;
          (_, r) = Lock ops lock r;
          (loc, r) = userLoc ops uid r;
          reply = (case loc of Some l \<Rightarrow> l | None \<Rightarrow> 0)
      in if reply = gsid then
           (case do_DEL ops (redis_GenKey ''user'' ''loc'' uid) r of
              (False, r) \<Rightarrow> (Some ReplyError, snd (UnLock ops lock r))
            | (True, r) \<Rightarrow> (None, snd (UnLock ops lock r)))
         else (None, snd (UnLock ops lock r)))"

section \<open>What the code relies on\<close>

definition counter :: "('r \<Rightarrow> string \<Rightarrow> int option) \<Rightarrow> 'r \<Rightarrow> string \<Rightarrow> int" where
  "counter val r k = (case val r k of Some n \<Rightarrow> n | None \<Rightarrow> 0)"

definition redis_ok :: "'r redis \<Rightarrow> ('r \<Rightarrow> string \<Rightarrow> int option) \<Rightarrow> bool" where
  "redis_ok ops val \<longleftrightarrow> (\<forall>k r.
       fst (do_INCR ops k r) = Some (counter val r k + 1)
     \<and> val (snd (do_INCR ops k r)) = (val r)(k \<mapsto> counter val r k + 1)
     \<and> fst (do_DECR ops k r) = Some (counter val r k - 1)
     \<and> val (snd (do_DECR ops k r)) = (val r)(k \<mapsto> counter val r k - 1)
     \<and> do_GET ops k r = (val r k, r)
     \<and> fst (do_DEL ops k r) \<and> val (snd (do_DEL ops k r)) = (val r)(k := None)
     \<and> (\<forall>t. val (do_EXPIRE ops k t r) = val r))"

lemma retry_first:
  assumes "0 < n" and "cmd r = (Some v, r')"
  shows "retry n cmd r = (Some v, r')"
  using assms by (cases n) simp_all

lemma RetryTimes_pos: "0 < RedisMutexRetryTimes"
  by (simp add: RedisMutexRetryTimes_def)

lemma wrapped_INCR:
  assumes "redis_ok ops val"
  shows "\<exists>r'. wrapRedisInt64Incr ops k r = (Some (counter val r k + 1), r') \<and> val r' = (val r)(k \<mapsto> counter val r k + 1)"
proof -
  obtain r1 where "do_INCR ops k r = (Some (counter val r k + 1), r1)" "val r1 = (val r)(k \<mapsto> counter val r k + 1)"
    using assms by (metis redis_ok_def prod.collapse)
  then show ?thesis
    using assms by (intro exI [of _ "do_EXPIRE ops k RedisMutexTTL r1"])
      (simp add: wrapRedisInt64Incr_def retry_first [OF RetryTimes_pos] redis_ok_def)
qed

lemma wrapped_DECR:
  assumes "redis_ok ops val"
  shows "\<exists>r'. wrapRedisInt64Decr ops k r = (Some (counter val r k - 1), r') \<and> val r' = (val r)(k \<mapsto> counter val r k - 1)"
proof -
  obtain r1 where "do_DECR ops k r = (Some (counter val r k - 1), r1)" "val r1 = (val r)(k \<mapsto> counter val r k - 1)"
    using assms by (metis redis_ok_def prod.collapse)
  then show ?thesis
    unfolding wrapRedisInt64Decr_def using retry_first [OF RetryTimes_pos, of "do_DECR ops k" r] by blast
qed

lemma wrapped_DEL:
  assumes "redis_ok ops val"
  shows "\<exists>r'. wrapRedisInt64Clear ops k r = (Some (), r') \<and> val r' = (val r)(k := None)"
proof -
  obtain b r1 where r1: "do_DEL ops k r = (b, r1)" by (cases "do_DEL ops k r")
  have "fst (do_DEL ops k r)" "val (snd (do_DEL ops k r)) = (val r)(k := None)"
    using assms by (simp_all add: redis_ok_def)
  then show ?thesis
    using r1 by (intro exI [of _ r1]) (simp add: wrapRedisInt64Clear_def retry_first [OF RetryTimes_pos])
qed

lemma lock_loop_held:
  assumes "redis_ok ops val" and "1 \<le> counter val r k"
  shows "fst (lock_loop ops k n r) = Some MutexTimeout \<and> val (snd (lock_loop ops k n r)) = (val r)(k := None)"
  using assms(2)
proof (induction n arbitrary: r)
  case 0
  then show ?case using wrapped_DEL [OF assms(1), of k r] by auto
next
  case (Suc n)
  obtain r1 where r1: "wrapRedisInt64Incr ops k r = (Some (counter val r k + 1), r1)"
      "val r1 = (val r)(k \<mapsto> counter val r k + 1)"
    using wrapped_INCR [OF assms(1)] by blast
  then have "counter val r1 k = counter val r k + 1" by (simp add: counter_def)
  then obtain r2 where r2: "wrapRedisInt64Decr ops k r1 = (Some (counter val r k), r2)"
      "val r2 = (val r)(k \<mapsto> counter val r k)"
    using wrapped_DECR [OF assms(1), of k r1] r1(2) by auto
  then have "counter val r2 k = counter val r k" by (simp add: counter_def)
  then show ?case using Suc.IH [of r2] Suc.prems r1 r2 by (auto simp: fun_eq_iff)
qed

lemma lock_loop_free:
  assumes "redis_ok ops val" and "counter val r k \<le> 0"
  shows "fst (lock_loop ops k (Suc n) r) = None
    \<and> val (snd (lock_loop ops k (Suc n) r)) = (val r)(k \<mapsto> counter val r k + 1)"
  using wrapped_INCR [OF assms(1), of k r] assms(2) by auto

lemma Lock_free:
  assumes "redis_ok ops val" and "counter val r (mutex_key m) \<le> 0"
  shows "fst (Lock ops m r) = None \<and> val (snd (Lock ops m r)) = (val r)(mutex_key m \<mapsto> counter val r (mutex_key m) + 1)"
proof -
  have "Lock ops m = lock_loop ops (mutex_key m) (Suc 149)" by (simp add: Lock_def)
  then show ?thesis using lock_loop_free [OF assms, of 149] by simp
qed

section \<open>Redis with a clock and with errors\<close>

text \<open>
  What the Redis manual promises when connections break and keys expire. A state \<open>'r\<close> shows its
  integer keys, their deadlines and the time. A command whose reply is an error (\<open>None\<close>) may or may
  not have been executed; \<open>INCR\<close> and \<open>DECR\<close> keep the deadline of their key, \<open>EXPIRE\<close> sets it, and a key
  whose deadline has come is gone.
\<close>

record 'r redis_view =
  key_val :: "'r \<Rightarrow> string \<Rightarrow> int option"
  deadline :: "'r \<Rightarrow> string \<Rightarrow> int option"
  time_of :: "'r \<Rightarrow> int"
  pass_time :: "nat \<Rightarrow> 'r \<Rightarrow> 'r"

definition same_keys :: "'r redis_view \<Rightarrow> 'r \<Rightarrow> 'r \<Rightarrow> bool" where
  "same_keys V r r' \<longleftrightarrow> key_val V r' = key_val V r \<and> deadline V r' = deadline V r \<and> time_of V r' = time_of V r"

definition wrote :: "'r redis_view \<Rightarrow> string \<Rightarrow> int \<Rightarrow> 'r \<Rightarrow> 'r \<Rightarrow> bool" where
  "wrote V k n r r' \<longleftrightarrow> key_val V r' = (key_val V r)(k \<mapsto> n) \<and> deadline V r' = deadline V r \<and> time_of V r' = time_of V r"

definition deleted :: "'r redis_view \<Rightarrow> string \<Rightarrow> 'r \<Rightarrow> 'r \<Rightarrow> bool" where
  "deleted V k r r' \<longleftrightarrow> key_val V r' = (key_val V r)(k := None) \<and> deadline V r' = (deadline V r)(k := None)
     \<and> time_of V r' = time_of V r"

definition due :: "'r redis_view \<Rightarrow> string \<Rightarrow> int \<Rightarrow> 'r \<Rightarrow> bool" where
  "due V k t r \<longleftrightarrow> (case deadline V r k of Some x \<Rightarrow> x \<le> t | None \<Rightarrow> False)"

definition answered :: "'r redis_view \<Rightarrow> string \<Rightarrow> int \<Rightarrow> 'r \<Rightarrow> int option \<times> 'r \<Rightarrow> bool" where
  "answered V k n r reply \<longleftrightarrow>
     (case reply of (Some v, r') \<Rightarrow> v = n \<and> wrote V k n r r' | (None, r') \<Rightarrow> wrote V k n r r' \<or> same_keys V r r')"

definition expire_set :: "'r redis_view \<Rightarrow> string \<Rightarrow> int \<Rightarrow> 'r \<Rightarrow> 'r \<Rightarrow> bool" where
  "expire_set V k t r r' \<longleftrightarrow> key_val V r' = key_val V r \<and> time_of V r' = time_of V r
     \<and> deadline V r' = (deadline V r)(k := map_option (\<lambda>_. time_of V r + t) (key_val V r k))"

definition redis_docs :: "'r redis \<Rightarrow> 'r redis_view \<Rightarrow> bool" where
  "redis_docs ops V \<longleftrightarrow> (\<forall>k r.
       answered V k (counter (key_val V) r k + 1) r (do_INCR ops k r)
     \<and> answered V k (counter (key_val V) r k - 1) r (do_DECR ops k r)
     \<and> (case do_DEL ops k r of (ok, r') \<Rightarrow> deleted V k r r' \<or> \<not> ok \<and> same_keys V r r')
     \<and> (\<forall>t. expire_set V k t r (do_EXPIRE ops k t r) \<or> same_keys V r (do_EXPIRE ops k t r))
     \<and> (\<forall>d. time_of V (pass_time V d r) = time_of V r + int d
          \<and> key_val V (pass_time V d r) k = (if due V k (time_of V r + int d) r then None else key_val V r k)
          \<and> deadline V (pass_time V d r) k = (if due V k (time_of V r + int d) r then None else deadline V r k)))"

section \<open>Clients side by side\<close>

text \<open>
  Any number of clients run \<open>Lock\<close> and \<open>UnLock\<close> on one key, one Redis command at a time, while
  time passes. \<open>i\<close> counts the 150 tries of \<open>Lock\<close>, \<open>j\<close> the retries of one command: \<open>Incr i j\<close> is about to
  send \<open>INCR\<close>; \<open>Expire i n\<close> was answered \<open>n\<close> and is about to send \<open>EXPIRE\<close>; \<open>Decr i j\<close> saw 2 or more and
  takes its increment back; \<open>Holding\<close>: \<open>Lock\<close> returned nil; \<open>Unlocking j\<close> and \<open>Clearing j\<close> are about to
  send the \<open>DECR\<close> of \<open>UnLock\<close> and the \<open>DEL\<close> of a clear.

  Four things defeat the lock, and \<open>faults\<close> is the set of those that may happen:
  \<^item> \<open>Timeout\<close>: a client comes to the end of its 150 tries and clears the counter;
  \<^item> \<open>Overrun\<close>: \<open>RedisMutexTTL\<close> seconds pass between the \<open>EXPIRE\<close> of a client and its giving back;
  \<^item> \<open>NoExpire\<close>: the \<open>EXPIRE\<close> after an \<open>INCR\<close> has no effect, or an older deadline comes before it;
  \<^item> \<open>LostDecr\<close>: a \<open>DECR\<close> is executed but answered with an error, so that it is sent again.
  All the other errors may happen in every run. \<open>since\<close> is the time of a client's last \<open>EXPIRE\<close>.
\<close>

datatype fault = Timeout | Overrun | NoExpire | LostDecr

datatype mutex_pc =
  Idle | Incr nat nat | Expire nat int | Decr nat nat | Holding | Unlocking nat | Clearing nat

record 'r mutex_sys =
  redis_state :: 'r
  mpc :: "nat \<Rightarrow> mutex_pc"
  since :: "nat \<Rightarrow> int"

definition set_pc :: "nat \<Rightarrow> mutex_pc \<Rightarrow> 'r \<Rightarrow> 'r mutex_sys \<Rightarrow> 'r mutex_sys" where
  "set_pc c pc r s = s\<lparr>redis_state := r, mpc := (mpc s)(c := pc)\<rparr>"

text \<open>\<open>again pc j\<close>: after an error the command is sent again, 5 times in all, then the call returns.\<close>

definition again :: "(nat \<Rightarrow> mutex_pc) \<Rightarrow> nat \<Rightarrow> mutex_pc" where
  "again pc j = (if Suc j < RedisMutexRetryTimes then pc (Suc j) else Idle)"

text \<open>Since its \<open>EXPIRE\<close> the client has counted on the key.\<close>

fun counting :: "mutex_pc \<Rightarrow> bool" where
  "counting (Decr i j) \<longleftrightarrow> True"
| "counting Holding \<longleftrightarrow> True"
| "counting (Unlocking j) \<longleftrightarrow> True"
| "counting _ \<longleftrightarrow> False"

fun expiring :: "mutex_pc \<Rightarrow> bool" where
  "expiring (Expire i n) \<longleftrightarrow> True"
| "expiring _ \<longleftrightarrow> False"

inductive mutex_step ::
  "fault set \<Rightarrow> 'r redis \<Rightarrow> 'r redis_view \<Rightarrow> string \<Rightarrow> 'r mutex_sys \<Rightarrow> 'r mutex_sys \<Rightarrow> bool"
  for faults ops V key where
  start: "mpc s c = Idle \<Longrightarrow> mutex_step faults ops V key s (set_pc c (Incr 0 0) (redis_state s) s)"
| incr: "mpc s c = Incr i j \<Longrightarrow> do_INCR ops key (redis_state s) = (Some n, r) \<Longrightarrow>
    mutex_step faults ops V key s (set_pc c (Expire i n) r s)"
| incr_error: "mpc s c = Incr i j \<Longrightarrow> do_INCR ops key (redis_state s) = (None, r) \<Longrightarrow>
    mutex_step faults ops V key s (set_pc c (again (Incr i) j) r s)"
| expire: "mpc s c = Expire i n \<Longrightarrow> do_EXPIRE ops key RedisMutexTTL (redis_state s) = r \<Longrightarrow>
    NoExpire \<in> faults \<or> expire_set V key RedisMutexTTL (redis_state s) r \<Longrightarrow>
    mutex_step faults ops V key s
      ((set_pc c (if n \<ge> 2 then Decr i 0 else Holding) r s)\<lparr>since := (since s)(c := time_of V r)\<rparr>)"
| decr: "mpc s c = Decr i j \<Longrightarrow> do_DECR ops key (redis_state s) = (Some n, r) \<Longrightarrow>
    Suc i < 150 \<or> Timeout \<in> faults \<Longrightarrow>
    mutex_step faults ops V key s (set_pc c (if Suc i < 150 then Incr (Suc i) 0 else Clearing 0) r s)"
| decr_error: "mpc s c = Decr i j \<Longrightarrow> do_DECR ops key (redis_state s) = (None, r) \<Longrightarrow>
    LostDecr \<in> faults \<or> same_keys V (redis_state s) r \<Longrightarrow>
    mutex_step faults ops V key s (set_pc c (again (Decr i) j) r s)"
| unlock: "mpc s c = Holding \<Longrightarrow> mutex_step faults ops V key s (set_pc c (Unlocking 0) (redis_state s) s)"
| give_back: "mpc s c = Unlocking j \<Longrightarrow> do_DECR ops key (redis_state s) = (Some n, r) \<Longrightarrow>
    mutex_step faults ops V key s (set_pc c (if n < 0 then Clearing 0 else Idle) r s)"
| give_back_error: "mpc s c = Unlocking j \<Longrightarrow> do_DECR ops key (redis_state s) = (None, r) \<Longrightarrow>
    LostDecr \<in> faults \<or> same_keys V (redis_state s) r \<Longrightarrow>
    mutex_step faults ops V key s (set_pc c (again Unlocking j) r s)"
| clear: "mpc s c = Clearing j \<Longrightarrow> do_DEL ops key (redis_state s) = (ok, r) \<Longrightarrow>
    mutex_step faults ops V key s (set_pc c (if ok then Idle else again Clearing j) r s)"
| pass: "Overrun \<in> faults \<or> (\<forall>c. counting (mpc s c) \<longrightarrow> time_of V (redis_state s) + int d < since s c + RedisMutexTTL) \<Longrightarrow>
    NoExpire \<in> faults \<or> (\<forall>c. expiring (mpc s c) \<longrightarrow> \<not> due V key (time_of V (redis_state s) + int d) (redis_state s)) \<Longrightarrow>
    mutex_step faults ops V key s (s\<lparr>redis_state := pass_time V d (redis_state s)\<rparr>)"

definition mutex_start :: "'r \<Rightarrow> 'r mutex_sys" where
  "mutex_start r = \<lparr>redis_state = r, mpc = (\<lambda>_. Idle), since = (\<lambda>_. 0)\<rparr>"

section \<open>The steps are those of \<open>Lock\<close> and \<open>UnLock\<close>\<close>

text \<open>A call that runs alone does, command by command, what the functions above say.\<close>

lemma two_steps: "step x y \<Longrightarrow> step y z \<Longrightarrow> step\<^sup>*\<^sup>* x z"
  by (meson r_into_rtranclp rtranclp.rtrancl_into_rtrancl)

lemma retry_run:
  fixes step :: "'s \<Rightarrow> 's \<Rightarrow> bool" and at :: "mutex_pc \<Rightarrow> 'r \<Rightarrow> 's"
  assumes error: "\<And>j r r'. cmd r = (None, r') \<Longrightarrow> step (at (pc j) r) (at (again pc j) r')"
    and fine: "\<And>j r x r'. cmd r = (Some x, r') \<Longrightarrow> step\<^sup>*\<^sup>* (at (pc j) r) (fin x r')"
    and "retry RedisMutexRetryTimes cmd r = (v, r')"
  shows "step\<^sup>*\<^sup>* (at (pc 0) r) (case v of None \<Rightarrow> at Idle r' | Some x \<Rightarrow> fin x r')"
proof -
  have "step\<^sup>*\<^sup>* (at (pc j) r) (case v of None \<Rightarrow> at Idle r' | Some x \<Rightarrow> fin x r')"
    if "j < RedisMutexRetryTimes" "retry (RedisMutexRetryTimes - j) cmd r = (v, r')" for j r
    using that
  proof (induction "RedisMutexRetryTimes - j" arbitrary: j r)
    case (Suc n)
    obtain w r1 where w: "cmd r = (w, r1)" by (cases "cmd r")
    show ?case
    proof (cases w)
      case (Some x)
      then have "v = Some x" "r' = r1" using Suc.prems(2) w by (simp_all flip: Suc.hyps(2))
      then show ?thesis using fine w Some by simp
    next
      case None
      then have one: "step (at (pc j) r) (at (again pc j) r1)" using error w by simp
      have r1: "retry n cmd r1 = (v, r')" using Suc.prems(2) w None by (simp flip: Suc.hyps(2))
      show ?thesis
      proof (cases "Suc j < RedisMutexRetryTimes")
        case True
        have n: "n = RedisMutexRetryTimes - Suc j" using Suc.hyps(2) by simp
        have "step\<^sup>*\<^sup>* (at (pc (Suc j)) r1) (case v of None \<Rightarrow> at Idle r' | Some x \<Rightarrow> fin x r')"
          using Suc.hyps(1) [OF n True, of r1] r1 by (simp add: n)
        then show ?thesis using one True
          by (simp add: again_def converse_rtranclp_into_rtranclp)
      next
        case False
        then have "n = 0" using Suc.hyps(2) Suc.prems(1) by simp
        then have "v = None" "r' = r1" using r1 by simp_all
        then show ?thesis using one False by (simp add: again_def)
      qed
    qed
  qed simp
  then show ?thesis using assms(3) by (simp add: RedisMutexRetryTimes_def)
qed

definition alone :: "(nat \<Rightarrow> mutex_pc) \<Rightarrow> nat \<Rightarrow> (nat \<Rightarrow> int) \<Rightarrow> mutex_pc \<Rightarrow> 'r \<Rightarrow> 'r mutex_sys" where
  "alone f c t pc r = \<lparr>redis_state = r, mpc = f(c := pc), since = t\<rparr>"

lemma alone_simps [simp]:
  "mpc (alone f c t pc r) = f(c := pc)" "redis_state (alone f c t pc r) = r" "since (alone f c t pc r) = t"
  "set_pc c pc' r' (alone f c t pc r) = alone f c t pc' r'"
  "(alone f c t pc r)\<lparr>since := t'\<rparr> = alone f c t' pc r"
  by (simp_all add: alone_def set_pc_def)

lemma alone_steps:
  "mutex_step F ops V key (alone f c t Idle r) (alone f c t (Incr 0 0) r)"
  "do_INCR ops key r = (Some n, r') \<Longrightarrow>
    mutex_step F ops V key (alone f c t (Incr i j) r) (alone f c t (Expire i n) r')"
  "do_INCR ops key r = (None, r') \<Longrightarrow>
    mutex_step F ops V key (alone f c t (Incr i j) r) (alone f c t (again (Incr i) j) r')"
  "do_EXPIRE ops key RedisMutexTTL r = r' \<Longrightarrow> NoExpire \<in> F \<or> expire_set V key RedisMutexTTL r r' \<Longrightarrow>
    mutex_step F ops V key (alone f c t (Expire i n) r)
      (alone f c (t(c := time_of V r')) (if n \<ge> 2 then Decr i 0 else Holding) r')"
  "do_DECR ops key r = (Some n, r') \<Longrightarrow> Suc i < 150 \<or> Timeout \<in> F \<Longrightarrow>
    mutex_step F ops V key (alone f c t (Decr i j) r) (alone f c t (if Suc i < 150 then Incr (Suc i) 0 else Clearing 0) r')"
  "do_DECR ops key r = (None, r') \<Longrightarrow> LostDecr \<in> F \<or> same_keys V r r' \<Longrightarrow>
    mutex_step F ops V key (alone f c t (Decr i j) r) (alone f c t (again (Decr i) j) r')"
  "mutex_step F ops V key (alone f c t Holding r) (alone f c t (Unlocking 0) r)"
  "do_DECR ops key r = (Some n, r') \<Longrightarrow>
    mutex_step F ops V key (alone f c t (Unlocking j) r) (alone f c t (if n < 0 then Clearing 0 else Idle) r')"
  "do_DECR ops key r = (None, r') \<Longrightarrow> LostDecr \<in> F \<or> same_keys V r r' \<Longrightarrow>
    mutex_step F ops V key (alone f c t (Unlocking j) r) (alone f c t (again Unlocking j) r')"
  "do_DEL ops key r = (ok, r') \<Longrightarrow>
    mutex_step F ops V key (alone f c t (Clearing j) r) (alone f c t (if ok then Idle else again Clearing j) r')"
  using mutex_step.start [of "alone f c t Idle r" c F ops V key]
    mutex_step.incr [of "alone f c t (Incr i j) r" c i j ops key n r' F V]
    mutex_step.incr_error [of "alone f c t (Incr i j) r" c i j ops key r' F V]
    mutex_step.expire [of "alone f c t (Expire i n) r" c i n ops key r' F V]
    mutex_step.decr [of "alone f c t (Decr i j) r" c i j ops key n r' F V]
    mutex_step.decr_error [of "alone f c t (Decr i j) r" c i j ops key r' F V]
    mutex_step.unlock [of "alone f c t Holding r" c F ops V key]
    mutex_step.give_back [of "alone f c t (Unlocking j) r" c j ops key n r' F V]
    mutex_step.give_back_error [of "alone f c t (Unlocking j) r" c j ops key r' F V]
    mutex_step.clear [of "alone f c t (Clearing j) r" c j ops key ok r' F V]
  by simp_all

abbreviation runs :: "'r redis \<Rightarrow> 'r redis_view \<Rightarrow> string \<Rightarrow> 'r mutex_sys \<Rightarrow> 'r mutex_sys \<Rightarrow> bool" where
  "runs ops V key \<equiv> (mutex_step UNIV ops V key)\<^sup>*\<^sup>*"

lemma Incr_runs:
  assumes "wrapRedisInt64Incr ops key r = (v, r')"
  shows "\<exists>t'. runs ops V key (alone f c t (Incr i 0) r)
    (alone f c t' (case v of None \<Rightarrow> Idle | Some n \<Rightarrow> if n \<ge> 2 then Decr i 0 else Holding) r')"
proof -
  let ?cmd = "\<lambda>r. case do_INCR ops key r of
      (Some n, r) \<Rightarrow> (Some n, do_EXPIRE ops key RedisMutexTTL r) | (None, r) \<Rightarrow> (None, r)"
  let ?fin = "\<lambda>n r. alone f c (t(c := time_of V r)) (if n \<ge> 2 then Decr i 0 else Holding) r"
  have "runs ops V key (alone f c t (Incr i 0) r)
      (case v of None \<Rightarrow> alone f c t Idle r' | Some n \<Rightarrow> ?fin n r')"
  proof (rule retry_run [where pc = "Incr i" and cmd = ?cmd])
    fix j r r' assume "?cmd r = (None, r')"
    then have "do_INCR ops key r = (None, r')" by (auto split: prod.splits option.splits)
    then show "mutex_step UNIV ops V key (alone f c t (Incr i j) r) (alone f c t (again (Incr i) j) r')"
      by (rule alone_steps(3))
  next
    fix j r n r' assume "?cmd r = (Some n, r')"
    then obtain r1 where r1: "do_INCR ops key r = (Some n, r1)" "r' = do_EXPIRE ops key RedisMutexTTL r1"
      by (auto split: prod.splits option.splits)
    have "mutex_step UNIV ops V key (alone f c t (Incr i j) r) (alone f c t (Expire i n) r1)"
      using r1(1) by (rule alone_steps(2))
    moreover have "mutex_step UNIV ops V key (alone f c t (Expire i n) r1) (?fin n r')"
      using r1(2) alone_steps(4) [of ops key r1 r' UNIV V] by simp
    ultimately show "runs ops V key (alone f c t (Incr i j) r) (?fin n r')" by (rule two_steps)
  qed (use assms in \<open>simp add: wrapRedisInt64Incr_def\<close>)
  then show ?thesis by (cases v) auto
qed

lemma Decr_runs:
  assumes "wrapRedisInt64Decr ops key r = (v, r')"
  shows "runs ops V key (alone f c t (Decr i 0) r)
    (case v of None \<Rightarrow> alone f c t Idle r'
     | Some n \<Rightarrow> alone f c t (if Suc i < 150 then Incr (Suc i) 0 else Clearing 0) r')"
proof (rule retry_run [where pc = "Decr i" and cmd = "do_DECR ops key"])
  fix j r r' assume "do_DECR ops key r = (None, r')"
  then show "mutex_step UNIV ops V key (alone f c t (Decr i j) r) (alone f c t (again (Decr i) j) r')"
    by (rule alone_steps(6)) simp
next
  fix j r n r' assume "do_DECR ops key r = (Some n, r')"
  then show "runs ops V key (alone f c t (Decr i j) r)
      (alone f c t (if Suc i < 150 then Incr (Suc i) 0 else Clearing 0) r')"
    using alone_steps(5) [of ops key r n r' i UNIV V] by blast
qed (use assms in \<open>simp add: wrapRedisInt64Decr_def\<close>)

lemma Unlocking_runs:
  assumes "wrapRedisInt64Decr ops key r = (v, r')"
  shows "runs ops V key (alone f c t (Unlocking 0) r)
    (case v of None \<Rightarrow> alone f c t Idle r' | Some n \<Rightarrow> alone f c t (if n < 0 then Clearing 0 else Idle) r')"
proof (rule retry_run [where pc = Unlocking and cmd = "do_DECR ops key"])
  fix j r r' assume "do_DECR ops key r = (None, r')"
  then show "mutex_step UNIV ops V key (alone f c t (Unlocking j) r) (alone f c t (again Unlocking j) r')"
    by (rule alone_steps(9)) simp
next
  fix j r n r' assume "do_DECR ops key r = (Some n, r')"
  then show "runs ops V key (alone f c t (Unlocking j) r) (alone f c t (if n < 0 then Clearing 0 else Idle) r')"
    using alone_steps(8) [of ops key r n r' UNIV V] by blast
qed (use assms in \<open>simp add: wrapRedisInt64Decr_def\<close>)

lemma Clearing_runs:
  "runs ops V key (alone f c t (Clearing 0) r) (alone f c t Idle (snd (wrapRedisInt64Clear ops key r)))"
proof -
  let ?cmd = "\<lambda>r. case do_DEL ops key r of (True, r) \<Rightarrow> (Some (), r) | (False, r) \<Rightarrow> (None, r)"
  obtain v r' where v: "wrapRedisInt64Clear ops key r = (v, r')" by fastforce
  have "runs ops V key (alone f c t (Clearing 0) r)
      (case v of None \<Rightarrow> alone f c t Idle r' | Some u \<Rightarrow> alone f c t Idle r')"
  proof (rule retry_run [where pc = Clearing and cmd = ?cmd])
    fix j r r' assume "?cmd r = (None, r')"
    then have "do_DEL ops key r = (False, r')" by (auto split: prod.splits bool.splits)
    then show "mutex_step UNIV ops V key (alone f c t (Clearing j) r) (alone f c t (again Clearing j) r')"
      using alone_steps(10) [of ops key r False r' UNIV V] by simp
  next
    fix j r u r' assume "?cmd r = (Some u, r')"
    then have "do_DEL ops key r = (True, r')" by (auto split: prod.splits bool.splits)
    then show "runs ops V key (alone f c t (Clearing j) r) (alone f c t Idle r')"
      using alone_steps(10) [of ops key r True r' UNIV V] by auto
  qed (use v in \<open>simp add: wrapRedisInt64Clear_def\<close>)
  then show ?thesis using v by (cases v) simp_all
qed

lemma lock_loop_runs:
  "i + n = 150 \<Longrightarrow> lock_loop ops key n r = (e, r') \<Longrightarrow>
    \<exists>t'. runs ops V key (alone f c t (if n = 0 then Clearing 0 else Incr i 0) r)
      (alone f c t' (if e = None then Holding else Idle) r')"
proof (induction n arbitrary: i r t)
  case 0
  then show ?case using Clearing_runs [of ops V key f c t r] by auto
next
  case (Suc n)
  obtain v r1 where v: "wrapRedisInt64Incr ops key r = (v, r1)" by fastforce
  obtain t1 where t1: "runs ops V key (alone f c t (Incr i 0) r)
      (alone f c t1 (case v of None \<Rightarrow> Idle | Some n \<Rightarrow> if n \<ge> 2 then Decr i 0 else Holding) r1)"
    using Incr_runs [OF v] by blast
  show ?case
  proof (cases "\<exists>m \<ge> 2. v = Some m")
    case False
    then have "r' = r1 \<and> (if e = None then Holding else Idle)
        = (case v of None \<Rightarrow> Idle | Some n \<Rightarrow> if n \<ge> 2 then Decr i 0 else Holding)"
      using Suc.prems(2) v by (cases v) (auto simp: not_le)
    then show ?thesis using t1 by auto
  next
    case True
    obtain w r2 where w: "wrapRedisInt64Decr ops key r1 = (w, r2)" by fastforce
    have d: "runs ops V key (alone f c t1 (Decr i 0) r1)
      (case w of None \<Rightarrow> alone f c t1 Idle r2
       | Some n \<Rightarrow> alone f c t1 (if Suc i < 150 then Incr (Suc i) 0 else Clearing 0) r2)"
      by (rule Decr_runs [OF w])
    show ?thesis
    proof (cases w)
      case None
      then have "e = Some ReplyError" "r' = r2" using Suc.prems(2) v w True by auto
      moreover have "runs ops V key (alone f c t (Incr i 0) r) (alone f c t1 Idle r2)"
        using t1 d True None by (auto intro: rtranclp_trans)
      ultimately show ?thesis by auto
    next
      case (Some x)
      then have l: "lock_loop ops key n r2 = (e, r')" using Suc.prems(2) v w True by auto
      have n: "Suc i < 150 \<longleftrightarrow> n \<noteq> 0" using Suc.prems(1) by auto
      obtain t2 where "runs ops V key (alone f c t1 (if n = 0 then Clearing 0 else Incr (Suc i) 0) r2)
          (alone f c t2 (if e = None then Holding else Idle) r')"
        using Suc.IH [of "Suc i" r2 t1] Suc.prems(1) l by auto
      then have "runs ops V key (alone f c t1 (Decr i 0) r1) (alone f c t2 (if e = None then Holding else Idle) r')"
        using d Some n by (cases "n = 0") (auto intro: rtranclp_trans)
      moreover have "runs ops V key (alone f c t (Incr i 0) r) (alone f c t1 (Decr i 0) r1)" using t1 True by auto
      ultimately show ?thesis using rtranclp_trans by fastforce
    qed
  qed
qed

lemma Lock_runs:
  assumes "Lock ops m r = (e, r')"
  shows "\<exists>t'. runs ops V (mutex_key m) (alone f c t Idle r) (alone f c t' (if e = None then Holding else Idle) r')"
proof -
  have "mutex_step UNIV ops V (mutex_key m) (alone f c t Idle r) (alone f c t (Incr 0 0) r)"
    by (rule alone_steps)
  moreover obtain t' where "runs ops V (mutex_key m) (alone f c t (Incr 0 0) r)
      (alone f c t' (if e = None then Holding else Idle) r')"
    using lock_loop_runs [of 0 150 ops "mutex_key m" r e r' V f c t] assms by (auto simp: Lock_def)
  ultimately show ?thesis by (meson converse_rtranclp_into_rtranclp)
qed

lemma UnLock_runs:
  assumes "UnLock ops m r = (e, r')"
  shows "runs ops V (mutex_key m) (alone f c t Holding r) (alone f c t Idle r')"
proof -
  obtain v r1 where v: "wrapRedisInt64Decr ops (mutex_key m) r = (v, r1)" by fastforce
  have "mutex_step UNIV ops V (mutex_key m) (alone f c t Holding r) (alone f c t (Unlocking 0) r)"
    by (rule alone_steps)
  then have "runs ops V (mutex_key m) (alone f c t Holding r)
      (case v of None \<Rightarrow> alone f c t Idle r1 | Some n \<Rightarrow> alone f c t (if n < 0 then Clearing 0 else Idle) r1)"
    using Unlocking_runs [OF v] by (rule converse_rtranclp_into_rtranclp)
  then show ?thesis
    using assms v Clearing_runs [of ops V "mutex_key m" f c t r1]
    by (auto simp: UnLock_def split: option.splits if_splits intro: rtranclp_trans)
qed

section \<open>Exclusion\<close>

text \<open>
  A client is engaged from the answer to its \<open>INCR\<close> until the answer to its \<open>DECR\<close>; it owns the
  lock when that answer was at most 1.
\<close>

fun engaged_pc :: "mutex_pc \<Rightarrow> bool" where
  "engaged_pc Idle \<longleftrightarrow> False"
| "engaged_pc (Incr i j) \<longleftrightarrow> False"
| "engaged_pc (Clearing j) \<longleftrightarrow> False"
| "engaged_pc _ \<longleftrightarrow> True"

fun owner_pc :: "mutex_pc \<Rightarrow> bool" where
  "owner_pc (Expire i n) \<longleftrightarrow> n < 2"
| "owner_pc Holding \<longleftrightarrow> True"
| "owner_pc (Unlocking j) \<longleftrightarrow> True"
| "owner_pc _ \<longleftrightarrow> False"

fun clearing :: "mutex_pc \<Rightarrow> bool" where
  "clearing (Clearing j) \<longleftrightarrow> True"
| "clearing _ \<longleftrightarrow> False"

lemma pc_classes:
  "owner_pc p \<Longrightarrow> engaged_pc p" "counting p \<Longrightarrow> engaged_pc p" "expiring p \<Longrightarrow> engaged_pc p"
  "engaged_pc p \<longleftrightarrow> counting p \<or> expiring p" "clearing p \<Longrightarrow> \<not> engaged_pc p"
  by (cases p; simp)+

definition engaged :: "'r mutex_sys \<Rightarrow> nat set" where
  "engaged s = {c. engaged_pc (mpc s c)}"

text \<open>The key outlives everybody who counts on it.\<close>

definition fresh :: "'r redis_view \<Rightarrow> string \<Rightarrow> 'r mutex_sys \<Rightarrow> nat \<Rightarrow> bool" where
  "fresh V key s c \<longleftrightarrow> since s c \<le> time_of V (redis_state s)
     \<and> (\<forall>x. deadline V (redis_state s) key = Some x \<longrightarrow> since s c + RedisMutexTTL \<le> x)"

definition mutex_inv :: "'r redis_view \<Rightarrow> string \<Rightarrow> 'r mutex_sys \<Rightarrow> bool" where
  "mutex_inv V key s \<longleftrightarrow> finite (engaged s)
     \<and> int (card (engaged s)) \<le> counter (key_val V) (redis_state s) key
     \<and> (\<forall>c d. owner_pc (mpc s c) \<and> owner_pc (mpc s d) \<longrightarrow> c = d)
     \<and> (\<forall>c. counting (mpc s c) \<longrightarrow> fresh V key s c)
     \<and> (\<forall>c. \<not> clearing (mpc s c))"

lemma engaged_set_pc:
  "engaged (set_pc c pc r s) = (if engaged_pc pc then insert c (engaged s) else engaged s - {c})"
  by (auto simp: engaged_def set_pc_def)

lemma set_pc_simps [simp]:
  "redis_state (set_pc c pc r s) = r" "mpc (set_pc c pc r s) = (mpc s)(c := pc)" "since (set_pc c pc r s) = since s"
  "engaged (s\<lparr>since := t\<rparr>) = engaged s"
  by (simp_all add: set_pc_def engaged_def)

lemma counter_cases:
  "wrote V k n r r' \<Longrightarrow> counter (key_val V) r' k = n"
  "same_keys V r r' \<Longrightarrow> counter (key_val V) r' k = counter (key_val V) r k"
  "expire_set V k t r r' \<Longrightarrow> counter (key_val V) r' k = counter (key_val V) r k"
  by (simp_all add: counter_def wrote_def same_keys_def expire_set_def)

lemma fresh_kept:
  assumes "wrote V k n (redis_state s) r \<or> same_keys V (redis_state s) r"
  shows "fresh V key (set_pc c pc r s) d \<longleftrightarrow> fresh V key s d"
  using assms by (auto simp: fresh_def wrote_def same_keys_def)

text \<open>A command that keeps the deadlines, and a client that does not become an owner by it.\<close>

lemma mutex_inv_move:
  assumes "mutex_inv V key s" and "wrote V key n (redis_state s) r \<or> same_keys V (redis_state s) r"
    and "int (card (if engaged_pc pc then insert c (engaged s) else engaged s - {c})) \<le> counter (key_val V) r key"
    and "owner_pc pc \<Longrightarrow> owner_pc (mpc s c) \<or> engaged s = {}" and "counting pc \<Longrightarrow> counting (mpc s c)" and "\<not> clearing pc"
  shows "mutex_inv V key (set_pc c pc r s)"
proof -
  have one: "owner_pc (mpc s d) \<Longrightarrow> owner_pc (mpc s e) \<Longrightarrow> d = e" for d e
    using assms(1) unfolding mutex_inv_def by simp
  have none: "\<not> owner_pc (mpc s d)" if "engaged s = {}" for d
    using that pc_classes(1) by (auto simp: engaged_def)
  have "d = e" if o: "owner_pc (((mpc s)(c := pc)) d)" "owner_pc (((mpc s)(c := pc)) e)" for d e
  proof (cases "engaged s = {}")
    case True
    then show ?thesis using o none by (simp split: if_splits)
  next
    case False
    have "owner_pc (mpc s x)" if "owner_pc (((mpc s)(c := pc)) x)" for x
      using that assms(4) False by (cases "x = c") simp_all
    then show ?thesis using o one by blast
  qed
  moreover have "fresh V key (set_pc c pc r s) d" if "counting (((mpc s)(c := pc)) d)" for d
  proof -
    have "counting (mpc s d)" using that assms(5) by (cases "d = c") simp_all
    then show ?thesis using assms(1) unfolding mutex_inv_def fresh_kept [OF assms(2)] by blast
  qed
  moreover have "finite (engaged (set_pc c pc r s))" using assms(1) by (simp add: mutex_inv_def engaged_set_pc)
  moreover have "\<not> clearing (((mpc s)(c := pc)) d)" for d
    using assms(1,6) by (cases "d = c") (simp_all add: mutex_inv_def)
  ultimately show ?thesis
    using assms(3) unfolding mutex_inv_def set_pc_simps engaged_set_pc by blast
qed

lemma card_engaged:
  "finite (engaged s) \<Longrightarrow> engaged_pc (mpc s c) \<Longrightarrow>
    int (card (engaged s - {c})) = int (card (engaged s)) - 1 \<and> insert c (engaged s) = engaged s"
  "finite (engaged s) \<Longrightarrow> \<not> engaged_pc (mpc s c) \<Longrightarrow>
    int (card (insert c (engaged s))) = int (card (engaged s)) + 1 \<and> engaged s - {c} = engaged s"
proof -
  show "int (card (engaged s - {c})) = int (card (engaged s)) - 1 \<and> insert c (engaged s) = engaged s"
    if "finite (engaged s)" "engaged_pc (mpc s c)"
  proof -
    have c: "c \<in> engaged s" using that by (simp add: engaged_def)
    have "card (engaged s) = Suc (card (engaged s - {c}))"
      using card_Suc_Diff1 [OF that(1) c] by (rule sym)
    then show ?thesis using c by (simp only: of_nat_Suc insert_absorb) simp
  qed
  show "int (card (insert c (engaged s))) = int (card (engaged s)) + 1 \<and> engaged s - {c} = engaged s"
    if "finite (engaged s)" "\<not> engaged_pc (mpc s c)"
    using that by (simp add: engaged_def)
qed

lemma again_class:
  "again (Incr i) j = Idle \<or> (\<exists>k. again (Incr i) j = Incr i k)"
  "again (Decr i) j = Idle \<or> (\<exists>k. again (Decr i) j = Decr i k)"
  "again Unlocking j = Idle \<or> (\<exists>k. again Unlocking j = Unlocking k)"
  by (auto simp: again_def)

lemma mutex_inv_expire:
  assumes "mutex_inv V key s" and "mpc s c = Expire i n" and "expire_set V key RedisMutexTTL (redis_state s) r"
  shows "mutex_inv V key ((set_pc c (if n \<ge> 2 then Decr i 0 else Holding) r s)\<lparr>since := (since s)(c := time_of V r)\<rparr>)"
    (is "mutex_inv V key ?s")
proof -
  let ?pc = "if n \<ge> 2 then Decr i 0 else Holding"
  have e: "engaged ?s = engaged s"
    using assms(2) by (simp add: engaged_set_pc) (auto simp: engaged_def)
  have fresh: "fresh V key ?s d" if "d = c \<or> fresh V key s d" for d
    using that assms(3) by (cases "key_val V (redis_state s) key") (auto simp: fresh_def expire_set_def)
  have pcs: "mpc ?s d = ((mpc s)(c := ?pc)) d" "redis_state ?s = r" for d by simp_all
  have "owner_pc (((mpc s)(c := ?pc)) d) \<longleftrightarrow> owner_pc (mpc s d)"
    "clearing (((mpc s)(c := ?pc)) d) \<longleftrightarrow> clearing (mpc s d)"
    "counting (((mpc s)(c := ?pc)) d) \<longleftrightarrow> d = c \<or> counting (mpc s d)" for d
    using assms(2) by simp_all
  then show ?thesis
    using assms(1) fresh counter_cases(3) [OF assms(3)] unfolding mutex_inv_def e pcs by simp
qed

lemma mutex_inv_pass:
  assumes "redis_docs ops V" and "mutex_inv V key s"
    and "\<forall>c. counting (mpc s c) \<longrightarrow> time_of V (redis_state s) + int d < since s c + RedisMutexTTL"
    and "\<forall>c. expiring (mpc s c) \<longrightarrow> \<not> due V key (time_of V (redis_state s) + int d) (redis_state s)"
  shows "mutex_inv V key (s\<lparr>redis_state := pass_time V d (redis_state s)\<rparr>)"
proof -
  let ?r = "redis_state s" and ?r' = "pass_time V d (redis_state s)"
  let ?due = "due V key (time_of V ?r + int d) ?r"
  have t: "time_of V ?r' = time_of V ?r + int d"
    "key_val V ?r' key = (if ?due then None else key_val V ?r key)"
    "deadline V ?r' key = (if ?due then None else deadline V ?r key)"
    using assms(1) by (simp_all add: redis_docs_def)
  have "\<not> ?due" if "c \<in> engaged s" for c
  proof -
    consider "counting (mpc s c)" | "expiring (mpc s c)"
      using \<open>c \<in> engaged s\<close> pc_classes(4) by (auto simp: engaged_def)
    then show ?thesis
    proof cases
      case 1
      then have "fresh V key s c" "time_of V ?r + int d < since s c + RedisMutexTTL"
        using assms(2,3) by (simp_all add: mutex_inv_def)
      then show ?thesis by (auto simp: fresh_def due_def split: option.splits)
    qed (use assms(4) in blast)
  qed
  then have "int (card (engaged s)) \<le> counter (key_val V) ?r' key"
    using assms(2) t(2) by (cases "engaged s = {}") (auto simp: mutex_inv_def counter_def)
  moreover have "fresh V key (s\<lparr>redis_state := ?r'\<rparr>) c" if "fresh V key s c" for c
    using that t(1,3) by (auto simp: fresh_def split: option.splits)
  ultimately show ?thesis using assms(2) by (simp add: mutex_inv_def engaged_def)
qed

lemma answers:
  assumes "redis_docs ops V"
  shows "do_INCR ops k r = (Some n, r') \<Longrightarrow> n = counter (key_val V) r k + 1 \<and> wrote V k n r r'"
    "do_INCR ops k r = (None, r') \<Longrightarrow> wrote V k (counter (key_val V) r k + 1) r r' \<or> same_keys V r r'"
    "do_DECR ops k r = (Some n, r') \<Longrightarrow> n = counter (key_val V) r k - 1 \<and> wrote V k n r r'"
proof -
  have "answered V k (counter (key_val V) r k + 1) r (do_INCR ops k r)"
    "answered V k (counter (key_val V) r k - 1) r (do_DECR ops k r)"
    using assms by (simp_all add: redis_docs_def)
  then show "do_INCR ops k r = (Some n, r') \<Longrightarrow> n = counter (key_val V) r k + 1 \<and> wrote V k n r r'"
    "do_INCR ops k r = (None, r') \<Longrightarrow> wrote V k (counter (key_val V) r k + 1) r r' \<or> same_keys V r r'"
    "do_DECR ops k r = (Some n, r') \<Longrightarrow> n = counter (key_val V) r k - 1 \<and> wrote V k n r r'"
    by (simp_all add: answered_def)
qed

lemma mutex_inv_step:
  assumes "redis_docs ops V" and "mutex_step {} ops V key s s'" and "mutex_inv V key s"
  shows "mutex_inv V key s'"
  using assms(2,3)
proof (induction rule: mutex_step.cases)
  case (start t c)
  then have "engaged t - {c} = engaged t" using card_engaged(2) [of t c] by (simp add: mutex_inv_def)
  then have "mutex_inv V key (set_pc c (Incr 0 0) (redis_state t) t)"
    using start by (intro mutex_inv_move [where n = 0]) (simp_all add: same_keys_def mutex_inv_def)
  then show ?case using start by simp
next
  case (incr t c i j n r)
  then have w: "wrote V key n (redis_state t) r" "n = counter (key_val V) (redis_state t) key + 1"
    by (auto dest: answers(1) [OF assms(1)])
  have f: "finite (engaged t)" "int (card (engaged t)) + 1 \<le> n" using incr w(2) by (simp_all add: mutex_inv_def)
  have "engaged t = {}" if "n < 2"
  proof -
    have "card (engaged t) = 0" using that f(2) by linarith
    then show ?thesis using f(1) by simp
  qed
  moreover have "int (card (insert c (engaged t))) \<le> counter (key_val V) r key"
    using card_engaged(2) [of t c] f incr counter_cases(1) [OF w(1)] by simp
  ultimately show ?case
    using incr w(1) by (simp only:) (rule mutex_inv_move [where n = n]; simp)
next
  case (incr_error t c i j r)
  then have w: "wrote V key (counter (key_val V) (redis_state t) key + 1) (redis_state t) r \<or> same_keys V (redis_state t) r"
    by (auto dest: answers(2) [OF assms(1)])
  then have "counter (key_val V) (redis_state t) key \<le> counter (key_val V) r key"
    using counter_cases(1) [of V key "counter (key_val V) (redis_state t) key + 1" "redis_state t" r]
      counter_cases(2) [of V "redis_state t" r key] by linarith
  moreover have f: "finite (engaged t)" "int (card (engaged t)) \<le> counter (key_val V) (redis_state t) key"
    using incr_error by (simp_all add: mutex_inv_def)
  ultimately have "int (card (engaged t)) \<le> counter (key_val V) r key" by simp
  moreover have "engaged t - {c} = engaged t" using card_engaged(2) [OF f(1), of c] incr_error by simp
  ultimately have "int (card (engaged t - {c})) \<le> counter (key_val V) r key" by simp
  moreover have "mutex_inv V key t" using incr_error by simp
  ultimately have ok: "mutex_inv V key (set_pc c pc r t)" if "pc = Idle \<or> (\<exists>k. pc = Incr i k)" for pc
  proof -
    have "\<not> engaged_pc pc" "\<not> owner_pc pc" "\<not> counting pc" "\<not> clearing pc" using that by auto
    then show ?thesis
      using \<open>int (card (engaged t - {c})) \<le> _\<close> by (intro mutex_inv_move [OF \<open>mutex_inv V key t\<close> w]) simp_all
  qed
  show ?case using ok [OF again_class(1)] incr_error(2) by (simp only:)
next
  case (expire t c i n r)
  show ?case using mutex_inv_expire [OF expire(6) [unfolded expire(1)] expire(3)] expire(2,5) by (simp only: empty_iff simp_thms)
next
  case (decr t c i j n r)
  then have w: "wrote V key n (redis_state t) r" "n = counter (key_val V) (redis_state t) key - 1"
    by (auto dest: answers(3) [OF assms(1)])
  have "finite (engaged t)" using decr by (simp add: mutex_inv_def)
  then have "int (card (engaged t - {c})) \<le> counter (key_val V) r key"
    using card_engaged(1) [of t c] decr w(2) counter_cases(1) [OF w(1)] by (simp add: mutex_inv_def)
  then show ?case
    using decr w(1) by (simp only:) (rule mutex_inv_move [where n = n]; simp)
next
  case (decr_error t c i j r)
  then have w: "same_keys V (redis_state t) r" by simp
  have "finite (engaged t)" using decr_error by (simp add: mutex_inv_def)
  then have "int (card (engaged t)) \<le> counter (key_val V) r key" "int (card (engaged t - {c})) \<le> counter (key_val V) r key"
    "insert c (engaged t) = engaged t"
    using card_engaged(1) [of t c] decr_error counter_cases(2) [OF w] by (simp_all add: mutex_inv_def)
  then show ?case
    using decr_error w again_class(2) [of i j] by (auto intro!: mutex_inv_move [where n = 0])
next
  case (unlock t c)
  then have "insert c (engaged t) = engaged t" using card_engaged(1) [of t c] by (simp add: mutex_inv_def)
  then have "mutex_inv V key (set_pc c (Unlocking 0) (redis_state t) t)"
    using unlock by (intro mutex_inv_move [where n = 0]) (simp_all add: same_keys_def mutex_inv_def)
  then show ?case using unlock by simp
next
  case (give_back t c j n r)
  then have w: "wrote V key n (redis_state t) r" "n = counter (key_val V) (redis_state t) key - 1"
    by (auto dest: answers(3) [OF assms(1)])
  have f: "finite (engaged t)" using give_back by (simp add: mutex_inv_def)
  then have "int (card (engaged t - {c})) \<le> n"
    using card_engaged(1) [of t c] give_back w(2) by (simp add: mutex_inv_def)
  moreover from this have "\<not> n < 0" by simp
  ultimately show ?case
    using give_back w(1) counter_cases(1) [OF w(1)] by (simp only:) (rule mutex_inv_move [where n = n]; simp)
next
  case (give_back_error t c j r)
  then have w: "same_keys V (redis_state t) r" by simp
  have "finite (engaged t)" using give_back_error by (simp add: mutex_inv_def)
  then have "int (card (engaged t)) \<le> counter (key_val V) r key" "int (card (engaged t - {c})) \<le> counter (key_val V) r key"
    "insert c (engaged t) = engaged t"
    using card_engaged(1) [of t c] give_back_error counter_cases(2) [OF w] by (simp_all add: mutex_inv_def)
  then show ?case
    using give_back_error w again_class(3) [of j] by (auto intro!: mutex_inv_move [where n = 0])
next
  case (clear t c j ok r)
  then have "mutex_inv V key t" and c: "mpc t c = Clearing j" by simp_all
  then have "\<not> clearing (mpc t c)" unfolding mutex_inv_def by blast
  then show ?case using c by simp
next
  case (pass t d)
  then show ?case using mutex_inv_pass [OF assms(1)] by simp
qed

lemma mutex_inv_reachable:
  assumes "(mutex_step {} ops V key)\<^sup>*\<^sup>* s s'" and "redis_docs ops V" and "mutex_inv V key s"
  shows "mutex_inv V key s'"
  using assms by (induction rule: rtranclp_induct) (auto intro: mutex_inv_step)

lemma mutex_inv_start: "0 \<le> counter (key_val V) r key \<Longrightarrow> mutex_inv V key (mutex_start r)"
  by (simp add: mutex_inv_def mutex_start_def engaged_def)

section \<open>A Redis to run on\<close>

text \<open>
  Keys, deadlines and a clock, and a script: the commands whose entry is \<open>True\<close> are answered with an
  error, \<open>INCR\<close> and \<open>DECR\<close> after having been executed, the others not.
\<close>

record clock_redis =
  vals :: "string \<rightharpoonup> int"
  dues :: "string \<rightharpoonup> int"
  clock :: int
  lost :: "bool list"

definition is_lost :: "clock_redis \<Rightarrow> bool" where
  "is_lost r = (case lost r of [] \<Rightarrow> False | b # _ \<Rightarrow> b)"

definition write_key :: "string \<Rightarrow> int \<Rightarrow> clock_redis \<Rightarrow> int option \<times> clock_redis" where
  "write_key k n r = (if is_lost r then None else Some n, r\<lparr>vals := (vals r)(k \<mapsto> n), lost := tl (lost r)\<rparr>)"

definition run_expire :: "string \<Rightarrow> int \<Rightarrow> clock_redis \<Rightarrow> clock_redis" where
  "run_expire k t r = (if is_lost r then r\<lparr>lost := tl (lost r)\<rparr>
     else r\<lparr>dues := (dues r)(k := map_option (\<lambda>_. clock r + t) (vals r k)), lost := tl (lost r)\<rparr>)"

definition clock_ops :: "clock_redis redis" where
  "clock_ops =
     \<lparr>do_INCR = (\<lambda>k r. write_key k (counter vals r k + 1) r), do_DECR = (\<lambda>k r. write_key k (counter vals r k - 1) r),
      do_GET = (\<lambda>k r. (vals r k, r)),
      do_DEL = (\<lambda>k r. if is_lost r then (False, r\<lparr>lost := tl (lost r)\<rparr>)
        else (True, r\<lparr>vals := (vals r)(k := None), dues := (dues r)(k := None), lost := tl (lost r)\<rparr>)),
      do_EXPIRE = run_expire\<rparr>"

definition late :: "clock_redis \<Rightarrow> int \<Rightarrow> string \<Rightarrow> bool" where
  "late r t k = (case dues r k of Some x \<Rightarrow> x \<le> t | None \<Rightarrow> False)"

definition clock_view :: "clock_redis redis_view" where
  "clock_view = \<lparr>key_val = vals, deadline = dues, time_of = clock,
     pass_time = (\<lambda>d r. r\<lparr>clock := clock r + int d,
       vals := (\<lambda>k. if late r (clock r + int d) k then None else vals r k),
       dues := (\<lambda>k. if late r (clock r + int d) k then None else dues r k)\<rparr>)\<rparr>"

lemma clock_redis_docs: "redis_docs clock_ops clock_view"
  by (auto simp: redis_docs_def clock_ops_def clock_view_def write_key_def run_expire_def answered_def wrote_def
      same_keys_def deleted_def expire_set_def due_def late_def)

definition start_redis :: "bool list \<Rightarrow> clock_redis" where
  "start_redis script = \<lparr>vals = Map.empty, dues = Map.empty, clock = 0, lost = script\<rparr>"

abbreviation demo_runs :: "fault \<Rightarrow> clock_redis mutex_sys \<Rightarrow> clock_redis mutex_sys \<Rightarrow> bool" where
  "demo_runs f \<equiv> (mutex_step {f} clock_ops clock_view ''k'')\<^sup>*\<^sup>*"

definition at_key :: "int option \<Rightarrow> int option \<Rightarrow> int \<Rightarrow> bool list \<Rightarrow> clock_redis" where
  "at_key v d t script = \<lparr>vals = Map.empty(''k'' := v), dues = Map.empty(''k'' := d), clock = t, lost = script\<rparr>"

lemma at_key_commands:
  "do_INCR clock_ops ''k'' (at_key v d t (b # script))
    = (if b then None else Some ((case v of Some n \<Rightarrow> n | None \<Rightarrow> 0) + 1), at_key (Some ((case v of Some n \<Rightarrow> n | None \<Rightarrow> 0) + 1)) d t script)"
  "do_DECR clock_ops ''k'' (at_key (Some n) d t (b # script)) = (if b then None else Some (n - 1), at_key (Some (n - 1)) d t script)"
  "do_EXPIRE clock_ops ''k'' RedisMutexTTL (at_key (Some n) d t (b # script)) = at_key (Some n) (if b then d else Some (t + 1800)) t script"
  "do_DEL clock_ops ''k'' (at_key v d t (False # script)) = (True, at_key None None t script)"
  "expire_set clock_view ''k'' RedisMutexTTL (at_key (Some n) d t script) (at_key (Some n) (Some (t + 1800)) t script')"
  "time_of clock_view (at_key v d t script) = t"
  "pass_time clock_view x (at_key v (Some e) t script)
    = (if e \<le> t + int x then at_key None None (t + int x) script else at_key v (Some e) (t + int x) script)"
  "due clock_view ''k'' u (at_key v (Some e) t script) \<longleftrightarrow> e \<le> u"
  by (auto simp: clock_ops_def clock_view_def at_key_def write_key_def run_expire_def is_lost_def counter_def
      RedisMutexTTL_def expire_set_def due_def late_def fun_eq_iff split: option.splits)

lemma alone_switch: "c \<noteq> d \<Longrightarrow> alone f c t pc r = alone (f(c := pc)) d t (f d) r"
  by (auto simp: alone_def fun_eq_iff)

text \<open>One try of \<open>Lock\<close> on a free counter, and one on a counter that is held.\<close>

lemma free_try:
  assumes "(case v of Some n \<Rightarrow> n | None \<Rightarrow> 0) \<le> 0"
  shows "demo_runs x (alone f c t (Incr i 0) (at_key v d u (False # False # script)))
    (alone f c (t(c := u)) Holding (at_key (Some ((case v of Some n \<Rightarrow> n | None \<Rightarrow> 0) + 1)) (Some (u + 1800)) u script))"
proof -
  let ?n = "(case v of Some n \<Rightarrow> n | None \<Rightarrow> 0) + 1"
  have "mutex_step {x} clock_ops clock_view ''k'' (alone f c t (Incr i 0) (at_key v d u (False # False # script)))
      (alone f c t (Expire i ?n) (at_key (Some ?n) d u (False # script)))"
    by (rule alone_steps(2)) (simp add: at_key_commands)
  moreover have "mutex_step {x} clock_ops clock_view ''k'' (alone f c t (Expire i ?n) (at_key (Some ?n) d u (False # script)))
      (alone f c (t(c := u)) Holding (at_key (Some ?n) (Some (u + 1800)) u script))"
    using alone_steps(4) [of clock_ops "''k''" "at_key (Some ?n) d u (False # script)" _ "{x}" clock_view f c t i ?n, OF refl]
      assms by (simp add: at_key_commands)
  ultimately show ?thesis by (rule two_steps)
qed

lemma free_lock:
  assumes "(case v of Some n \<Rightarrow> n | None \<Rightarrow> 0) \<le> 0"
  shows "demo_runs x (alone f c t Idle (at_key v d u (False # False # script)))
    (alone f c (t(c := u)) Holding (at_key (Some ((case v of Some n \<Rightarrow> n | None \<Rightarrow> 0) + 1)) (Some (u + 1800)) u script))"
  by (rule converse_rtranclp_into_rtranclp [OF alone_steps(1) free_try [OF assms]])

lemma held_try:
  "mutex_step {x} clock_ops clock_view ''k'' (alone f c t Idle r) (alone f c t (Incr 0 0) r)"
  "demo_runs x (alone f c t (Incr i 0) (at_key (Some 1) d u (False # False # script)))
    (alone f c (t(c := u)) (Decr i 0) (at_key (Some 2) (Some (u + 1800)) u script))"
proof -
  have "mutex_step {x} clock_ops clock_view ''k'' (alone f c t (Incr i 0) (at_key (Some 1) d u (False # False # script)))
      (alone f c t (Expire i 2) (at_key (Some 2) d u (False # script)))"
    by (rule alone_steps(2)) (simp add: at_key_commands)
  moreover have "mutex_step {x} clock_ops clock_view ''k'' (alone f c t (Expire i 2) (at_key (Some 2) d u (False # script)))
      (alone f c (t(c := u)) (Decr i 0) (at_key (Some 2) (Some (u + 1800)) u script))"
    using alone_steps(4) [of clock_ops "''k''" "at_key (Some 2) d u (False # script)" _ "{x}" clock_view f c t i 2, OF refl]
    by (simp add: at_key_commands)
  ultimately show "demo_runs x (alone f c t (Incr i 0) (at_key (Some 1) d u (False # False # script)))
    (alone f c (t(c := u)) (Decr i 0) (at_key (Some 2) (Some (u + 1800)) u script))" by (rule two_steps)
qed (rule alone_steps)

definition two_hold :: "'r mutex_sys \<Rightarrow> bool" where
  "two_hold s \<longleftrightarrow> mpc s 0 = Holding \<and> mpc s 1 = Holding"

abbreviation demo_start :: "bool list \<Rightarrow> clock_redis mutex_sys" where
  "demo_start script \<equiv> mutex_start (at_key None None 0 script)"

abbreviation first_holds :: "nat \<Rightarrow> mutex_pc" where
  "first_holds \<equiv> (\<lambda>_. Idle)(0 := Holding)"

lemma first_lock:
  "demo_runs x (demo_start (False # False # script))
    (alone first_holds 1 (\<lambda>_. 0) Idle (at_key (Some 1) (Some 1800) 0 script))"
proof -
  have s: "demo_start (False # False # script) = alone (\<lambda>_. Idle) 0 (\<lambda>_. 0) Idle (at_key None None 0 (False # False # script))"
    by (auto simp: mutex_start_def alone_def)
  have t: "(\<lambda>_. 0)(0 := 0) = (\<lambda>_. 0 :: int)" by auto
  have e: "alone (\<lambda>_. Idle) 0 (\<lambda>_. 0) Holding r = alone first_holds 1 (\<lambda>_. 0) Idle r" for r :: clock_redis
    using alone_switch [of 0 1 "\<lambda>_. Idle" "\<lambda>_. 0" Holding r] by simp
  show ?thesis
    using free_lock [of None x "\<lambda>_. Idle" 0 "\<lambda>_. 0" None 0 script] unfolding s t e by simp
qed

lemma broken:
  assumes "demo_runs x (demo_start script) (alone first_holds 1 t Holding r)"
  shows "\<exists>script s. demo_runs x (demo_start script) s \<and> two_hold s"
proof -
  have "two_hold (alone first_holds 1 t Holding r)" by (simp add: two_hold_def)
  with assms show ?thesis by blast
qed

lemma alone_pass: "(alone f c t pc r)\<lparr>redis_state := r'\<rparr> = alone f c t pc r'"
  by (simp add: alone_def)

lemma passes:
  assumes "Overrun = x \<or> (\<forall>k. counting ((f(c := pc)) k) \<longrightarrow> u + int d < t k + RedisMutexTTL)"
    and "\<forall>k. \<not> expiring ((f(c := pc)) k)"
  shows "mutex_step {x} clock_ops clock_view ''k'' (alone f c t pc (at_key v (Some e) u script))
    (alone f c t pc (if e \<le> u + int d then at_key None None (u + int d) script else at_key v (Some e) (u + int d) script))"
  using mutex_step.pass [where faults = "{x}" and s = "alone f c t pc (at_key v (Some e) u script)" and V = clock_view
      and d = d and key = "''k''" and ops = clock_ops] assms
  by (simp add: at_key_commands alone_pass)

lemma overrun_breaks: "\<exists>script s. demo_runs Overrun (demo_start script) s \<and> two_hold s"
proof -
  let ?script = "[False, False, False, False]"
  let ?s = "alone first_holds 1 (\<lambda>_. 0) Idle (at_key (Some 1) (Some 1800) 0 [False, False])"
  have "mutex_step {Overrun} clock_ops clock_view ''k'' ?s (alone first_holds 1 (\<lambda>_. 0) Idle (at_key None None 1800 [False, False]))"
    using passes [of Overrun first_holds 1 Idle 0 1800 "\<lambda>_. 0" "Some 1" 1800 "[False, False]"] by simp
  with first_lock have "demo_runs Overrun (demo_start ?script)
      (alone first_holds 1 (\<lambda>_. 0) Idle (at_key None None 1800 [False, False]))"
    by (rule rtranclp.rtrancl_into_rtrancl)
  then have "demo_runs Overrun (demo_start ?script)
      (alone first_holds 1 ((\<lambda>_. 0)(1 := 1800)) Holding (at_key (Some (0 + 1)) (Some (1800 + 1800)) 1800 []))"
    using free_lock [of None Overrun first_holds 1 "\<lambda>_. 0" None 1800 "[]"] by (simp add: rtranclp_trans)
  then show ?thesis by (rule broken)
qed

lemma lost_decr_breaks: "\<exists>script s. demo_runs LostDecr (demo_start script) s \<and> two_hold s"
proof -
  let ?script = "[False, False, False, False, True, False, False, False]"
  let ?step = "mutex_step {LostDecr} clock_ops clock_view ''k''"
  let ?a = "\<lambda>t pc r. alone first_holds 1 t pc r"
  let ?t = "(\<lambda>_. 0)(1 := 0)"
  have "demo_runs LostDecr (demo_start ?script) (?a (\<lambda>_. 0) (Incr 0 0) (at_key (Some 1) (Some 1800) 0 [False, False, True, False, False, False]))"
    using first_lock held_try(1) by (rule rtranclp.rtrancl_into_rtrancl)
  also have "demo_runs LostDecr (?a (\<lambda>_. 0) (Incr 0 0) (at_key (Some 1) (Some 1800) 0 [False, False, True, False, False, False]))
      (?a ?t (Decr 0 0) (at_key (Some 2) (Some (0 + 1800)) 0 [True, False, False, False]))"
    by (rule held_try(2))
  also have "?step (?a ?t (Decr 0 0) (at_key (Some 2) (Some (0 + 1800)) 0 [True, False, False, False]))
      (?a ?t (again (Decr 0) 0) (at_key (Some 1) (Some (0 + 1800)) 0 [False, False, False]))"
    by (rule alone_steps(6)) (simp_all add: at_key_commands)
  also have "?step (?a ?t (again (Decr 0) 0) (at_key (Some 1) (Some (0 + 1800)) 0 [False, False, False]))
      (?a ?t (Incr 1 0) (at_key (Some 0) (Some (0 + 1800)) 0 [False, False]))"
    using alone_steps(5) [of clock_ops "''k''" "at_key (Some 1) (Some (0 + 1800)) 0 [False, False, False]" 0
        "at_key (Some 0) (Some (0 + 1800)) 0 [False, False]" 0 "{LostDecr}" clock_view first_holds 1 ?t 1]
    by (simp add: at_key_commands again_def RedisMutexRetryTimes_def)
  also have "demo_runs LostDecr (?a ?t (Incr 1 0) (at_key (Some 0) (Some (0 + 1800)) 0 [False, False]))
      (?a (?t(1 := 0)) Holding (at_key (Some ((case Some 0 of Some n \<Rightarrow> n | None \<Rightarrow> 0) + 1)) (Some (0 + 1800)) 0 []))"
    by (rule free_try) simp
  finally show ?thesis by (rule broken)
qed

lemma no_expire_breaks: "\<exists>script s. demo_runs NoExpire (demo_start script) s \<and> two_hold s"
proof -
  let ?script = "[False, False, False, False, True, False, False]"
  let ?step = "mutex_step {NoExpire} clock_ops clock_view ''k''"
  let ?a = "\<lambda>t pc r. alone (\<lambda>_. Idle) 0 t pc r" and ?b = "\<lambda>t pc r. alone first_holds 1 t pc r"
  let ?t = "\<lambda>_. 0 :: int" and ?u = "(\<lambda>_. 0 :: int)(0 := 1799)"
  have e: "?a t pc r = ?b t (if pc = Holding then Idle else Idle) r" if "pc = Holding" for t pc and r :: clock_redis
    using that alone_switch [of 0 1 "\<lambda>_. Idle" t Holding r] by simp
  have "demo_runs NoExpire (demo_start ?script) (?a ?t Holding (at_key (Some 1) (Some 1800) 0 [False, False, True, False, False]))"
    using first_lock [of NoExpire "[False, False, True, False, False]"] e [of Holding] by simp
  also have "?step \<dots> (?a ?t (Unlocking 0) (at_key (Some 1) (Some 1800) 0 [False, False, True, False, False]))"
    by (rule alone_steps(7))
  also have "?step \<dots> (?a ?t Idle (at_key (Some 0) (Some 1800) 0 [False, True, False, False]))"
    using alone_steps(8) [of clock_ops "''k''" "at_key (Some 1) (Some 1800) 0 [False, False, True, False, False]" 0]
    by (simp add: at_key_commands)
  also have "?step \<dots> (?a ?t Idle (at_key (Some 0) (Some 1800) 1799 [False, True, False, False]))"
    using passes [of NoExpire "\<lambda>_. Idle" 0 Idle 0 1799 ?t "Some 0" 1800 "[False, True, False, False]"] by simp
  also have "?step \<dots> (?a ?t (Incr 0 0) (at_key (Some 0) (Some 1800) 1799 [False, True, False, False]))"
    by (rule alone_steps(1))
  also have "?step \<dots> (?a ?t (Expire 0 1) (at_key (Some 1) (Some 1800) 1799 [True, False, False]))"
    by (rule alone_steps(2)) (simp add: at_key_commands)
  also have "?step \<dots> (?a ?u Holding (at_key (Some 1) (Some 1800) 1799 [False, False]))"
    using alone_steps(4) [of clock_ops "''k''" "at_key (Some 1) (Some 1800) 1799 [True, False, False]" _ "{NoExpire}" clock_view
        "\<lambda>_. Idle" 0 ?t 0 1, OF refl] by (simp add: at_key_commands)
  also have "\<dots> = ?b ?u Idle (at_key (Some 1) (Some 1800) 1799 [False, False])"
    using e [of Holding ?u] by simp
  also have "?step \<dots> (?b ?u Idle (at_key None None 1800 [False, False]))"
    using passes [of NoExpire first_holds 1 Idle 1799 1 ?u "Some 1" 1800 "[False, False]"]
    by (simp add: RedisMutexTTL_def)
  also have "demo_runs NoExpire \<dots>
      (?b (?u(1 := 1800)) Holding (at_key (Some ((case None of Some n \<Rightarrow> n | None \<Rightarrow> 0) + 1)) (Some (1800 + 1800)) 1800 []))"
    by (rule free_lock) simp
  finally show ?thesis by (rule broken)
qed

lemma timeout_loop:
  "i + n = 150 \<Longrightarrow> 0 < n \<Longrightarrow> \<exists>t'. demo_runs Timeout
     (alone f c t (Incr i 0) (at_key (Some 1) (Some 1800) 0 (replicate (3 * n) False @ script)))
     (alone f c t' (Clearing 0) (at_key (Some 1) (Some 1800) 0 script))"
proof (induction n arbitrary: i t)
  case (Suc n)
  let ?rest = "replicate (3 * n) False @ script" and ?t = "t(c := 0)"
  have l: "replicate (3 * Suc n) False @ script = False # False # False # ?rest" by (simp add: numeral_eq_Suc)
  have "demo_runs Timeout (alone f c t (Incr i 0) (at_key (Some 1) (Some 1800) 0 (False # False # False # ?rest)))
      (alone f c ?t (Decr i 0) (at_key (Some 2) (Some (0 + 1800)) 0 (False # ?rest)))"
    by (rule held_try(2))
  also have "mutex_step {Timeout} clock_ops clock_view ''k'' \<dots>
      (alone f c ?t (if Suc i < 150 then Incr (Suc i) 0 else Clearing 0) (at_key (Some 1) (Some 1800) 0 ?rest))"
    by (rule alone_steps(5) [where n = 1]) (simp_all add: at_key_commands)
  finally have run: "demo_runs Timeout (alone f c t (Incr i 0) (at_key (Some 1) (Some 1800) 0 (False # False # False # ?rest)))
      (alone f c ?t (if Suc i < 150 then Incr (Suc i) 0 else Clearing 0) (at_key (Some 1) (Some 1800) 0 ?rest))" .
  show ?case
  proof (cases "n = 0")
    case True
    then show ?thesis using run Suc.prems(1) unfolding l by auto
  next
    case False
    then have "Suc i + n = 150" "0 < n" and lt: "Suc i < 150" using Suc.prems(1) by simp_all
    from Suc.IH [OF this(1,2), of ?t] obtain t' where
      "demo_runs Timeout (alone f c ?t (Incr (Suc i) 0) (at_key (Some 1) (Some 1800) 0 ?rest))
        (alone f c t' (Clearing 0) (at_key (Some 1) (Some 1800) 0 script))" ..
    with run have "demo_runs Timeout (alone f c t (Incr i 0) (at_key (Some 1) (Some 1800) 0 (False # False # False # ?rest)))
        (alone f c t' (Clearing 0) (at_key (Some 1) (Some 1800) 0 script))"
      by (simp only: lt if_True)
    then show ?thesis unfolding l by blast
  qed
qed simp

lemma timeout_breaks: "\<exists>script s. demo_runs Timeout (demo_start script) s \<and> two_hold s"
proof -
  let ?rest = "replicate (3 * 150) False @ [False, False, False]"
  let ?b = "\<lambda>t pc r. alone first_holds 1 t pc r"
  have "0 + 150 = (150 :: nat)" "0 < (150 :: nat)" by simp_all
  from timeout_loop [OF this, of first_holds 1 "\<lambda>_. 0" "[False, False, False]"]
  obtain t' where t': "demo_runs Timeout (?b (\<lambda>_. 0) (Incr 0 0) (at_key (Some 1) (Some 1800) 0 ?rest))
      (?b t' (Clearing 0) (at_key (Some 1) (Some 1800) 0 [False, False, False]))" ..
  have "demo_runs Timeout (demo_start (False # False # ?rest)) (?b (\<lambda>_. 0) (Incr 0 0) (at_key (Some 1) (Some 1800) 0 ?rest))"
    using first_lock held_try(1) by (rule rtranclp.rtrancl_into_rtrancl)
  also note t'
  also have "mutex_step {Timeout} clock_ops clock_view ''k'' (?b t' (Clearing 0) (at_key (Some 1) (Some 1800) 0 [False, False, False]))
      (?b t' Idle (at_key None None 0 [False, False]))"
    using alone_steps(10) [of clock_ops "''k''" "at_key (Some 1) (Some 1800) 0 [False, False, False]" True]
    by (simp add: at_key_commands)
  also have "demo_runs Timeout (?b t' Idle (at_key None None 0 [False, False]))
      (?b (t'(1 := 0)) Holding (at_key (Some ((case None of Some n \<Rightarrow> n | None \<Rightarrow> 0) + 1)) (Some (0 + 1800)) 0 []))"
    by (rule free_lock) simp
  finally show ?thesis by (rule broken)
qed

section \<open>Properties\<close>

text \<open>A Redis of integer keys that never fails, for the witnesses.\<close>

definition plain_redis :: "(string \<rightharpoonup> int) redis" where
  "plain_redis =
     \<lparr>do_INCR = (\<lambda>k r. (Some (counter id r k + 1), r(k \<mapsto> counter id r k + 1))),
      do_DECR = (\<lambda>k r. (Some (counter id r k - 1), r(k \<mapsto> counter id r k - 1))),
      do_GET = (\<lambda>k r. (r k, r)), do_DEL = (\<lambda>k r. (True, r(k := None))), do_EXPIRE = (\<lambda>k t r. r)\<rparr>"

lemma plain_redis_ok: "redis_ok plain_redis id"
  by (simp add: redis_ok_def plain_redis_def)


lemma two_clients_run:
  "(mutex_step {} clock_ops clock_view ''k'')\<^sup>*\<^sup>* (demo_start [False, False, False])
     (alone first_holds 1 (\<lambda>_. 0) (Expire 0 2) (at_key (Some 2) (Some 1800) 0 []))"
proof -
  let ?step = "mutex_step {} clock_ops clock_view ''k''"
  have "demo_start [False, False, False] = alone (\<lambda>_. Idle) 0 (\<lambda>_. 0) Idle (at_key None None 0 [False, False, False])"
    by (auto simp: mutex_start_def alone_def)
  moreover have "?step (alone (\<lambda>_. Idle) 0 (\<lambda>_. 0) Idle (at_key None None 0 [False, False, False]))
      (alone (\<lambda>_. Idle) 0 (\<lambda>_. 0) (Incr 0 0) (at_key None None 0 [False, False, False]))" by (rule alone_steps(1))
  moreover have "?step (alone (\<lambda>_. Idle) 0 (\<lambda>_. 0) (Incr 0 0) (at_key None None 0 [False, False, False]))
      (alone (\<lambda>_. Idle) 0 (\<lambda>_. 0) (Expire 0 1) (at_key (Some 1) None 0 [False, False]))"
    by (rule alone_steps(2)) (simp add: at_key_commands)
  moreover have "?step (alone (\<lambda>_. Idle) 0 (\<lambda>_. 0) (Expire 0 1) (at_key (Some 1) None 0 [False, False]))
      (alone first_holds 1 (\<lambda>_. 0) Idle (at_key (Some 1) (Some 1800) 0 [False]))"
    using alone_steps(4) [of clock_ops "''k''" "at_key (Some 1) None 0 [False, False]" _ "{}" clock_view "\<lambda>_. Idle" 0
        "\<lambda>_. 0" 0 1, OF refl] alone_switch [of 0 1 "\<lambda>_. Idle" "\<lambda>_. 0" Holding "at_key (Some 1) (Some 1800) 0 [False]"]
      at_key_commands(5) [of 1 None 0 "[False, False]" "[False]"]
    by (simp add: at_key_commands fun_upd_idem)
  moreover have "?step (alone first_holds 1 (\<lambda>_. 0) Idle (at_key (Some 1) (Some 1800) 0 [False]))
      (alone first_holds 1 (\<lambda>_. 0) (Incr 0 0) (at_key (Some 1) (Some 1800) 0 [False]))" by (rule alone_steps(1))
  moreover have "?step (alone first_holds 1 (\<lambda>_. 0) (Incr 0 0) (at_key (Some 1) (Some 1800) 0 [False]))
      (alone first_holds 1 (\<lambda>_. 0) (Expire 0 2) (at_key (Some 2) (Some 1800) 0 []))"
    by (rule alone_steps(2)) (simp add: at_key_commands)
  ultimately show ?thesis
    by (simp only:)
qed


text \<open>
  C41: None of the four conditions of the lock can be dropped. On a Redis that keeps to its manual,
  each of them alone lets two clients hold the lock at once: a client that comes to the end of its
  tries clears the counter of the holder; a holder that takes 30 minutes loses the key; an
  \<open>EXPIRE\<close> that is lost leaves an older deadline, which takes the key away at once; and a \<open>DECR\<close>
  whose reply is lost is sent again and takes the holder's count back too.
\<close>
theorem every_fault_breaks_the_mutex:
  "redis_docs clock_ops clock_view
   \<and> (\<exists>script s. (mutex_step {f} clock_ops clock_view ''k'')\<^sup>*\<^sup>* (demo_start script) s
        \<and> mpc s 0 = Holding \<and> mpc s 1 = Holding)"
  using overrun_breaks lost_decr_breaks no_expire_breaks timeout_breaks clock_redis_docs
  by (cases f) (simp_all add: two_hold_def)

text \<open>
  C32: The timeout of \<open>Lock\<close> steals the lock: while somebody holds the mutex \<open>m\<close> (its counter is
  positive), a \<open>Lock\<close> that is not answered in its 150 tries fails with the timeout error, but
  deletes the counter; the next \<open>Lock\<close> then succeeds although the first holder has never called
  \<open>UnLock\<close>, and the holder's \<open>UnLock\<close> afterwards frees the lock under the second one's feet.
\<close>
theorem lock_timeout_steals:
  assumes "redis_ok ops val" and "1 \<le> counter val r (mutex_key m)"
  shows "\<exists>r1 r2 r3. Lock ops m r = (Some MutexTimeout, r1) \<and> val r1 (mutex_key m) = None
    \<and> Lock ops m r1 = (None, r2) \<and> val r2 (mutex_key m) = Some 1
    \<and> UnLock ops m r2 = (None, r3) \<and> val r3 (mutex_key m) = Some 0
    \<and> fst (Lock ops m r3) = None"
proof -
  obtain r1 where r1: "Lock ops m r = (Some MutexTimeout, r1)" "val r1 (mutex_key m) = None"
    using lock_loop_held [OF assms, of 150] by (metis Lock_def fun_upd_same prod.collapse)
  then have "counter val r1 (mutex_key m) = 0" by (simp add: counter_def)
  then obtain r2 where r2: "Lock ops m r1 = (None, r2)" "val r2 (mutex_key m) = Some 1"
    using Lock_free [OF assms(1), of r1 m] by (metis add_0 fun_upd_same order_refl prod.collapse)
  then have c2: "counter val r2 (mutex_key m) = 1" by (simp add: counter_def)
  obtain r3 where "wrapRedisInt64Decr ops (mutex_key m) r2 = (Some 0, r3)" "val r3 (mutex_key m) = Some 0"
    using wrapped_DECR [OF assms(1), of "mutex_key m" r2] c2 by auto
  then have r3: "UnLock ops m r2 = (None, r3)" "val r3 (mutex_key m) = Some 0" by (simp_all add: UnLock_def)
  then have "counter val r3 (mutex_key m) \<le> 0" by (simp add: counter_def)
  then show ?thesis using r1 r2 r3 Lock_free [OF assms(1)] by blast
qed

theorem lock_timeout_steals_witness:
  "let m = \<lparr>LockerKey = 7, Spec = ''loc''\<rparr> in
   \<exists>r1 r2 r3. Lock plain_redis m [mutex_key m \<mapsto> 1] = (Some MutexTimeout, r1) \<and> r1 (mutex_key m) = None
    \<and> Lock plain_redis m r1 = (None, r2) \<and> r2 (mutex_key m) = Some 1
    \<and> UnLock plain_redis m r2 = (None, r3) \<and> r3 (mutex_key m) = Some 0
    \<and> fst (Lock plain_redis m r3) = None"
  using lock_timeout_steals [OF plain_redis_ok, of "[mutex_key \<lparr>LockerKey = 7, Spec = ''loc''\<rparr> \<mapsto> 1]"
      "\<lparr>LockerKey = 7, Spec = ''loc''\<rparr>"]
  by (simp add: Let_def counter_def)

end
