(* ===== verification/GoReflect.thy ===== *)
theory GoReflect
  imports GoStrings "HOL-Library.AList"
begin

text \<open>
  Go types and values as package \<open>reflect\<close> shows them, for the two CSV loaders
  (\<open>base/csvtable\<close>, \<open>common/csvparse\<close>), which fill structs whose type they learn at run time.

  A \<open>reflect.Value\<close> is a type and a value. Pointers hold what they point to: the loaders only
  meet pointers they have just allocated, so there is no sharing to keep track of. A map is an
  association list with distinct keys, \<open>VMap None\<close> the nil map; nil and empty slices are not
  told apart. Integers are kept as numbers in the range of their type; floating-point numbers are
  compared by the equality of their type, so a NaN as a map key is left out.
\<close>

section \<open>Types\<close>

datatype int_kind = IntWord | Bits8 | Bits16 | Bits32 | Bits64

fun width :: "int_kind \<Rightarrow> nat" where
  "width IntWord = 64" | "width Bits8 = 8" | "width Bits16 = 16" | "width Bits32 = 32" | "width Bits64 = 64"

datatype gotype =
    TBool | TInt int_kind | TUint int_kind | TFloat32 | TFloat64 | TString
  | TSlice gotype | TMap gotype gotype | TPtr gotype | TInterface
  | TStruct "(string \<times> string \<times> gotype) list"
  | TNamed string gotype

text \<open>A field of a struct: its name, the value of its \<open>csv\<close> tag, its type.\<close>

type_synonym gofield = "string \<times> string \<times> gotype"

fun underlying :: "gotype \<Rightarrow> gotype" where
  "underlying (TNamed _ t) = underlying t"
| "underlying t = t"

fun kind_suffix :: "int_kind \<Rightarrow> string" where
  "kind_suffix IntWord = []" | "kind_suffix Bits8 = ''8''" | "kind_suffix Bits16 = ''16''"
| "kind_suffix Bits32 = ''32''" | "kind_suffix Bits64 = ''64''"

text \<open>\<open>Type.String\<close>; a named type prints as its qualified name.\<close>

fun type_string :: "gotype \<Rightarrow> string" where
  "type_string TBool = ''bool''"
| "type_string (TInt k) = ''int'' @ kind_suffix k"
| "type_string (TUint k) = ''uint'' @ kind_suffix k"
| "type_string TFloat32 = ''float32''"
| "type_string TFloat64 = ''float64''"
| "type_string TString = ''string''"
| "type_string (TSlice t) = ''[]'' @ type_string t"
| "type_string (TMap k t) = ''map['' @ type_string k @ '']'' @ type_string t"
| "type_string (TPtr t) = ''*'' @ type_string t"
| "type_string TInterface = ''interface {}''"
| "type_string (TStruct fs) = ''struct {...}''"
| "type_string (TNamed n t) = n"

section \<open>Values\<close>

datatype 'f govalue =
    VBool bool | VInt int | VUint nat | VFloat 'f | VString string
  | VSlice "'f govalue list"
  | VMap "('f govalue \<times> 'f govalue) list option"
  | VPtr "'f govalue option"
  | VInterface "(gotype \<times> 'f govalue) option"
  | VStruct "'f govalue list"

text \<open>Floating-point numbers are an argument: the operations of Go's \<open>float64\<close> the loaders use.\<close>

record 'f floats =
  f_zero :: 'f
  f_nonzero :: "'f \<Rightarrow> bool"
  f_ParseFloat :: "string \<Rightarrow> 'f option"
  f_round32 :: "'f \<Rightarrow> 'f"
  f_int64 :: "'f \<Rightarrow> int"
  f_uint64 :: "'f \<Rightarrow> nat"
  f_of_int :: "int \<Rightarrow> 'f"
  f_Format :: "'f \<Rightarrow> nat \<Rightarrow> string"

fun zero_value :: "'f floats \<Rightarrow> gotype \<Rightarrow> 'f govalue" where
  "zero_value fl TBool = VBool False"
| "zero_value fl (TInt k) = VInt 0"
| "zero_value fl (TUint k) = VUint 0"
| "zero_value fl TFloat32 = VFloat (f_zero fl)"
| "zero_value fl TFloat64 = VFloat (f_zero fl)"
| "zero_value fl TString = VString []"
| "zero_value fl (TSlice t) = VSlice []"
| "zero_value fl (TMap k t) = VMap None"
| "zero_value fl (TPtr t) = VPtr None"
| "zero_value fl TInterface = VInterface None"
| "zero_value fl (TStruct fs) = VStruct (map (\<lambda>(n, tag, t). zero_value fl t) fs)"
| "zero_value fl (TNamed n t) = zero_value fl t"

text \<open>Which values a variable of a type can hold.\<close>

fun has_type :: "gotype \<Rightarrow> 'f govalue \<Rightarrow> bool" where
  "has_type (TNamed n t) v = has_type t v"
| "has_type TBool v = (case v of VBool _ \<Rightarrow> True | _ \<Rightarrow> False)"
| "has_type (TInt k) v = (case v of VInt i \<Rightarrow> - (2 ^ (width k - 1)) \<le> i \<and> i < 2 ^ (width k - 1) | _ \<Rightarrow> False)"
| "has_type (TUint k) v = (case v of VUint n \<Rightarrow> n < 2 ^ width k | _ \<Rightarrow> False)"
| "has_type TFloat32 v = (case v of VFloat _ \<Rightarrow> True | _ \<Rightarrow> False)"
| "has_type TFloat64 v = (case v of VFloat _ \<Rightarrow> True | _ \<Rightarrow> False)"
| "has_type TString v = (case v of VString _ \<Rightarrow> True | _ \<Rightarrow> False)"
| "has_type (TSlice t) v = (case v of VSlice vs \<Rightarrow> list_all (has_type t) vs | _ \<Rightarrow> False)"
| "has_type (TMap k t) v =
     (case v of VMap None \<Rightarrow> True
      | VMap (Some m) \<Rightarrow> distinct (map fst m) \<and> list_all (\<lambda>(a, b). has_type k a \<and> has_type t b) m
      | _ \<Rightarrow> False)"
| "has_type (TPtr t) v =
     (case v of VPtr None \<Rightarrow> True | VPtr (Some w) \<Rightarrow> has_type t w | _ \<Rightarrow> False)"
| "has_type TInterface v = (case v of VInterface _ \<Rightarrow> True | _ \<Rightarrow> False)"
| "has_type (TStruct fs) v =
     (case v of VStruct vs \<Rightarrow> list_all2 (\<lambda>(n, tag, t) w. has_type t w) fs vs
      | _ \<Rightarrow> False)"

text \<open>\<open>Value.SetInt\<close> and \<open>SetUint\<close> store the low bits.\<close>

definition trunc_int :: "int_kind \<Rightarrow> int \<Rightarrow> int" where
  "trunc_int k i = signed_take_bit (width k - 1) i"

definition trunc_uint :: "int_kind \<Rightarrow> int \<Rightarrow> nat" where
  "trunc_uint k i = nat (take_bit (width k) i)"

text \<open>Exported: the first letter is a capital.\<close>

definition exported :: "string \<Rightarrow> bool" where
  "exported n \<longleftrightarrow> n \<noteq> [] \<and> lower (hd n) \<noteq> hd n"

section \<open>Results\<close>

text \<open>What a call comes to: a value, an error, or a run-time panic.\<close>

datatype csv_error =
    ENumber | EBool | EFloat | EUnsupported | ENoUnmarshal | ENoMarshal | EJson | EUser | ENotFound
  | EOpen | EEmpty | ERowLength | ENotMap | EKey | EPanic

datatype 'a res = Ok 'a | Fail csv_error | Crash

fun bind_res :: "'a res \<Rightarrow> ('a \<Rightarrow> 'b res) \<Rightarrow> 'b res" where
  "bind_res (Ok x) f = f x"
| "bind_res (Fail e) f = Fail e"
| "bind_res Crash f = Crash"

definition map_res :: "('a \<Rightarrow> 'b) \<Rightarrow> 'a res \<Rightarrow> 'b res" where
  "map_res f r = bind_res r (\<lambda>x. Ok (f x))"

lemma bind_res_Ok: "bind_res r f = Ok y \<longleftrightarrow> (\<exists>x. r = Ok x \<and> f x = Ok y)"
  by (cases r) auto

lemma map_res_Ok: "map_res f r = Ok y \<longleftrightarrow> (\<exists>x. r = Ok x \<and> y = f x)"
  by (cases r) (auto simp: map_res_def)

lemma map_res_Crash [simp]: "map_res f r = Crash \<longleftrightarrow> r = Crash"
  by (cases r) (simp_all add: map_res_def)

lemma bind_res_Crash: "bind_res r f = Crash \<longleftrightarrow> r = Crash \<or> (\<exists>x. r = Ok x \<and> f x = Crash)"
  by (cases r) auto

section \<open>Facts\<close>

lemma has_type_under: "has_type (underlying t) v = has_type t v"
  by (induction t rule: underlying.induct) auto

lemma width_pos [simp]: "0 < width k"
  by (cases k) simp_all

lemma width_range: "width k \<le> 64"
  by (cases k) simp_all

lemma trunc_int_typed [simp]: "has_type (TInt k) (VInt (trunc_int k i))"
  by (simp add: trunc_int_def signed_take_bit_int_greater_eq_minus_exp signed_take_bit_int_less_exp)

lemma trunc_uint_typed [simp]: "has_type (TUint k) (VUint (trunc_uint k i))"
proof -
  have "take_bit (width k) i < 2 ^ width k" "0 \<le> take_bit (width k) i" by (simp_all add: take_bit_int_less_exp)
  then show ?thesis by (simp add: trunc_uint_def nat_less_iff)
qed

lemma trunc_int_id: "has_type (TInt k) (VInt i) \<Longrightarrow> trunc_int k i = i"
  using signed_take_bit_int_eq_self [of "width k - 1" i] by (simp add: trunc_int_def)

lemma trunc_uint_id: "0 \<le> i \<Longrightarrow> i < 2 ^ width k \<Longrightarrow> trunc_uint k i = nat i"
  by (simp add: trunc_uint_def take_bit_int_eq_self)

lemma zero_value_typed [simp]: "has_type t (zero_value fl t)"
proof (induction t)
  case (TStruct fs)
  then have "list_all (\<lambda>(n, tag, t). has_type t (zero_value fl t)) fs" by (fastforce simp: list_all_iff)
  then show ?case by (simp add: list.rel_map list_all2_same list_all_iff split_beta)
qed simp_all

text \<open>Every named type has a type under its name that is not named.\<close>

lemma under_idem [simp]: "underlying (underlying t) = underlying t"
  by (induction t rule: underlying.induct) auto

lemma underlying_not_named [simp]: "underlying t \<noteq> TNamed n t'"
  by (induction t rule: underlying.induct) auto

lemma zero_value_under [simp]: "zero_value fl (underlying t) = zero_value fl t"
  by (induction t rule: underlying.induct) auto

lemma has_type_ptr:
  "underlying t = TPtr t' \<Longrightarrow> has_type t v \<longleftrightarrow> v = VPtr None \<or> (\<exists>w. v = VPtr (Some w) \<and> has_type t' w)"
  by (subst has_type_under [symmetric]) (simp split: govalue.splits option.splits)

lemma has_type_slice: "underlying t = TSlice e \<Longrightarrow> has_type t (VSlice vs) \<longleftrightarrow> list_all (has_type e) vs"
  by (subst has_type_under [symmetric]) simp

lemma has_type_struct:
  "underlying t = TStruct fs \<Longrightarrow> has_type t v
    \<longleftrightarrow> (\<exists>vs. v = VStruct vs \<and> list_all2 (\<lambda>(n, tag, t) w. has_type t w) fs vs)"
  by (subst has_type_under [symmetric]) (auto split: govalue.splits)

lemma has_type_map:
  "underlying t = TMap tk tv \<Longrightarrow> has_type t (VMap (Some m)) \<longleftrightarrow> has_type (TMap tk tv) (VMap (Some m))"
  by (metis has_type_under)

lemma update_all: "list_all P m \<Longrightarrow> P (k, v) \<Longrightarrow> list_all P (AList.update k v m)"
  by (induction m) auto

lemma map_update_typed:
  assumes "has_type (TMap k e) (VMap (Some m))" and "has_type k a" and "has_type e b"
  shows "has_type (TMap k e) (VMap (Some (AList.update a b m)))"
  using assms update_all [of "\<lambda>(a, b). has_type k a \<and> has_type e b" m a b] by (simp add: distinct_update)

text \<open>Whole numbers as floating-point numbers, for the examples.\<close>

definition whole_floats :: "int floats" where
  "whole_floats = \<lparr>f_zero = 0, f_nonzero = (\<lambda>x. x \<noteq> 0), f_ParseFloat = Atoi, f_round32 = id, f_int64 = id,
     f_uint64 = nat, f_of_int = id, f_Format = (\<lambda>x _. Itoa x)\<rparr>"

end
