(* ===== verification/CsvTable.thy ===== *)
theory CsvTable
  imports GoReflect
begin

text \<open>
  \<open>base/csvtable/table.go\<close>: a CSV file as a table with a header, and its rows as a map from the
  first column to structs. Reading and splitting the file (\<open>os.Open\<close>, \<open>csv.Reader.ReadAll\<close>) is
  an argument: \<open>None\<close> when it fails, and otherwise the records, which the reader only returns
  when they all have as many fields as the first (\<open>rectangular\<close>).
\<close>

record CsvTable =
  KeyMap :: "(string \<times> nat) list"
  Records :: "string list list"

definition rectangular :: "string list list \<Rightarrow> bool" where
  "rectangular rs \<longleftrightarrow> (\<forall>r \<in> set rs. length r = length (hd rs)) \<and> (rs \<noteq> [] \<longrightarrow> hd rs \<noteq> [])"

definition header_map :: "string list \<Rightarrow> (string \<times> nat) list" where
  "header_map rownames = fold (\<lambda>(index, name). AList.update (ToLower name) index) (enumerate 0 rownames) []"

text \<open>\<open>Load\<close>: the header has replaced the old one even when the rows are then refused.\<close>

definition table_Load :: "string list list option \<Rightarrow> CsvTable \<Rightarrow> csv_error option \<times> CsvTable" where
  "table_Load contents c =
     (case contents of
        None \<Rightarrow> (Some EOpen, c)
      | Some [] \<Rightarrow> (Some EEmpty, c)
      | Some (rownames # rows) \<Rightarrow>
          let keyMap = header_map rownames;
              c = c\<lparr>KeyMap := keyMap\<rparr>
          in if \<exists>r \<in> set rows. length r \<noteq> length keyMap then (Some ERowLength, c)
             else (None, c\<lparr>Records := rows\<rparr>))"

section \<open>Lists in one cell\<close>

definition StringArray_ToString :: "string \<Rightarrow> string list" where
  "StringArray_ToString s =
     (let param = strings_Trim s '' []{}'' in if param = [] then [] else strings_Split param CHR '','')"

fun ints_of :: "string list \<Rightarrow> int list option" where
  "ints_of [] = Some []"
| "ints_of (str # strs) =
     (case Atoi str of None \<Rightarrow> None | Some v \<Rightarrow> map_option (\<lambda>vs. v # vs) (ints_of strs))"

fun floats_of :: "'f floats \<Rightarrow> string list \<Rightarrow> 'f list option" where
  "floats_of fl [] = Some []"
| "floats_of fl (str # strs) =
     (case f_ParseFloat fl str of None \<Rightarrow> None | Some v \<Rightarrow> map_option (\<lambda>vs. v # vs) (floats_of fl strs))"

text \<open>The conversions of \<open>StringArray\<close>; the values read before an error are not used by anyone.\<close>

definition ToInt :: "string \<Rightarrow> int list option" where
  "ToInt s = ints_of (StringArray_ToString s)"

definition ToFloat64 :: "'f floats \<Rightarrow> string \<Rightarrow> 'f list option" where
  "ToFloat64 fl s = floats_of fl (StringArray_ToString s)"

definition ToFloat32 :: "'f floats \<Rightarrow> string \<Rightarrow> 'f list option" where
  "ToFloat32 fl s = map_option (map (f_round32 fl)) (floats_of fl (StringArray_ToString s))"

definition ToUint8 :: "string \<Rightarrow> nat list option" where
  "ToUint8 s = map_option (map (trunc_uint Bits8)) (ToInt s)"

definition ToUint16 :: "string \<Rightarrow> nat list option" where
  "ToUint16 s = map_option (map (trunc_uint Bits16)) (ToInt s)"

definition ToUint32 :: "string \<Rightarrow> nat list option" where
  "ToUint32 s = map_option (map (trunc_uint Bits32)) (ToInt s)"

definition ToUint64 :: "string \<Rightarrow> nat list option" where
  "ToUint64 s = map_option (map (trunc_uint Bits64)) (ToInt s)"

definition ToInt32 :: "string \<Rightarrow> int list option" where
  "ToInt32 s = map_option (map (trunc_int Bits32)) (ToInt s)"

definition ToInt64 :: "string \<Rightarrow> int list option" where
  "ToInt64 s = map_option (map (trunc_int Bits64)) (ToInt s)"

section \<open>One cell into one field\<close>

text \<open>
  \<open>ro\<close>: the value was reached through an unexported field, and storing into it panics. The
  setters get the type of the field; \<open>SetInt\<close> and its siblings panic on a value of another kind.
\<close>

definition store :: "bool \<Rightarrow> 'f govalue \<Rightarrow> 'f govalue res" where
  "store ro v = (if ro then Crash else Ok v)"

text \<open>\<open>i, e := strconv.Atoi(value)\<close>, where an error on an empty value counts as zero.\<close>

definition cell_int :: "string \<Rightarrow> int option" where
  "cell_int value = (if value = [] then Some 0 else Atoi value)"

definition fieldSetInt :: "bool \<Rightarrow> gotype \<Rightarrow> string \<Rightarrow> 'f govalue res" where
  "fieldSetInt ro t value =
     (case cell_int value of
        None \<Rightarrow> Fail ENumber
      | Some i \<Rightarrow> (case underlying t of TInt k \<Rightarrow> store ro (VInt (trunc_int k i)) | _ \<Rightarrow> Crash))"

definition fieldSetUint :: "bool \<Rightarrow> gotype \<Rightarrow> string \<Rightarrow> 'f govalue res" where
  "fieldSetUint ro t value =
     (case cell_int value of
        None \<Rightarrow> Fail ENumber
      | Some i \<Rightarrow> (case underlying t of TUint k \<Rightarrow> store ro (VUint (trunc_uint k i)) | _ \<Rightarrow> Crash))"

definition fieldSetFloat :: "'f floats \<Rightarrow> bool \<Rightarrow> gotype \<Rightarrow> string \<Rightarrow> 'f govalue res" where
  "fieldSetFloat fl ro t value =
     (case (if value = [] then Some (f_zero fl) else f_ParseFloat fl value) of
        None \<Rightarrow> Fail EFloat
      | Some x \<Rightarrow>
          (case underlying t of TFloat32 \<Rightarrow> store ro (VFloat (f_round32 fl x))
           | TFloat64 \<Rightarrow> store ro (VFloat x) | _ \<Rightarrow> Crash))"

definition fieldSetString :: "bool \<Rightarrow> gotype \<Rightarrow> string \<Rightarrow> 'f govalue res" where
  "fieldSetString ro t value = (if underlying t = TString then store ro (VString value) else Crash)"

definition fieldSetBool :: "bool \<Rightarrow> gotype \<Rightarrow> string \<Rightarrow> 'f govalue res" where
  "fieldSetBool ro t value =
     (let value = ToLower value;
          set = (\<lambda>b. if underlying t = TBool then store ro (VBool b) else Crash)
      in if value \<in> {''true'', ''yes'', ''1'', ''y'', ''enable'', ''on''} then set True
         else if value \<in> {''false'', ''no'', ''0'', ''n'', ''disable'', ''off''} then set False
         else Fail EBool)"

text \<open>
  A list that does not parse leaves the field as it is, without an error. \<open>Value.Set\<close> panics on
  a field of another type.
\<close>

definition fieldSetSlice ::
  "'f floats \<Rightarrow> bool \<Rightarrow> gotype \<Rightarrow> 'f govalue \<Rightarrow> string \<Rightarrow> string \<Rightarrow> 'f govalue res" where
  "fieldSetSlice fl ro t old value field_type =
     (let (elem, vs) =
        (if field_type = ''[]int'' then (TInt IntWord, map_option (map VInt) (ToInt value))
         else if field_type = ''[]uint32'' then (TUint Bits32, map_option (map VUint) (ToUint32 value))
         else if field_type = ''[]string'' then (TString, Some (map VString (StringArray_ToString value)))
         else if field_type = ''[]float64'' then (TFloat64, map_option (map VFloat) (ToFloat64 fl value))
         else if field_type = ''[]uint8'' then (TUint Bits8, map_option (map VUint) (ToUint8 value))
         else if field_type = ''[]int32'' then (TInt Bits32, map_option (map VInt) (ToInt32 value))
         else if field_type = ''[]float32'' then (TFloat32, map_option (map VFloat) (ToFloat32 fl value))
         else (TInt Bits64, map_option (map VInt) (ToInt64 value)))
      in case vs of
           None \<Rightarrow> Ok old
         | Some vs \<Rightarrow> if underlying t = TSlice elem then store ro (VSlice vs) else Crash)"

definition set_direct :: "'f floats \<Rightarrow> bool \<Rightarrow> gotype \<Rightarrow> 'f govalue \<Rightarrow> string \<Rightarrow> 'f govalue res" where
  "set_direct fl ro t v value =
     (let field_type = type_string t
      in if field_type \<in> {''int'', ''int8'', ''int16'', ''int32'', ''int64'', ''*int''} then fieldSetInt ro t value
         else if field_type \<in> {''uint'', ''uint8'', ''uint16'', ''uint32'', ''uint64''} then fieldSetUint ro t value
         else if field_type \<in> {''float32'', ''float64''} then fieldSetFloat fl ro t value
         else if field_type = ''string'' then fieldSetString ro t value
         else if field_type = ''bool'' then fieldSetBool ro t value
         else if field_type \<in> {''[]int'', ''[]uint32'', ''[]string'', ''[]float64'', ''[]uint8'', ''[]int32'',
           ''[]float32'', ''[]int64''} then fieldSetSlice fl ro t v value field_type
         else Fail EUnsupported)"

text \<open>\<open>setValue\<close> goes through one pointer; the type of a nil pointer's target is asked in vain.\<close>

definition setValue :: "'f floats \<Rightarrow> bool \<Rightarrow> gotype \<Rightarrow> 'f govalue \<Rightarrow> string \<Rightarrow> 'f govalue res" where
  "setValue fl ro t v value =
     (case underlying t of
        TPtr t' \<Rightarrow>
          (case v of VPtr (Some w) \<Rightarrow> map_res (\<lambda>w. VPtr (Some w)) (set_direct fl ro t' w value) | _ \<Rightarrow> Crash)
      | _ \<Rightarrow> set_direct fl ro t v value)"

section \<open>Rows\<close>

definition column_of :: "gofield \<Rightarrow> string" where
  "column_of = (\<lambda>(field_name, tag, t). ToLower (if tag = [] then field_name else tag))"

definition ignored :: "gofield \<Rightarrow> bool" where
  "ignored = (\<lambda>(field_name, tag, t). tag \<in> {''-'', ''_'', ''omitempty''})"

text \<open>The loop of \<open>setRowValue\<close>; an error of \<open>setValue\<close> is logged and the field left alone.\<close>

fun set_fields ::
  "'f floats \<Rightarrow> (string \<times> nat) list \<Rightarrow> gofield list \<Rightarrow> 'f govalue list \<Rightarrow> string list \<Rightarrow> 'f govalue list res" where
  "set_fields fl km [] vs cells = Ok []"
| "set_fields fl km (f # fs) [] cells = Crash"
| "set_fields fl km (f # fs) (v # vs) cells =
     bind_res
       (if ignored f then Ok v
        else case map_of km (column_of f) of
          None \<Rightarrow> Ok v
        | Some keyIdx \<Rightarrow>
            if keyIdx \<ge> length cells then Crash
            else (case setValue fl (\<not> exported (fst f)) (snd (snd f)) v (cells ! keyIdx) of
                    Ok w \<Rightarrow> Ok w | Fail _ \<Rightarrow> Ok v | Crash \<Rightarrow> Crash))
       (\<lambda>w. map_res (\<lambda>ws. w # ws) (set_fields fl km fs vs cells))"

definition setRowValue ::
  "'f floats \<Rightarrow> CsvTable \<Rightarrow> gotype \<Rightarrow> 'f govalue \<Rightarrow> string list \<Rightarrow> 'f govalue res" where
  "setRowValue fl c t v cells =
     (case (underlying t, v) of
        (TStruct fs, VStruct vs) \<Rightarrow> map_res VStruct (set_fields fl (KeyMap c) fs vs cells)
      | (TPtr t', VPtr (Some w)) \<Rightarrow>
          (case (underlying t', w) of
             (TStruct fs, VStruct vs) \<Rightarrow> map_res (\<lambda>vs. VPtr (Some (VStruct vs))) (set_fields fl (KeyMap c) fs vs cells)
           | _ \<Rightarrow> Crash)
      | _ \<Rightarrow> Crash)"

definition new_row :: "'f floats \<Rightarrow> gotype \<Rightarrow> 'f govalue" where
  "new_row fl t = (case underlying t of TPtr t' \<Rightarrow> VPtr (Some (zero_value fl t')) | _ \<Rightarrow> zero_value fl t)"

text \<open>\<open>Unmarshal\<close> into the map \<open>m\<close> of type \<open>tm\<close>; after an error the rows before it are there.\<close>

fun unmarshal_rows ::
  "'f floats \<Rightarrow> CsvTable \<Rightarrow> gotype \<Rightarrow> gotype \<Rightarrow> string list list \<Rightarrow> ('f govalue \<times> 'f govalue) list
   \<Rightarrow> unit res \<times> ('f govalue \<times> 'f govalue) list" where
  "unmarshal_rows fl c tyKey tyValue [] m = (Ok (), m)"
| "unmarshal_rows fl c tyKey tyValue (line # rest) m =
     (case bind_res (if line = [] then Crash else setValue fl False tyKey (zero_value fl tyKey) (hd line))
             (\<lambda>k. map_res (\<lambda>v. (k, v)) (setRowValue fl c tyValue (new_row fl tyValue) line)) of
        Ok (k, v) \<Rightarrow> unmarshal_rows fl c tyKey tyValue rest (AList.update k v m)
      | Fail e \<Rightarrow> (Fail e, m)
      | Crash \<Rightarrow> (Crash, m))"

definition table_Unmarshal ::
  "'f floats \<Rightarrow> CsvTable \<Rightarrow> gotype \<Rightarrow> 'f govalue \<Rightarrow> unit res \<times> 'f govalue" where
  "table_Unmarshal fl c tm v =
     (case (underlying tm, v) of
        (TMap tyKey tyValue, VMap (Some m)) \<Rightarrow>
          (let (r, m) = unmarshal_rows fl c tyKey tyValue (Records c) m in (r, VMap (Some m)))
      | _ \<Rightarrow> (Fail ENotMap, v))"

section \<open>Every stored value has the type of its field\<close>

lemma store_Ok [simp]: "store ro v = Ok w \<longleftrightarrow> \<not> ro \<and> v = w" "store False v \<noteq> Crash"
  by (auto simp: store_def)

lemma ints_of_range: "ints_of ss = Some vs \<Longrightarrow> i \<in> set vs \<Longrightarrow> - (2 ^ 63) \<le> i \<and> i < 2 ^ 63"
  by (induction ss arbitrary: vs) (auto split: option.splits dest: Atoi_range [simplified])

lemma cell_int_range: "cell_int s = Some i \<Longrightarrow> - (2 ^ 63) \<le> i \<and> i < 2 ^ 63"
  by (auto simp: cell_int_def split: if_splits dest: Atoi_range [simplified])

lemmas trunc_bounds =
  trunc_int_typed [of Bits32, simplified] trunc_int_typed [of Bits64, simplified]
  trunc_uint_typed [of Bits8, simplified] trunc_uint_typed [of Bits32, simplified]

lemma fieldSetSlice_typed:
  assumes "fieldSetSlice fl ro t v s ft = Ok w" and "has_type t v"
  shows "has_type t w"
proof -
  have *: "has_type t (VSlice vs)" if "underlying t = TSlice e" "list_all (has_type e) vs" for vs e
    using that has_type_under [of t "VSlice vs"] by simp
  have int: "list_all (has_type (TInt IntWord)) (map VInt xs)" if "ToInt s = Some xs" for xs
    using that ints_of_range [of _ xs] by (auto simp: list_all_iff ToInt_def)
  show ?thesis
    using assms int
    by (auto simp: fieldSetSlice_def Let_def ToUint8_def ToUint32_def ToInt32_def ToInt64_def
        list_all_iff trunc_bounds split: if_splits option.splits intro!: *)
qed

lemma set_direct_typed:
  assumes "set_direct fl ro t v s = Ok w" and "has_type t v"
  shows "has_type t w"
proof -
  have *: "has_type t x" if "has_type (underlying t) x" for x using that by (simp add: has_type_under)
  show ?thesis
    using assms fieldSetSlice_typed [of fl ro t v s]
    by (auto simp: set_direct_def Let_def fieldSetInt_def fieldSetUint_def fieldSetFloat_def fieldSetString_def
        fieldSetBool_def split: if_splits option.splits gotype.splits simp del: has_type.simps intro!: *)
      (auto simp del: has_type.simps(3,4))
qed

lemma setValue_typed:
  assumes "setValue fl ro t v s = Ok w" and "has_type t v"
  shows "has_type t w"
proof (cases "\<exists>t'. underlying t = TPtr t'")
  case True
  then obtain t' where t': "underlying t = TPtr t'" ..
  with assms obtain x y where "v = VPtr (Some x)" "w = VPtr (Some y)" "set_direct fl ro t' x s = Ok y"
    by (auto simp: setValue_def map_res_Ok split: govalue.splits option.splits)
  with assms(2) t' show ?thesis using set_direct_typed [of fl ro t' x s y] by (simp add: has_type_ptr)
next
  case False
  then show ?thesis using assms set_direct_typed [of fl ro t v s w]
    by (auto simp: setValue_def split: gotype.splits)
qed

lemma set_fields_typed:
  "set_fields fl km fs vs cells = Ok ws \<Longrightarrow> list_all2 (\<lambda>(n, tag, t) w. has_type t w) fs vs \<Longrightarrow>
   list_all2 (\<lambda>(n, tag, t) w. has_type t w) fs ws"
proof (induction fl km fs vs cells arbitrary: ws rule: set_fields.induct)
  case (3 fl km f fs v vs cells)
  obtain n tag t where f: "f = (n, tag, t)" by (cases f)
  from 3(2) obtain w ws' where w: "ws = w # ws'" "set_fields fl km fs vs cells = Ok ws'"
      "w = v \<or> (\<exists>s. setValue fl (\<not> exported n) t v s = Ok w)"
    by (auto simp: f bind_res_Ok map_res_Ok split: if_splits option.splits res.splits)
  moreover have "has_type t v" using 3(3) f by simp
  ultimately show ?case using 3 f setValue_typed [of fl _ t v _ w] by auto
qed auto

lemma setRowValue_typed:
  assumes "setRowValue fl c t v cells = Ok w" and "has_type t v"
  shows "has_type t w"
proof (cases "underlying t")
  case (TStruct fs)
  then show ?thesis using assms set_fields_typed [of fl "KeyMap c" fs _ cells]
    by (auto simp: setRowValue_def has_type_struct map_res_Ok split: govalue.splits)
next
  case (TPtr t')
  with assms obtain x fs vs ws where x: "v = VPtr (Some x)" "underlying t' = TStruct fs" "x = VStruct vs"
      "set_fields fl (KeyMap c) fs vs cells = Ok ws" "w = VPtr (Some (VStruct ws))"
    by (auto simp: setRowValue_def map_res_Ok split: govalue.splits option.splits gotype.splits)
  then show ?thesis using assms(2) TPtr set_fields_typed [of fl "KeyMap c" fs vs cells ws]
    by (simp add: has_type_ptr has_type_struct)
qed (use assms in \<open>simp_all add: setRowValue_def\<close>)

lemma new_row_typed [simp]: "has_type t (new_row fl t)"
  by (cases "underlying t"; simp add: new_row_def has_type_ptr)

lemma unmarshal_rows_typed:
  assumes "has_type (TMap tk tv) (VMap (Some m))"
  shows "has_type (TMap tk tv) (VMap (Some (snd (unmarshal_rows fl c tk tv lines m))))"
  using assms
proof (induction lines arbitrary: m)
  case (Cons line lines)
  let ?r = "bind_res (if line = [] then Crash else setValue fl False tk (zero_value fl tk) (hd line))
    (\<lambda>k. map_res (\<lambda>v. (k, v)) (setRowValue fl c tv (new_row fl tv) line))"
  show ?case
  proof (cases ?r)
    case (Ok kv)
    obtain k v where kv: "kv = (k, v)" by (cases kv)
    then have "has_type tk k" "has_type tv v"
      using Ok by (auto simp: bind_res_Ok map_res_Ok split: if_splits intro: setValue_typed setRowValue_typed)
    then have "has_type (TMap tk tv) (VMap (Some (AList.update k v m)))"
      using Cons.prems by (intro map_update_typed)
    then show ?thesis using Cons.IH Ok kv by simp
  qed (use Cons.prems in simp_all)
qed simp

section \<open>What a loaded table looks like\<close>

lemma header_map_append:
  "header_map (names @ [name]) = AList.update (ToLower name) (length names) (header_map names)"
  by (simp add: header_map_def enumerate_append_eq)

lemma map_fst_header: "fst ` set (header_map names) = set (map ToLower names)"
proof (induction names rule: rev_induct)
  case (snoc name names)
  then show ?case using dom_update [of "ToLower name" "length names" "header_map names"]
    by (simp add: header_map_append dom_map_of_conv_image_fst)
qed (simp add: header_map_def)

lemma distinct_header: "distinct (map fst (header_map names))"
  by (induction names rule: rev_induct) (simp add: header_map_def, simp add: header_map_append distinct_update)

lemma length_header: "length (header_map names) = card (set (map ToLower names))"
proof -
  have "length (header_map names) = card (set (map fst (header_map names)))"
    using distinct_card [OF distinct_header] by (simp del: set_map)
  then show ?thesis by (simp only: set_map map_fst_header)
qed

lemma header_index: "map_of (header_map names) k = Some j \<Longrightarrow> j < length names \<and> ToLower (names ! j) = k"
proof (induction names rule: rev_induct)
  case (snoc name names)
  then show ?case
    by (cases "k = ToLower name") (auto simp: header_map_append update_conv nth_append less_Suc_eq)
qed (simp add: header_map_def)

lemma Load_Ok_iff:
  assumes "rectangular (h # rows)"
  shows "fst (table_Load (Some (h # rows)) c) = None \<longleftrightarrow> rows = [] \<or> distinct (map ToLower h)"
proof -
  have len: "\<forall>r \<in> set rows. length r = length h" using assms by (simp add: rectangular_def)
  have eq: "length (header_map h) = length h \<longleftrightarrow> distinct (map ToLower h)"
    using card_distinct [of "map ToLower h"] distinct_card [of "map ToLower h"]
    unfolding length_header length_map by blast
  have "fst (table_Load (Some (h # rows)) c) = None \<longleftrightarrow> (\<forall>r \<in> set rows. length r = length (header_map h))"
    by (auto simp: table_Load_def Let_def)
  also have "\<dots> \<longleftrightarrow> rows = [] \<or> length (header_map h) = length h"
    using len by (metis list.set_intros(1) neq_Nil_conv empty_iff list.set(1))
  finally show ?thesis unfolding eq .
qed

text \<open>Every column of a loaded table is a cell of every row.\<close>

definition loaded :: "CsvTable \<Rightarrow> bool" where
  "loaded c \<longleftrightarrow> (\<forall>r \<in> set (Records c). r \<noteq> [] \<and> (\<forall>k j. map_of (KeyMap c) k = Some j \<longrightarrow> j < length r))"

lemma Load_loaded:
  assumes "table_Load (Some rs) c = (None, c')" and "rectangular rs"
  shows "loaded c'"
proof -
  from assms(1) obtain h rows where rs: "rs = h # rows" by (cases rs) (auto simp: table_Load_def)
  then have c': "c' = c\<lparr>KeyMap := header_map h, Records := rows\<rparr>"
    using assms(1) by (auto simp: table_Load_def Let_def split: if_splits)
  show ?thesis
    using assms(2) header_index [of h] by (auto simp: rs c' loaded_def rectangular_def)
qed

section \<open>What a row becomes\<close>

text \<open>Types on which \<open>setValue\<close> cannot panic: not pointers, and without a name of their own.\<close>

fun plain :: "gotype \<Rightarrow> bool" where
  "plain (TPtr t) = False"
| "plain (TNamed n t) = False"
| "plain (TSlice (TNamed n t)) = False"
| "plain t = True"

lemma kind_suffix_eq [simp]:
  "kind_suffix k = [] \<longleftrightarrow> k = IntWord" "kind_suffix k = ''8'' \<longleftrightarrow> k = Bits8"
  "kind_suffix k = ''32'' \<longleftrightarrow> k = Bits32" "kind_suffix k = ''64'' \<longleftrightarrow> k = Bits64"
  by (cases k; simp)+

lemma slice_strings [simp]:
  assumes "\<forall>n t. e \<noteq> TNamed n t"
  shows "type_string e = ''int'' \<longleftrightarrow> e = TInt IntWord" "type_string e = ''uint8'' \<longleftrightarrow> e = TUint Bits8"
    "type_string e = ''uint32'' \<longleftrightarrow> e = TUint Bits32" "type_string e = ''int32'' \<longleftrightarrow> e = TInt Bits32"
    "type_string e = ''int64'' \<longleftrightarrow> e = TInt Bits64" "type_string e = ''string'' \<longleftrightarrow> e = TString"
    "type_string e = ''float64'' \<longleftrightarrow> e = TFloat64" "type_string e = ''float32'' \<longleftrightarrow> e = TFloat32"
  using assms by (cases e; simp)+

lemma set_direct_total:
  assumes "plain t"
  shows "set_direct fl False t v s \<noteq> Crash"
proof (cases t)
  case (TSlice e)
  then have "\<forall>n t. e \<noteq> TNamed n t" using assms by auto
  then show ?thesis
    by (auto simp: TSlice set_direct_def fieldSetSlice_def Let_def store_def split: option.splits)
qed (use assms in \<open>auto simp: set_direct_def Let_def fieldSetInt_def fieldSetUint_def fieldSetFloat_def
        fieldSetString_def fieldSetBool_def store_def split: option.splits\<close>)

lemma setValue_total: "plain t \<Longrightarrow> setValue fl False t v s \<noteq> Crash"
  using set_direct_total [of t fl v s] by (cases t) (auto simp: setValue_def)

text \<open>A struct all of whose fields can be filled: exported, of a plain type.\<close>

definition plain_struct :: "gofield list \<Rightarrow> bool" where
  "plain_struct fs \<longleftrightarrow> (\<forall>(name, tag, t) \<in> set fs. exported name \<and> plain t)"

text \<open>
  What a row says about a field: the cell of its column, converted; the zero value when it is
  ignored, has no column, or the cell does not convert.
\<close>

definition field_of_row :: "'f floats \<Rightarrow> (string \<times> nat) list \<Rightarrow> string list \<Rightarrow> gofield \<Rightarrow> 'f govalue" where
  "field_of_row fl km cells f =
     (let t = snd (snd f); zero = zero_value fl t
      in if ignored f then zero
         else case map_of km (column_of f) of
           None \<Rightarrow> zero
         | Some j \<Rightarrow> (case setValue fl False t zero (cells ! j) of Ok w \<Rightarrow> w | _ \<Rightarrow> zero))"

lemma set_fields_spec:
  assumes "plain_struct fs" and "\<forall>k j. map_of km k = Some j \<longrightarrow> j < length cells"
  shows "set_fields fl km fs (map (\<lambda>(n, tag, t). zero_value fl t) fs) cells = Ok (map (field_of_row fl km cells) fs)"
  using assms(1)
proof (induction fs)
  case (Cons f fs)
  obtain n tag t where f: "f = (n, tag, t)" by (cases f)
  then have pl: "exported n" "plain t" "plain_struct fs" using Cons.prems by (auto simp: plain_struct_def)
  show ?case
  proof (cases "ignored f \<or> map_of km (column_of f) = None")
    case True
    then show ?thesis
      using Cons.IH pl(3) by (auto simp: f field_of_row_def Let_def map_res_def)
  next
    case False
    then obtain j where j: "map_of km (column_of f) = Some j" "j < length cells" using assms(2) by auto
    then show ?thesis
      using Cons.IH pl(3) False pl(1) setValue_total [OF pl(2), of fl "zero_value fl t" "cells ! j"]
      by (cases "setValue fl False t (zero_value fl t) (cells ! j)")
        (auto simp: f field_of_row_def Let_def map_res_def)
  qed
qed simp

text \<open>The struct types a row can become: by value or behind a pointer.\<close>

definition row_value :: "'f floats \<Rightarrow> CsvTable \<Rightarrow> gofield list \<Rightarrow> gotype \<Rightarrow> string list \<Rightarrow> 'f govalue" where
  "row_value fl c fs tv cells =
     (let v = VStruct (map (field_of_row fl (KeyMap c) cells) fs)
      in case underlying tv of TPtr _ \<Rightarrow> VPtr (Some v) | _ \<Rightarrow> v)"

definition row_type :: "gotype \<Rightarrow> gofield list \<Rightarrow> bool" where
  "row_type tv fs \<longleftrightarrow> underlying tv = TStruct fs \<or> (\<exists>t. underlying tv = TPtr t \<and> underlying t = TStruct fs)"

lemma setRowValue_spec:
  assumes "row_type tv fs" and "plain_struct fs" and "\<forall>k j. map_of (KeyMap c) k = Some j \<longrightarrow> j < length cells"
  shows "setRowValue fl c tv (new_row fl tv) cells = Ok (row_value fl c fs tv cells)"
proof -
  have z: "zero_value fl t = VStruct (map (\<lambda>(n, tag, t). zero_value fl t) fs)" if "underlying t = TStruct fs" for t
    using zero_value_under [of fl t] that by simp
  from assms(1) show ?thesis
    unfolding row_type_def
  proof
    assume u: "underlying tv = TStruct fs"
    then show ?thesis
      using z [OF u] set_fields_spec [OF assms(2,3), of fl]
      by (simp add: setRowValue_def new_row_def row_value_def map_res_def Let_def)
  next
    assume "\<exists>t. underlying tv = TPtr t \<and> underlying t = TStruct fs"
    then obtain t where u: "underlying tv = TPtr t" "underlying t = TStruct fs" by blast
    then show ?thesis
      using z [OF u(2)] set_fields_spec [OF assms(2,3), of fl]
      by (simp add: setRowValue_def new_row_def row_value_def map_res_def Let_def)
  qed
qed

text \<open>The rows as a finite map: for each key the last row that has it.\<close>

definition row_key :: "'f floats \<Rightarrow> gotype \<Rightarrow> string list \<Rightarrow> 'f govalue res" where
  "row_key fl tk line = setValue fl False tk (zero_value fl tk) (hd line)"

lemma unmarshal_rows_spec:
  assumes "row_type tv fs" and "plain_struct fs" and "plain tk"
    and "\<forall>r \<in> set lines. r \<noteq> [] \<and> (\<forall>k j. map_of (KeyMap c) k = Some j \<longrightarrow> j < length r)"
  shows "(\<forall>m. fst (unmarshal_rows fl c tk tv lines m) \<noteq> Crash)
    \<and> (\<forall>m. fst (unmarshal_rows fl c tk tv lines m) = Ok () \<longleftrightarrow> (\<forall>r \<in> set lines. \<exists>k. row_key fl tk r = Ok k))
    \<and> (\<forall>m k. fst (unmarshal_rows fl c tk tv lines m) = Ok () \<longrightarrow>
         map_of (snd (unmarshal_rows fl c tk tv lines m)) k =
           (case find (\<lambda>r. row_key fl tk r = Ok k) (rev lines) of
              Some r \<Rightarrow> Some (row_value fl c fs tv r) | None \<Rightarrow> map_of m k))"
  using assms(4)
proof (induction lines)
  case (Cons line lines)
  have row: "line \<noteq> []" "setRowValue fl c tv (new_row fl tv) line = Ok (row_value fl c fs tv line)"
    using Cons.prems setRowValue_spec [OF assms(1,2)] by auto
  have nc: "setValue fl False tk (zero_value fl tk) (hd line) \<noteq> Crash" using assms(3) by (rule setValue_total)
  have find: "find P (xs @ [x]) = (case find P xs of Some y \<Rightarrow> Some y | None \<Rightarrow> if P x then Some x else None)"
    for P and xs :: "string list list" and x
    by (induction xs) auto
  from Cons row nc show ?case
    by (cases "setValue fl False tk (zero_value fl tk) (hd line)")
      (auto simp: row_key_def map_res_def find update_conv split: option.splits)
qed simp

section \<open>Properties\<close>

text \<open>
  The loader never stores a value of the wrong type. Whatever table, struct type and map it is
  given, and whether it succeeds, fails or panics on the way, every key and every value of the map
  afterwards has the type of the map: integers in the range of their width, structs field by field.
\<close>
lemma unmarshal_stays_typed:
  assumes "has_type tm v"
  shows "has_type tm (snd (table_Unmarshal fl c tm v))"
proof (cases "\<exists>tk tv m. underlying tm = TMap tk tv \<and> v = VMap (Some m)")
  case True
  then obtain tk tv m where t: "underlying tm = TMap tk tv" "v = VMap (Some m)" by blast
  then have "has_type (TMap tk tv) (VMap (Some m))" using assms has_type_map by blast
  then have "has_type tm (VMap (Some (snd (unmarshal_rows fl c tk tv (Records c) m))))"
    using t(1) has_type_map unmarshal_rows_typed by blast
  then show ?thesis using t by (simp add: table_Unmarshal_def split_beta)
next
  case False
  then show ?thesis
    using assms by (auto simp: table_Unmarshal_def split: gotype.splits govalue.splits option.splits)
qed

definition demo_table :: CsvTable where
  "demo_table = \<lparr>KeyMap = [(''id'', 0), (''level'', 1)], Records = [[''7'', ''300''], [''8'', ''-1'']]\<rparr>"

definition demo_row :: gotype where
  "demo_row = TStruct [(''ID'', [], TInt Bits32), (''Level'', [], TUint Bits8)]"

lemma unmarshal_stays_typed_witness:
  "has_type (TMap (TInt Bits32) demo_row)
     (snd (table_Unmarshal whole_floats demo_table (TMap (TInt Bits32) demo_row) (VMap (Some []))))"
  by (rule unmarshal_stays_typed) simp

text \<open>
  C16: a loaded table refines a finite map. After a successful \<open>Load\<close>, \<open>Unmarshal\<close> into a map of
  structs (or of pointers to structs) with exported fields of plain types never panics; it succeeds
  exactly when every first column converts to the type of the key, and then the map holds for each
  key the struct of the last row with that key, every field being the converted cell of its column
  (zero when it has none or the cell does not convert), and what it held before for all other keys.
\<close>
theorem table_refines_map:
  assumes "table_Load (Some rs) c = (None, c')" and "rectangular rs"
    and "underlying tm = TMap tk tv" and "plain tk" and "row_type tv fs" and "plain_struct fs"
    and "table_Unmarshal fl c' tm (VMap (Some m)) = (r, v)"
  shows "r \<noteq> Crash \<and> (r = Ok () \<longleftrightarrow> (\<forall>line \<in> set (tl rs). \<exists>k. row_key fl tk line = Ok k))
    \<and> (r = Ok () \<longrightarrow> (\<exists>m'. v = VMap (Some m') \<and> (\<forall>k. map_of m' k =
          (case find (\<lambda>line. row_key fl tk line = Ok k) (rev (tl rs)) of
             Some line \<Rightarrow> Some (row_value fl c' fs tv line) | None \<Rightarrow> map_of m k))))"
proof -
  have rec: "Records c' = tl rs"
    using assms(1) by (cases rs) (auto simp: table_Load_def Let_def split: if_splits)
  have "\<forall>line \<in> set (tl rs). line \<noteq> [] \<and> (\<forall>k j. map_of (KeyMap c') k = Some j \<longrightarrow> j < length line)"
    using Load_loaded [OF assms(1,2)] unfolding loaded_def rec .
  note spec = unmarshal_rows_spec [OF assms(5,6,4) this, of fl]
  have "r = fst (unmarshal_rows fl c' tk tv (tl rs) m)" "v = VMap (Some (snd (unmarshal_rows fl c' tk tv (tl rs) m)))"
    using assms(3,7) by (auto simp: table_Unmarshal_def rec split: prod.splits)
  then show ?thesis using spec by simp
qed

lemma demo_Load:
  "table_Load (Some [[''ID'', ''Level''], [''7'', ''300''], [''8'', ''-1'']]) \<lparr>KeyMap = [], Records = []\<rparr> = (None, demo_table)"
  by (simp add: table_Load_def header_map_def ToLower_def lower_def char_of_def bit_0 demo_table_def Let_def)

theorem table_refines_map_witness:
  "\<exists>r v. table_Unmarshal whole_floats demo_table (TMap (TInt Bits32) demo_row) (VMap (Some [])) = (r, v) \<and> r \<noteq> Crash"
proof -
  obtain r v where rv:
    "table_Unmarshal whole_floats demo_table (TMap (TInt Bits32) demo_row) (VMap (Some [])) = (r, v)" by fastforce
  have "r \<noteq> Crash"
    using table_refines_map [OF demo_Load _ _ _ _ _ rv, of "TInt Bits32" demo_row
        "[(''ID'', [], TInt Bits32), (''Level'', [], TUint Bits8)]"]
    by (simp add: rectangular_def row_type_def demo_row_def plain_struct_def exported_def lower_def char_of_def)
  then show ?thesis using rv by blast
qed

text \<open>
  A table whose headings are not distinct, letter case apart, cannot be loaded: the row length is
  compared with the number of distinct headings, which rows of the reader's uniform length then
  never have. Without rows, or with distinct headings, \<open>Load\<close> succeeds.
\<close>
lemma Load_needs_distinct_headings:
  assumes "rectangular (h # rows)"
  shows "fst (table_Load (Some (h # rows)) c) = None \<longleftrightarrow> rows = [] \<or> distinct (map ToLower h)"
  by (rule Load_Ok_iff [OF assms])

lemma Load_needs_distinct_headings_witness:
  "fst (table_Load (Some [[''id'', ''ID''], [''1'', ''2'']]) \<lparr>KeyMap = [], Records = []\<rparr>) \<noteq> None"
  using Load_needs_distinct_headings [of "[''id'', ''ID'']" "[[''1'', ''2'']]"]
  by (simp add: rectangular_def ToLower_def lower_def char_of_def bit_0)

end
