(* ===== verification/CsvTypes.thy ===== *)
theory CsvTypes
  imports GoReflect
begin

text \<open>
  \<open>common/csvparse/types.go\<close>: a cell into a field and a field into a string. The methods a type
  may bring (\<open>UnmarshalCSV\<close>, \<open>UnmarshalText\<close>, \<open>UnmarshalCSVEx\<close>, \<open>MarshalCSV\<close>, \<open>MarshalText\<close>,
  \<open>String\<close>) and JSON's decoder are the fields of \<open>csv_env\<close>, by type: an unmarshalling method of
  \<open>*t\<close> takes the value it is called on and gives the value afterwards, or fails or panics.
\<close>

record 'f csv_env =
  fls :: "'f floats"
  m_UnmarshalCSV :: "gotype \<Rightarrow> (string \<Rightarrow> 'f govalue \<Rightarrow> 'f govalue res) option"
  m_UnmarshalText :: "gotype \<Rightarrow> (string \<Rightarrow> 'f govalue \<Rightarrow> 'f govalue res) option"
  m_UnmarshalCSVEx :: "gotype \<Rightarrow> ((string \<times> string) list \<Rightarrow> 'f govalue \<Rightarrow> 'f govalue res) option"
  m_MarshalCSV :: "bool \<Rightarrow> gotype \<Rightarrow> ('f govalue \<Rightarrow> string res) option"
  m_MarshalText :: "bool \<Rightarrow> gotype \<Rightarrow> ('f govalue \<Rightarrow> string res) option"
  m_String :: "bool \<Rightarrow> gotype \<Rightarrow> ('f govalue \<Rightarrow> string) option"
  json_Unmarshal :: "gotype \<Rightarrow> string \<Rightarrow> 'f govalue \<Rightarrow> 'f govalue res"

section \<open>Conversions\<close>

text \<open>The argument of the conversions is an \<open>interface{}\<close>: a type and a value, told apart by kind.\<close>

definition toString :: "'f floats \<Rightarrow> gotype \<Rightarrow> 'f govalue \<Rightarrow> string res" where
  "toString fl t v =
     (case v of
        VString s \<Rightarrow> Ok s
      | VBool b \<Rightarrow> Ok (if b then ''true'' else ''false'')
      | VInt i \<Rightarrow> Ok (Itoa i)
      | VUint n \<Rightarrow> Ok (show_nat n)
      | VFloat x \<Rightarrow> Ok (f_Format fl x (if underlying t = TFloat32 then 32 else 64))
      | _ \<Rightarrow> Fail EUnsupported)"

definition toBool :: "'f floats \<Rightarrow> 'f govalue \<Rightarrow> bool res" where
  "toBool fl v =
     (case v of
        VString s \<Rightarrow>
          let s = TrimSpace s
          in if EqualFold s ''yes'' then Ok True
             else if EqualFold s ''no'' \<or> s = [] then Ok False
             else (case ParseBool s of Some b \<Rightarrow> Ok b | None \<Rightarrow> Fail EBool)
      | VBool b \<Rightarrow> Ok b
      | VInt i \<Rightarrow> Ok (i \<noteq> 0)
      | VUint n \<Rightarrow> Ok (n \<noteq> 0)
      | VFloat x \<Rightarrow> Ok (f_nonzero fl x)
      | _ \<Rightarrow> Fail EUnsupported)"

definition toInt :: "'f floats \<Rightarrow> 'f govalue \<Rightarrow> int res" where
  "toInt fl v =
     (case v of
        VString s \<Rightarrow>
          let s = TrimSpace s
          in if s = [] then Ok 0
             else (case ParseInt (before CHR ''.'' s) 0 64 of (i, None) \<Rightarrow> Ok i | (_, Some _) \<Rightarrow> Fail ENumber)
      | VBool b \<Rightarrow> Ok (if b then 1 else 0)
      | VInt i \<Rightarrow> Ok i
      | VUint n \<Rightarrow> Ok (trunc_int Bits64 (int n))
      | VFloat x \<Rightarrow> Ok (f_int64 fl x)
      | _ \<Rightarrow> Fail EUnsupported)"

definition toUint :: "'f floats \<Rightarrow> 'f govalue \<Rightarrow> nat res" where
  "toUint fl v =
     (case v of
        VString s \<Rightarrow>
          let s = TrimSpace s
          in if s = [] then Ok 0
             else if CHR ''.'' \<in> set s then
               (case f_ParseFloat fl s of Some x \<Rightarrow> Ok (f_uint64 fl x) | None \<Rightarrow> Fail EFloat)
             else (case ParseUint s 0 64 of (n, None) \<Rightarrow> Ok n | (_, Some _) \<Rightarrow> Fail ENumber)
      | VBool b \<Rightarrow> Ok (if b then 1 else 0)
      | VInt i \<Rightarrow> Ok (trunc_uint Bits64 i)
      | VUint n \<Rightarrow> Ok n
      | VFloat x \<Rightarrow> Ok (f_uint64 fl x)
      | _ \<Rightarrow> Fail EUnsupported)"

definition toFloat :: "'f floats \<Rightarrow> 'f govalue \<Rightarrow> 'f res" where
  "toFloat fl v =
     (case v of
        VString s \<Rightarrow>
          let s = TrimSpace s
          in if s = [] then Ok (f_zero fl)
             else (case f_ParseFloat fl s of Some x \<Rightarrow> Ok x | None \<Rightarrow> Fail EFloat)
      | VBool b \<Rightarrow> Ok (f_of_int fl (if b then 1 else 0))
      | VInt i \<Rightarrow> Ok (f_of_int fl i)
      | VUint n \<Rightarrow> Ok (f_of_int fl (int n))
      | VFloat x \<Rightarrow> Ok x
      | _ \<Rightarrow> Fail EUnsupported)"

section \<open>A cell into a field\<close>

text \<open>The methods of \<open>*t\<close> on a \<open>t\<close>. A pointer to a pointer or to an interface has none.\<close>

definition call_unmarshal :: "'f csv_env \<Rightarrow> gotype \<Rightarrow> string \<Rightarrow> 'f govalue \<Rightarrow> 'f govalue res" where
  "call_unmarshal env t value v =
     (case m_UnmarshalCSV env t of
        Some f \<Rightarrow> f value v
      | None \<Rightarrow> (case m_UnmarshalText env t of Some f \<Rightarrow> f value v | None \<Rightarrow> Fail ENoUnmarshal))"

definition no_methods :: "gotype \<Rightarrow> bool" where
  "no_methods t \<longleftrightarrow> (case underlying t of TPtr _ \<Rightarrow> True | TInterface \<Rightarrow> True | _ \<Rightarrow> False)"

text \<open>
  A nil on the way: the field itself (of type \<open>tf\<close>) is set to a new value of its element type, and
  the methods of that are called. An interface has no element type, and asking for it panics.
\<close>

definition unmarshall_nil :: "'f csv_env \<Rightarrow> gotype \<Rightarrow> string \<Rightarrow> 'f govalue res" where
  "unmarshall_nil env tf value =
     (case underlying tf of
        TPtr t' \<Rightarrow>
          if no_methods t' then Fail ENoUnmarshal
          else map_res (\<lambda>w. VPtr (Some w)) (call_unmarshal env t' value (zero_value (fls env) t'))
      | _ \<Rightarrow> Crash)"

text \<open>The loop of \<open>unmarshall\<close> through pointers and interfaces; \<open>addr\<close>: the value is addressable.\<close>

fun unmarshall_in ::
  "'f csv_env \<Rightarrow> gotype \<Rightarrow> string \<Rightarrow> bool \<Rightarrow> gotype \<Rightarrow> 'f govalue \<Rightarrow> 'f govalue res" where
  "unmarshall_in env tf value addr t (VPtr (Some w)) =
     (case underlying t of
        TPtr t' \<Rightarrow> map_res (\<lambda>w. VPtr (Some w)) (unmarshall_in env tf value True t' w) | _ \<Rightarrow> Crash)"
| "unmarshall_in env tf value addr t (VInterface (Some (t', w))) =
     map_res (\<lambda>w. VInterface (Some (t', w))) (unmarshall_in env tf value False t' w)"
| "unmarshall_in env tf value addr t (VPtr None) = unmarshall_nil env tf value"
| "unmarshall_in env tf value addr t (VInterface None) = unmarshall_nil env tf value"
| "unmarshall_in env tf value addr t v = (if addr then call_unmarshal env t value v else Fail ENoUnmarshal)"

definition unmarshall :: "'f csv_env \<Rightarrow> gotype \<Rightarrow> 'f govalue \<Rightarrow> string \<Rightarrow> 'f govalue res" where
  "unmarshall env t v value = unmarshall_in env t value True t v"

text \<open>The conversion by kind; \<open>SetInt\<close>, \<open>SetUint\<close> and \<open>SetFloat\<close> store the low part.\<close>

definition set_kind :: "'f floats \<Rightarrow> gotype \<Rightarrow> string \<Rightarrow> 'f govalue res" where
  "set_kind fl t value =
     (case t of
        TString \<Rightarrow> map_res VString (toString fl TString (VString value))
      | TBool \<Rightarrow> map_res VBool (toBool fl (VString value))
      | TInt k \<Rightarrow> map_res (\<lambda>i. VInt (trunc_int k i)) (toInt fl (VString value))
      | TUint k \<Rightarrow> map_res (\<lambda>n. VUint (trunc_uint k (int n))) (toUint fl (VString value))
      | TFloat32 \<Rightarrow> map_res (\<lambda>x. VFloat (f_round32 fl x)) (toFloat fl (VString value))
      | TFloat64 \<Rightarrow> map_res VFloat (toFloat fl (VString value))
      | _ \<Rightarrow> Fail ENoUnmarshal)"

definition native :: "gotype \<Rightarrow> bool" where
  "native t \<longleftrightarrow> (case t of TString \<Rightarrow> True | TBool \<Rightarrow> True | TInt _ \<Rightarrow> True | TUint _ \<Rightarrow> True
     | TFloat32 \<Rightarrow> True | TFloat64 \<Rightarrow> True | _ \<Rightarrow> False)"

text \<open>JSON with the brackets put around the cell where they are missing.\<close>

definition bracketed :: "string \<Rightarrow> string \<Rightarrow> string \<Rightarrow> string" where
  "bracketed l r value = (if HasPrefix value l then value else l @ value @ r)"

text \<open>
  \<open>field.Interface().(type)\<close> sees through an interface: what is in it decides the case, and the
  setter then panics on the interface itself, except that a list of strings can be put into it.
\<close>

definition dynamic_type :: "gotype \<Rightarrow> 'f govalue \<Rightarrow> gotype" where
  "dynamic_type t v =
     (if underlying t = TInterface then (case v of VInterface (Some (t', _)) \<Rightarrow> t' | _ \<Rightarrow> t) else t)"

definition set_elem :: "'f csv_env \<Rightarrow> gotype \<Rightarrow> 'f govalue \<Rightarrow> string \<Rightarrow> 'f govalue res" where
  "set_elem env t v value =
     (let dt = dynamic_type t v;
          strs = VSlice (map VString (strings_Split value CHR '',''))
      in if native dt then
           (if underlying t = TInterface then bind_res (set_kind (fls env) dt value) (\<lambda>_. Crash)
            else set_kind (fls env) dt value)
      else if dt = TSlice TString then Ok (if underlying t = TInterface then VInterface (Some (dt, strs)) else strs)
      else (case unmarshall env t v value of
              Ok w \<Rightarrow> Ok w
            | Crash \<Rightarrow> Crash
            | Fail e \<Rightarrow>
                if e \<noteq> ENoUnmarshal then Fail e
                else if native (underlying t) then set_kind (fls env) (underlying t) value
                else (case underlying t of
                        TSlice _ \<Rightarrow> json_Unmarshal env t (bracketed ''['' '']'' value) v
                      | TStruct _ \<Rightarrow> json_Unmarshal env t (bracketed ''{'' ''}'' value) v
                      | _ \<Rightarrow> Fail ENoUnmarshal)))"

definition setField :: "'f csv_env \<Rightarrow> gotype \<Rightarrow> 'f govalue \<Rightarrow> string \<Rightarrow> bool \<Rightarrow> 'f govalue res" where
  "setField env t v value omitEmpty =
     (case underlying t of
        TPtr t' \<Rightarrow>
          if omitEmpty \<and> value = [] then Ok v
          else map_res (\<lambda>w. VPtr (Some w))
                 (set_elem env t' (case v of VPtr (Some w) \<Rightarrow> w | _ \<Rightarrow> zero_value (fls env) t') value)
      | _ \<Rightarrow> set_elem env t v value)"

section \<open>A field into a string\<close>

definition canMarshal :: "'f csv_env \<Rightarrow> gotype \<Rightarrow> bool" where
  "canMarshal env t \<longleftrightarrow> m_MarshalCSV env False t \<noteq> None \<or> m_MarshalText env False t \<noteq> None"

text \<open>\<open>marshallIt\<close>; \<open>addr\<close>: the value is addressable, and the methods of its address count.\<close>

definition marshallIt :: "'f csv_env \<Rightarrow> bool \<Rightarrow> gotype \<Rightarrow> 'f govalue \<Rightarrow> string res" where
  "marshallIt env addr t v =
     (case m_MarshalCSV env addr t of
        Some f \<Rightarrow> f v
      | None \<Rightarrow>
          (case m_MarshalText env addr t of
             Some f \<Rightarrow> f v
           | None \<Rightarrow> (case m_String env addr t of Some f \<Rightarrow> Ok (f v) | None \<Rightarrow> Fail ENoMarshal)))"

fun marshall :: "'f csv_env \<Rightarrow> bool \<Rightarrow> gotype \<Rightarrow> 'f govalue \<Rightarrow> string res" where
  "marshall env addr t (VPtr None) = Ok []"
| "marshall env addr t (VInterface None) = Ok []"
| "marshall env addr t (VPtr (Some w)) =
     (case underlying t of TPtr t' \<Rightarrow> marshall env True t' w | _ \<Rightarrow> Crash)"
| "marshall env addr t (VInterface (Some (t', w))) = marshall env False t' w"
| "marshall env addr t v = marshallIt env addr t v"

text \<open>A type of another kind and without methods prints as the empty string, without an error.\<close>

fun getFieldAsString :: "'f csv_env \<Rightarrow> bool \<Rightarrow> gotype \<Rightarrow> 'f govalue \<Rightarrow> string res" where
  "getFieldAsString env addr t (VInterface None) = Ok []"
| "getFieldAsString env addr t (VInterface (Some (t', w))) = getFieldAsString env False t' w"
| "getFieldAsString env addr t (VPtr None) = Ok []"
| "getFieldAsString env addr t (VPtr (Some w)) =
     (case underlying t of TPtr t' \<Rightarrow> getFieldAsString env True t' w | _ \<Rightarrow> Crash)"
| "getFieldAsString env addr t (VString s) = Ok s"
| "getFieldAsString env addr t v =
     (if native t then toString (fls env) t v
      else (case marshall env addr t v of
              Ok s \<Rightarrow> Ok s
            | Crash \<Rightarrow> Crash
            | Fail e \<Rightarrow>
                if e \<noteq> ENoMarshal then Fail e
                else if native (underlying t) then toString (fls env) (underlying t) v
                else Ok []))"

section \<open>Stored values have the type of their field\<close>

text \<open>What Go's type system says of the methods and of the decoder: they leave a \<open>t\<close> a \<open>t\<close>.\<close>

definition env_typed :: "'f csv_env \<Rightarrow> bool" where
  "env_typed env \<longleftrightarrow>
     (\<forall>t f s v w. (m_UnmarshalCSV env t = Some f \<or> m_UnmarshalText env t = Some f) \<longrightarrow>
        has_type t v \<longrightarrow> f s v = Ok w \<longrightarrow> has_type t w)
   \<and> (\<forall>t f d v w. m_UnmarshalCSVEx env t = Some f \<longrightarrow> has_type t v \<longrightarrow> f d v = Ok w \<longrightarrow> has_type t w)
   \<and> (\<forall>t s v w. has_type t v \<longrightarrow> json_Unmarshal env t s v = Ok w \<longrightarrow> has_type t w)"

lemma set_kind_typed: "native t \<Longrightarrow> set_kind fl t s = Ok w \<Longrightarrow> has_type t w"
proof (cases t)
  case (TInt k)
  assume "set_kind fl t s = Ok w"
  then obtain i where "w = VInt (trunc_int k i)" by (auto simp: TInt set_kind_def map_res_Ok)
  then show ?thesis by (simp only: TInt trunc_int_typed)
next
  case (TUint k)
  assume "set_kind fl t s = Ok w"
  then obtain i where "w = VUint (trunc_uint k i)" by (auto simp: TUint set_kind_def map_res_Ok)
  then show ?thesis by (simp only: TUint trunc_uint_typed)
qed (auto simp: native_def set_kind_def map_res_Ok)

lemma native_under: "native t \<Longrightarrow> underlying t = t"
  by (cases t) (simp_all add: native_def)

lemma call_unmarshal_typed:
  assumes "env_typed env" and "has_type t v" and "call_unmarshal env t s v = Ok w"
  shows "has_type t w"
proof -
  from assms(3) obtain f where "m_UnmarshalCSV env t = Some f \<or> m_UnmarshalText env t = Some f" "f s v = Ok w"
    by (cases "m_UnmarshalCSV env t"; cases "m_UnmarshalText env t") (auto simp: call_unmarshal_def)
  then show ?thesis using assms(1,2) unfolding env_typed_def by meson
qed

lemma unmarshall_nil_typed:
  assumes "env_typed env" and "unmarshall_nil env tf s = Ok w"
  shows "has_type tf w"
proof -
  obtain t' y where y: "underlying tf = TPtr t'" "w = VPtr (Some y)" "call_unmarshal env t' s (zero_value (fls env) t') = Ok y"
    using assms(2) by (auto simp: unmarshall_nil_def map_res_Ok split: gotype.splits if_splits)
  then show ?thesis using call_unmarshal_typed [OF assms(1) zero_value_typed y(3)] has_type_ptr [OF y(1)] by blast
qed

text \<open>A nil below the top ends in a failure: there the field's element type is a pointer or an interface.\<close>

lemma has_type_kinds:
  "has_type t (VPtr p) \<Longrightarrow> \<exists>t'. underlying t = TPtr t'"
  "has_type t (VInterface x) \<longleftrightarrow> underlying t = TInterface"
  by (induction t) auto

lemma unmarshall_in_typed:
  "unmarshall_in env tf s addr t v = Ok w \<Longrightarrow> env_typed env \<Longrightarrow> has_type t v
    \<Longrightarrow> t = tf \<or> (\<exists>t'. underlying tf = TPtr t' \<and> (t = t' \<or> no_methods t')) \<Longrightarrow> has_type t w"
proof (induction env tf s addr t v arbitrary: w rule: unmarshall_in.induct)
  case (1 env tf s addr t x)
  obtain t' where t': "underlying t = TPtr t'" using has_type_kinds(1) [OF 1(4)] ..
  obtain y where y: "w = VPtr (Some y)" "unmarshall_in env tf s True t' x = Ok y"
    using 1(2) t' by (auto simp: map_res_Ok)
  have "has_type t' x" using 1(4) has_type_ptr [OF t', of "VPtr (Some x)"] by simp
  moreover have "t' = tf \<or> (\<exists>u. underlying tf = TPtr u \<and> (t' = u \<or> no_methods u))"
    using 1(5) t' by (auto simp: no_methods_def)
  ultimately show ?case using 1(1) [OF t' y(2) 1(3)] y(1) has_type_ptr [OF t', of w] by blast
next
  case (2 env tf s addr t t' x)
  then show ?case by (auto simp: map_res_Ok has_type_kinds(2))
next
  case (3 env tf s addr t)
  have "\<exists>t'. underlying t = TPtr t'" using has_type_kinds(1) [OF 3(3)] .
  then have "t = tf" using 3(1,4) by (auto simp: unmarshall_nil_def no_methods_def)
  then show ?case using unmarshall_nil_typed [OF 3(2)] 3(1) by simp
next
  case (4 env tf s addr t)
  have "underlying t = TInterface" using 4(3) by (simp only: has_type_kinds(2))
  then show ?case using 4(1,4) by (auto simp: unmarshall_nil_def no_methods_def)
qed (simp_all only: unmarshall_in.simps split: if_splits; blast intro: call_unmarshal_typed)+

lemma unmarshall_typed:
  assumes "env_typed env" and "has_type t v" and "unmarshall env t v s = Ok w"
  shows "has_type t w"
  using unmarshall_in_typed [OF _ assms(1,2), of t s True w] assms(3) by (simp add: unmarshall_def)

lemma set_elem_typed:
  assumes "env_typed env" and "has_type t v" and "set_elem env t v s = Ok w"
  shows "has_type t w"
proof (cases "underlying t = TInterface \<and> dynamic_type t v \<noteq> t")
  case True
  then have "\<exists>x. w = VInterface x" if "\<not> native (dynamic_type t v)"
  proof (cases "dynamic_type t v = TSlice TString")
    case False
    then have "unmarshall env t v s = Ok w"
      using assms(3) that True by (auto simp: set_elem_def Let_def native_def split: res.splits if_splits)
    from unmarshall_typed [OF assms(1,2) this] have "has_type (underlying t) w" by (simp add: has_type_under)
    then show ?thesis using True by (cases w) simp_all
  qed (use assms(3) that True in \<open>auto simp: set_elem_def Let_def\<close>)
  moreover have "\<not> native (dynamic_type t v)"
    using assms(3) True by (auto simp: set_elem_def Let_def bind_res_Ok)
  ultimately show ?thesis using True by (auto simp: has_type_kinds(2))
next
  case False
  then have dt: "dynamic_type t v = t" by (auto simp: dynamic_type_def)
  show ?thesis
  proof (cases "native t \<or> t = TSlice TString")
    case True
    then have "underlying t \<noteq> TInterface" using native_under by (auto simp: native_def)
    then show ?thesis
      using True dt assms(3) set_kind_typed [of t "fls env" s w]
      by (auto simp: set_elem_def Let_def list_all_iff split: if_splits)
  next
    case nt: False
    show ?thesis
    proof (cases "unmarshall env t v s")
      case (Ok x)
      then show ?thesis using nt dt assms unmarshall_typed [of env t v s x] by (simp add: set_elem_def Let_def)
    next
      case (Fail e)
      have "has_type t w" if "set_kind (fls env) (underlying t) s = Ok w" "native (underlying t)"
        using set_kind_typed [OF that(2,1)] by (simp add: has_type_under)
      moreover have "has_type t w" if "json_Unmarshal env t j v = Ok w" for j
        using assms(1,2) that unfolding env_typed_def by meson
      ultimately show ?thesis
        using Fail nt dt assms(3) by (auto simp: set_elem_def Let_def split: if_splits gotype.splits)
    next
      case Crash
      then show ?thesis using nt dt assms(3) by (simp add: set_elem_def Let_def)
    qed
  qed
qed

lemma setField_typed:
  assumes "env_typed env" and "has_type t v" and "setField env t v s omit = Ok w"
  shows "has_type t w"
proof (cases "\<exists>t'. underlying t = TPtr t'")
  case True
  then obtain t' where t': "underlying t = TPtr t'" ..
  show ?thesis
  proof (cases "omit \<and> s = []")
    case True
    then show ?thesis using assms t' by (simp add: setField_def)
  next
    case False
    let ?x = "case v of VPtr (Some w) \<Rightarrow> w | _ \<Rightarrow> zero_value (fls env) t'"
    from False obtain y where y: "w = VPtr (Some y)" "set_elem env t' ?x s = Ok y"
      using assms(3) t' by (auto simp: setField_def map_res_Ok)
    have "has_type t' ?x" using assms(2) has_type_ptr [OF t', of v] by (auto split: option.splits)
    then show ?thesis using y set_elem_typed [OF assms(1) _ y(2)] has_type_ptr [OF t'] by blast
  qed
next
  case False
  then show ?thesis
    using assms set_elem_typed [of env t v s w] by (auto simp: setField_def split: gotype.splits)
qed

section \<open>Printing and reading\<close>

lemma setField_native: "native t \<Longrightarrow> setField env t u s omit = set_kind (fls env) t s"
  by (cases t) (simp_all add: native_def setField_def set_elem_def dynamic_type_def Let_def)

lemma set_kind_int: "- (2 ^ 63) \<le> i \<Longrightarrow> i < 2 ^ 63 \<Longrightarrow> set_kind fl (TInt k) (Itoa i) = Ok (VInt (trunc_int k i))"
  by (simp add: set_kind_def toInt_def map_res_def ParseInt_Itoa)

lemma set_kind_uint:
  assumes "n < 2 ^ 64"
  shows "set_kind fl (TUint k) (show_nat n) = Ok (VUint (trunc_uint k (int n)))"
proof -
  have "CHR ''.'' \<notin> set (show_nat n)" using show_nat_char [of "CHR ''.''" n] by auto
  then show ?thesis using ParseUint_show_nat [OF assms] by (simp add: set_kind_def toUint_def map_res_def)
qed

lemma int64_range: "has_type (TInt k) (VInt i) \<Longrightarrow> - (2 ^ 63) \<le> i \<and> i < 2 ^ 63"
  by (cases k) simp_all

lemma uint64_range: "has_type (TUint k) (VUint n) \<Longrightarrow> n < 2 ^ 64"
  by (cases k) simp_all

lemma printed_is_read:
  assumes "t \<in> {TString, TBool} \<union> range TInt \<union> range TUint" and "has_type t v"
  shows "\<exists>s. getFieldAsString env addr t v = Ok s \<and> setField env t u s omit = Ok v"
proof -
  have nat: "native t" using assms(1) by (auto simp: native_def)
  consider (s) x where "t = TString" "v = VString x" | (b) x where "t = TBool" "v = VBool x"
    | (i) k x where "t = TInt k" "v = VInt x" | (u) k x where "t = TUint k" "v = VUint x"
    using assms by (auto split: govalue.splits)
  then show "\<exists>s. getFieldAsString env addr t v = Ok s \<and> setField env t u s omit = Ok v"
  proof cases
    case s
    then show ?thesis by (simp add: setField_native native_def set_kind_def toString_def map_res_def)
  next
    case b
    then show ?thesis
      by (simp add: setField_native native_def set_kind_def toString_def toBool_def map_res_def TrimSpace_def
          trim_def space_def EqualFold_def ToLower_def lower_def ParseBool_def char_of_def)
  next
    case i
    have "- (2 ^ 63) \<le> x \<and> x < 2 ^ 63" "trunc_int k x = x"
      using assms(2) i int64_range trunc_int_id by blast+
    then show ?thesis using i nat by (simp add: setField_native set_kind_int toString_def)
  next
    case u
    have "x < 2 ^ 64" "trunc_uint k (int x) = x"
      using assms(2) u uint64_range [of k x] trunc_uint_id [of "int x" k] by auto
    then show ?thesis using u nat by (simp add: setField_native set_kind_uint toString_def)
  qed
qed

text \<open>
  C33: a cell reads back what a field prints. For every string, bool and integer type of Go, the
  string \<open>getFieldAsString\<close> gives for a value of the type is set back to that very value by
  \<open>setField\<close>. A number beyond the type's width is not refused but stored as its low bits.
\<close>
theorem cells_roundtrip:
  assumes "t \<in> {TString, TBool} \<union> range TInt \<union> range TUint" and "has_type t v"
  shows "(\<exists>s. getFieldAsString env addr t v = Ok s \<and> setField env t u s omit = Ok v)
    \<and> (\<forall>k i. - (2 ^ 63) \<le> i \<and> i < 2 ^ 63 \<longrightarrow> setField env (TInt k) u (Itoa i) omit = Ok (VInt (trunc_int k i)))"
  using printed_is_read [OF assms, of env addr u omit]
  by (auto simp: setField_native native_def set_kind_int)

text \<open>Types without methods of their own, and no JSON, for the examples.\<close>

definition plain_env :: "int csv_env" where
  "plain_env = \<lparr>fls = whole_floats, m_UnmarshalCSV = (\<lambda>_. None), m_UnmarshalText = (\<lambda>_. None),
     m_UnmarshalCSVEx = (\<lambda>_. None), m_MarshalCSV = (\<lambda>_ _. None), m_MarshalText = (\<lambda>_ _. None),
     m_String = (\<lambda>_ _. None), json_Unmarshal = (\<lambda>_ _ _. Fail EJson)\<rparr>"

lemma plain_env_typed: "env_typed plain_env"
  by (simp add: env_typed_def plain_env_def)

theorem cells_roundtrip_witness:
  "setField plain_env (TInt Bits8) (VInt 0) (Itoa 300) False = Ok (VInt 44)
   \<and> (\<exists>s. getFieldAsString plain_env True (TInt Bits8) (VInt (- 5)) = Ok s
        \<and> setField plain_env (TInt Bits8) (VInt 0) s False = Ok (VInt (- 5)))"
proof -
  have "setField plain_env (TInt Bits8) (VInt 0) (Itoa 300) False = Ok (VInt (trunc_int Bits8 300))"
    using cells_roundtrip [of "TInt Bits8" "VInt (- 5) :: int govalue" plain_env True "VInt 0" False] by simp
  moreover have "trunc_int Bits8 300 = 44" by (simp add: trunc_int_def)
  ultimately show ?thesis
    using cells_roundtrip [of "TInt Bits8" "VInt (- 5) :: int govalue" plain_env True "VInt 0" False] by simp
qed

end
