(* ===== verification/CsvLoad.thy ===== *)
theory CsvLoad
  imports CsvTypes
begin

text \<open>
  \<open>common/csvparse/loadCSV.go\<close>: the rows of a CSV file as a slice of structs or as maps nested
  by the fields named as keys. As in \<open>CsvTable\<close> the records of the file are an argument. The map
  of a row, from heading to cell, is an association list; the order of the list stands for the
  order in which \<open>range\<close> visits it, which Go leaves open. \<open>FieldByName\<close> is the place of the
  field in the struct; embedded structs are not modelled.
\<close>

record fieldInfo =
  fieldName :: string
  key :: string
  omitEmpty :: bool
  single :: bool

section \<open>The fields to fill\<close>

definition tag_key :: "string \<Rightarrow> string \<Rightarrow> string \<times> bool" where
  "tag_key name tag =
     (if tag \<noteq> [] then (hd (strings_Split tag CHR '',''), ''omitempty'' \<in> set (strings_Split tag CHR '',''))
      else (ToLower name, False))"

definition field_info :: "string list \<Rightarrow> gofield \<Rightarrow> fieldInfo list" where
  "field_info keys = (\<lambda>(name, tag, t).
     let tagName = ToLower tag;
         (k, omit) = tag_key name tagName
     in if \<not> exported name \<or> tagName = ''_'' \<or> tagName = ''-'' then []
        else [\<lparr>fieldName = name, key = k, omitEmpty = omit, single = (k \<in> set keys)\<rparr>])"

definition struct_of :: "gotype \<Rightarrow> gofield list option" where
  "struct_of t = (case underlying t of
     TPtr t' \<Rightarrow> (case underlying t' of TStruct fs \<Rightarrow> Some fs | _ \<Rightarrow> None)
   | TStruct fs \<Rightarrow> Some fs
   | _ \<Rightarrow> None)"

definition getStructInfo :: "gotype \<Rightarrow> string list \<Rightarrow> fieldInfo list option" where
  "getStructInfo t keys = map_option (\<lambda>fs. concat (map (field_info keys) fs)) (struct_of t)"

section \<open>One field\<close>

text \<open>\<open>unMarshallIt\<close> on the address of a \<open>t\<close>: whether it has \<open>UnmarshalCSVEx\<close>, and the \<open>t\<close> afterwards.\<close>

definition unMarshallIt ::
  "'f csv_env \<Rightarrow> (string \<times> string) list \<Rightarrow> gotype \<Rightarrow> 'f govalue \<Rightarrow> bool \<times> 'f govalue res" where
  "unMarshallIt env data t v =
     (case (if no_methods t then None else m_UnmarshalCSVEx env t) of
        Some f \<Rightarrow> (True, f data v) | None \<Rightarrow> (False, Ok v))"

text \<open>
  The loop of \<open>tryUnMarshallEx\<close> through pointers and interfaces. A nil pointer is allocated where it
  is, whether or not there is a method; a map behind it is made from the element type of the field,
  which is a map only at the \<open>outer\<close> level. A nil interface has no element type, and what is in an
  interface cannot be set (\<open>addr\<close>).
\<close>

fun tryUnMarshall_in ::
  "'f csv_env \<Rightarrow> (string \<times> string) list \<Rightarrow> bool \<Rightarrow> bool \<Rightarrow> gotype \<Rightarrow> 'f govalue \<Rightarrow> bool \<times> 'f govalue res" where
  "tryUnMarshall_in env data outer addr t (VPtr None) =
     (case underlying t of
        TPtr t' \<Rightarrow>
          (case underlying t' of
             TMap _ _ \<Rightarrow>
               if addr \<and> outer then
                 map_prod id (map_res (\<lambda>w. VPtr (Some w))) (unMarshallIt env data t' (VMap (Some [])))
               else (False, Crash)
           | _ \<Rightarrow>
               if addr then
                 map_prod id (map_res (\<lambda>w. VPtr (Some w))) (unMarshallIt env data t' (zero_value (fls env) t'))
               else (False, Crash))
      | _ \<Rightarrow> (False, Crash))"
| "tryUnMarshall_in env data outer addr t (VPtr (Some w)) =
     (case underlying t of
        TPtr t' \<Rightarrow> map_prod id (map_res (\<lambda>w. VPtr (Some w))) (tryUnMarshall_in env data False True t' w)
      | _ \<Rightarrow> (False, Crash))"
| "tryUnMarshall_in env data outer addr t (VInterface None) = (False, Crash)"
| "tryUnMarshall_in env data outer addr t (VInterface (Some (t', w))) =
     map_prod id (map_res (\<lambda>w. VInterface (Some (t', w)))) (tryUnMarshall_in env data False False t' w)"
| "tryUnMarshall_in env data outer addr t v = (if addr then unMarshallIt env data t v else (False, Ok v))"

definition tryUnMarshallEx ::
  "'f csv_env \<Rightarrow> gotype \<Rightarrow> 'f govalue \<Rightarrow> (string \<times> string) list \<Rightarrow> bool \<times> 'f govalue res" where
  "tryUnMarshallEx env t v data = tryUnMarshall_in env data True True t v"

text \<open>
  \<open>tryUnMarshInnerField\<close>: every column whose heading is the key and a positive number is an
  element. \<open>strings.Trim\<close> takes the characters of the key off both ends of the heading, not the
  key off its front.
\<close>

definition inner_index :: "string \<Rightarrow> string \<Rightarrow> int" where
  "inner_index ky k = (if HasPrefix k ky then fst (strconv_Atoi (strings_Trim k ky)) else 0)"

definition elem_type :: "gotype \<Rightarrow> gotype option" where
  "elem_type t = (case underlying t of TSlice e \<Rightarrow> Some e | TMap _ e \<Rightarrow> Some e | TPtr e \<Rightarrow> Some e | _ \<Rightarrow> None)"

text \<open>
  A value of type \<open>kt\<close> as a key of a map with keys of type \<open>tk\<close>: of the very type, or put into an
  interface, where it has to be comparable. Otherwise \<open>reflect\<close> panics.
\<close>

fun comparable :: "gotype \<Rightarrow> bool" where
  "comparable (TSlice t) = False"
| "comparable (TMap k t) = False"
| "comparable (TStruct fs) = list_all (\<lambda>(n, tag, t). comparable t) fs"
| "comparable (TNamed n t) = comparable t"
| "comparable t = True"

definition as_key :: "gotype \<Rightarrow> 'f govalue \<Rightarrow> gotype \<Rightarrow> 'f govalue option" where
  "as_key kt v tk =
     (if kt = tk then Some v
      else if underlying tk \<noteq> TInterface then None
      else if underlying kt = TInterface then Some v
      else if comparable kt then Some (VInterface (Some (kt, v))) else None)"

definition add_inner :: "gotype \<Rightarrow> int \<Rightarrow> 'f govalue \<Rightarrow> 'f govalue \<Rightarrow> 'f govalue res" where
  "add_inner t index el v =
     (case (underlying t, v) of
        (TSlice _, VSlice vs) \<Rightarrow> Ok (VSlice (vs @ [el]))
      | (TMap kt _, VMap m) \<Rightarrow>
          (case as_key (TInt Bits32) (VInt (trunc_int Bits32 index)) kt of
             None \<Rightarrow> Crash
           | Some k \<Rightarrow> Ok (VMap (Some (AList.update k el (case m of Some m \<Rightarrow> m | None \<Rightarrow> [])))))
      | _ \<Rightarrow> Fail EUnsupported)"

fun inner_loop ::
  "'f csv_env \<Rightarrow> string \<Rightarrow> gotype \<Rightarrow> (string \<times> string) list \<Rightarrow> bool \<times> 'f govalue \<Rightarrow> (bool \<times> 'f govalue) res" where
  "inner_loop env ky t [] fv = Ok fv"
| "inner_loop env ky t ((k, cell) # rest) fv =
     (if inner_index ky k \<le> 0 then inner_loop env ky t rest fv
      else (case elem_type t of
              None \<Rightarrow> Crash
            | Some e \<Rightarrow>
                bind_res (setField env e (zero_value (fls env) e) cell True)
                  (\<lambda>el. bind_res (add_inner t (inner_index ky k) el (snd fv))
                    (\<lambda>v. inner_loop env ky t rest (True, v)))))"

definition tryUnMarshInnerField ::
  "'f csv_env \<Rightarrow> gotype \<Rightarrow> 'f govalue \<Rightarrow> (string \<times> string) list \<Rightarrow> fieldInfo \<Rightarrow> 'f govalue res" where
  "tryUnMarshInnerField env t v data info =
     bind_res (inner_loop env (key info) t data (False, v))
       (\<lambda>(find, v). if \<not> find \<and> \<not> omitEmpty info then Fail ENotFound else Ok v)"

text \<open>A missing key of the row's map reads as the empty string.\<close>

definition cell :: "(string \<times> string) list \<Rightarrow> string \<Rightarrow> string" where
  "cell data k = (case map_of data k of Some c \<Rightarrow> c | None \<Rightarrow> [])"

definition parse_field ::
  "'f csv_env \<Rightarrow> (string \<times> string) list \<Rightarrow> fieldInfo \<Rightarrow> gotype \<Rightarrow> 'f govalue \<Rightarrow> 'f govalue res" where
  "parse_field env data info t v =
     (let v = (case underlying t of TMap _ _ \<Rightarrow> VMap (Some []) | _ \<Rightarrow> v)
      in case tryUnMarshallEx env t v data of
           (True, r) \<Rightarrow> r
         | (False, r) \<Rightarrow>
             bind_res r (\<lambda>v. if single info then setField env t v (cell data (key info)) (omitEmpty info)
               else tryUnMarshInnerField env t v data info))"

section \<open>One line\<close>

text \<open>\<open>FieldByName\<close>: the place and the type of a field.\<close>

fun FieldByName :: "gofield list \<Rightarrow> string \<Rightarrow> (nat \<times> gotype) option" where
  "FieldByName [] name = None"
| "FieldByName ((n, tag, t) # fs) name =
     (if n = name then Some (0, t) else map_option (\<lambda>(i, t). (Suc i, t)) (FieldByName fs name))"

fun parse_fields ::
  "'f csv_env \<Rightarrow> gofield list \<Rightarrow> (string \<times> string) list \<Rightarrow> fieldInfo list \<Rightarrow> 'f govalue list \<Rightarrow> 'f govalue list res" where
  "parse_fields env fs data [] vs = Ok vs"
| "parse_fields env fs data (info # infos) vs =
     (case FieldByName fs (fieldName info) of
        None \<Rightarrow> Crash
      | Some (i, t) \<Rightarrow>
          bind_res (parse_field env data info t (vs ! i)) (\<lambda>w. parse_fields env fs data infos (vs[i := w])))"

definition parseLine ::
  "'f csv_env \<Rightarrow> gotype \<Rightarrow> fieldInfo list \<Rightarrow> (string \<times> string) list \<Rightarrow> 'f govalue res" where
  "parseLine env t infos data =
     (case struct_of t of
        None \<Rightarrow> Crash
      | Some fs \<Rightarrow>
          map_res (\<lambda>vs. case underlying t of TPtr _ \<Rightarrow> VPtr (Some (VStruct vs)) | _ \<Rightarrow> VStruct vs)
            (parse_fields env fs data infos (map (\<lambda>(n, tag, t). zero_value (fls env) t) fs)))"

section \<open>A file into a slice\<close>

definition line_data :: "string list \<Rightarrow> string list \<Rightarrow> (string \<times> string) list" where
  "line_data headings line =
     fold (\<lambda>(h, c). AList.update (TrimSpace (ToLower h)) (TrimSpace c)) (zip headings line) []"

fun load_lines ::
  "'f csv_env \<Rightarrow> gotype \<Rightarrow> fieldInfo list \<Rightarrow> string list \<Rightarrow> string list list \<Rightarrow> 'f govalue list
   \<Rightarrow> csv_error option \<times> 'f govalue list" where
  "load_lines env e infos headings [] acc = (None, acc)"
| "load_lines env e infos headings (line # rest) acc =
     (if length line \<noteq> length headings then (Some ERowLength, acc)
      else (case parseLine env e infos (line_data headings line) of
              Ok v \<Rightarrow> load_lines env e infos headings rest (acc @ [v])
            | Fail err \<Rightarrow> (Some err, acc)
            | Crash \<Rightarrow> (Some EPanic, acc)))"

text \<open>
  \<open>loadFile\<close>: the records, or why there are none. \<open>LoadCSVArr\<close> recovers from every panic and
  returns it as an error, \<open>EPanic\<close>; the rows appended so far stay in the slice.
\<close>

definition loadFile :: "string list list option \<Rightarrow> csv_error + string list list" where
  "loadFile contents =
     (case contents of None \<Rightarrow> Inl EOpen | Some [] \<Rightarrow> Inl EEmpty | Some (r # rs) \<Rightarrow> Inr (r # rs))"

definition LoadCSVArr ::
  "'f csv_env \<Rightarrow> string list list option \<Rightarrow> gotype \<Rightarrow> 'f govalue \<Rightarrow> csv_error option \<times> 'f govalue" where
  "LoadCSVArr env contents t v =
     (case (underlying t, v) of
        (TPtr ts, VPtr (Some s)) \<Rightarrow>
          (case (underlying ts, s) of
             (TSlice e, VSlice acc) \<Rightarrow>
               (case loadFile contents of
                  Inl err \<Rightarrow> (Some err, v)
                | Inr records \<Rightarrow>
                    (case getStructInfo e (hd records) of
                       None \<Rightarrow> (Some EUnsupported, v)
                     | Some infos \<Rightarrow>
                         let (err, acc) = load_lines env e infos (hd records) (tl records) acc
                         in (err, VPtr (Some (VSlice acc)))))
           | _ \<Rightarrow> (Some EUnsupported, v))
      | (TPtr _, _) \<Rightarrow> (Some EPanic, v)
      | _ \<Rightarrow> (Some EUnsupported, v))"

section \<open>A file into nested maps\<close>

fun map_depth :: "gotype \<Rightarrow> 'k list \<Rightarrow> gotype option" where
  "map_depth t [] = Some t"
| "map_depth t (k # ks) = (case underlying t of TMap _ e \<Rightarrow> map_depth e ks | _ \<Rightarrow> None)"

definition resolve_key :: "gofield list \<Rightarrow> string \<Rightarrow> string option" where
  "resolve_key fs k = map_option fst (find (\<lambda>(n, tag, t). EqualFold n k) fs)"

fun resolve_keys :: "gofield list \<Rightarrow> string list \<Rightarrow> string list option" where
  "resolve_keys fs [] = Some []"
| "resolve_keys fs (k # ks) =
     (case resolve_key fs k of None \<Rightarrow> None | Some n \<Rightarrow> map_option (\<lambda>ns. n # ns) (resolve_keys fs ks))"

text \<open>The type of the elements and the keys under the fields' own names.\<close>

definition ensureType :: "gotype \<Rightarrow> string list \<Rightarrow> (gotype \<times> string list) res" where
  "ensureType t keys =
     (if keys = [] then Fail EKey
      else case map_depth t keys of
        None \<Rightarrow> Fail ENotMap
      | Some tp \<Rightarrow>
          (case underlying tp of
             TInterface \<Rightarrow> Crash
           | _ \<Rightarrow>
             (case struct_of tp of
                None \<Rightarrow> Fail EUnsupported
              | Some fs \<Rightarrow> (case resolve_keys fs keys of None \<Rightarrow> Fail EKey | Some ns \<Rightarrow> Ok (tp, ns)))))"

text \<open>\<open>reflect.Indirect(el).FieldByName(key)\<close>: the type and the value.\<close>

definition field_value :: "gotype \<Rightarrow> 'f govalue \<Rightarrow> string \<Rightarrow> (gotype \<times> 'f govalue) option" where
  "field_value t el k =
     (case (struct_of t, case el of VPtr (Some w) \<Rightarrow> w | _ \<Rightarrow> el) of
        (Some fs, VStruct vs) \<Rightarrow> map_option (\<lambda>(i, ft). (ft, vs ! i)) (FieldByName fs k)
      | _ \<Rightarrow> None)"

text \<open>
  \<open>convertToMap\<close> on the map of type \<open>tm\<close>; the result of the recursive call is dropped. Storing under
  a key that was read from an unexported field panics, on every level: an inner map that is there
  already has been reached through such a key and is read-only.
\<close>

fun convertToMap ::
  "'f csv_env \<Rightarrow> gotype \<Rightarrow> 'f govalue \<Rightarrow> gotype \<Rightarrow> ('f govalue \<times> 'f govalue) list \<Rightarrow> string list
   \<Rightarrow> unit res \<times> ('f govalue \<times> 'f govalue) list" where
  "convertToMap env te el tm m [] = (Fail EKey, m)"
| "convertToMap env te el tm m (k # ks) =
     (case field_value te el k of
        None \<Rightarrow> (Fail EKey, m)
      | Some (kt, v) \<Rightarrow>
          (case underlying tm of
             TMap tk tv \<Rightarrow>
               (case (if exported k then as_key kt v tk else None) of
                  None \<Rightarrow> (Crash, m)
                | Some kv \<Rightarrow>
                    if ks = [] then (Ok (), AList.update kv el m)
                    else let inner = (case map_of m kv of Some (VMap (Some inner)) \<Rightarrow> inner | _ \<Rightarrow> []);
                             (r, inner) = convertToMap env te el tv inner ks
                         in (if r = Crash then Crash else Ok (), AList.update kv (VMap (Some inner)) m))
           | _ \<Rightarrow> (Fail ENotMap, m)))"

fun convert_all ::
  "'f csv_env \<Rightarrow> gotype \<Rightarrow> gotype \<Rightarrow> string list \<Rightarrow> 'f govalue list \<Rightarrow> ('f govalue \<times> 'f govalue) list
   \<Rightarrow> csv_error option \<times> ('f govalue \<times> 'f govalue) list" where
  "convert_all env te tm ks [] m = (None, m)"
| "convert_all env te tm ks (el # els) m =
     (case convertToMap env te el tm m ks of
        (Ok _, m) \<Rightarrow> convert_all env te tm ks els m
      | (Fail e, m) \<Rightarrow> (Some e, m)
      | (Crash, m) \<Rightarrow> (Some EPanic, m))"

text \<open>
  \<open>LoadCSVMap\<close> on what \<open>confMap\<close> leads to, of type \<open>tm\<close>; \<open>CanSet\<close>: it was reached through a
  pointer. A nil map is replaced by an empty one first; what is no map is refused, in the code by
  an error or by a recovered panic.
\<close>

definition LoadCSVMap ::
  "'f csv_env \<Rightarrow> string list list option \<Rightarrow> gotype \<Rightarrow> bool \<Rightarrow> 'f govalue \<Rightarrow> string \<Rightarrow> string list
   \<Rightarrow> csv_error option \<times> 'f govalue" where
  "LoadCSVMap env contents tm CanSet v Key OptionKeys =
     (case v of
        VMap p \<Rightarrow>
          if p = None \<and> \<not> CanSet then (Some ENotMap, v)
          else
            let m = (case p of Some m \<Rightarrow> m | None \<Rightarrow> []) in
            (case ensureType tm (Key # OptionKeys) of
               Fail e \<Rightarrow> (Some e, VMap (Some m))
             | Crash \<Rightarrow> (Some EPanic, VMap (Some m))
             | Ok (te, ks) \<Rightarrow>
                 (case LoadCSVArr env contents (TPtr (TSlice te)) (VPtr (Some (VSlice []))) of
                    (None, VPtr (Some (VSlice els))) \<Rightarrow>
                      (case convert_all env te tm ks els m of (err, m) \<Rightarrow> (err, VMap (Some m)))
                  | (err, _) \<Rightarrow> (err, VMap (Some m))))
      | _ \<Rightarrow> (Some ENotMap, v))"

section \<open>Loaded values have the type of their place\<close>

lemma unMarshallIt_typed:
  assumes "env_typed env" and "has_type t v" and "unMarshallIt env data t v = (b, Ok w)"
  shows "has_type t w"
proof (cases "m_UnmarshalCSVEx env t")
  case (Some f)
  then have "w = v \<or> f data v = Ok w" using assms(3) by (auto simp: unMarshallIt_def split: if_splits)
  then show ?thesis using Some assms(1,2) unfolding env_typed_def by meson
qed (use assms in \<open>auto simp: unMarshallIt_def split: option.splits if_splits\<close>)

lemma map_prod_Ok: "map_prod id (map_res f) x = (b, Ok y) \<longleftrightarrow> (\<exists>z. x = (b, Ok z) \<and> y = f z)"
  by (cases x) (auto simp: map_res_Ok)

lemma tryUnMarshall_in_typed:
  "tryUnMarshall_in env data outer addr t v = (b, Ok w) \<Longrightarrow> env_typed env \<Longrightarrow> has_type t v \<Longrightarrow> has_type t w"
proof (induction env data outer addr t v arbitrary: b w rule: tryUnMarshall_in.induct)
  case (1 env data outer addr t)
  obtain t' where t': "underlying t = TPtr t'" using has_type_kinds(1) [OF 1(3)] ..
  let ?z = "case underlying t' of TMap _ _ \<Rightarrow> VMap (Some []) | _ \<Rightarrow> zero_value (fls env) t'"
  obtain y where y: "w = VPtr (Some y)" "unMarshallIt env data t' ?z = (b, Ok y)"
    using 1(1) t' by (auto simp: map_prod_Ok split: gotype.splits if_splits)
  have "has_type t' ?z" using has_type_map [of t' _ _ "[]"] by (cases "underlying t'") auto
  then show ?case using unMarshallIt_typed [OF 1(2) _ y(2)] y(1) has_type_ptr [OF t', of w] by blast
next
  case (2 env data outer addr t x)
  obtain t' where t': "underlying t = TPtr t'" using has_type_kinds(1) [OF 2(4)] ..
  obtain y where y: "w = VPtr (Some y)" "tryUnMarshall_in env data False True t' x = (b, Ok y)"
    using 2(2) t' by (auto simp: map_prod_Ok)
  have "has_type t' x" using 2(4) has_type_ptr [OF t', of "VPtr (Some x)"] by simp
  then show ?case using 2(1) [OF t' y(2) 2(3)] y(1) has_type_ptr [OF t', of w] by blast
next
  case (4 env data outer addr t t' x)
  then show ?case by (auto simp: map_prod_Ok has_type_kinds(2))
qed (simp_all only: tryUnMarshall_in.simps split: if_splits; auto intro: unMarshallIt_typed)+

lemma tryUnMarshallEx_typed:
  assumes "env_typed env" and "has_type t v" and "tryUnMarshallEx env t v data = (b, Ok w)"
  shows "has_type t w"
  using tryUnMarshall_in_typed [OF _ assms(1,2)] assms(3) by (simp add: tryUnMarshallEx_def)

lemma as_key_typed: "as_key kt v tk = Some k \<Longrightarrow> has_type kt v \<Longrightarrow> has_type tk k"
proof (cases "kt = tk")
  case False
  assume k: "as_key kt v tk = Some k" "has_type kt v"
  then have i: "underlying tk = TInterface" "k = v \<and> underlying kt = TInterface \<or> (\<exists>x. k = VInterface x)"
    using False by (auto simp: as_key_def split: if_splits)
  have "has_type tk v" if "underlying kt = TInterface"
    using that i(1) k(2) has_type_under [of kt v] has_type_under [of tk v] by simp
  then show ?thesis using i by (auto simp: has_type_kinds(2))
qed (simp add: as_key_def)

lemma add_inner_typed:
  assumes "add_inner t index el v = Ok w" and "has_type t v" and "elem_type t = Some e" and "has_type e el"
  shows "has_type t w"
proof (cases "underlying t")
  case (TSlice e')
  then show ?thesis using assms
    by (auto simp: add_inner_def elem_type_def has_type_slice split: govalue.splits)
next
  case (TMap kt e')
  then obtain p k where p: "v = VMap p" "as_key (TInt Bits32) (VInt (trunc_int Bits32 index)) kt = Some k" "e' = e"
      "w = VMap (Some (AList.update k el (case p of Some m \<Rightarrow> m | None \<Rightarrow> [])))"
    using assms(1,3) by (auto simp: add_inner_def elem_type_def split: govalue.splits option.splits)
  have "has_type kt k" by (rule as_key_typed [OF p(2) trunc_int_typed])
  have "has_type (TMap kt e') (VMap (Some (case p of Some m \<Rightarrow> m | None \<Rightarrow> [])))"
    using assms(2) TMap p(1) has_type_map [OF TMap] by (cases p) auto
  from map_update_typed [OF this \<open>has_type kt k\<close>, of el] have "has_type (TMap kt e') w"
    using p(3,4) assms(4) by simp
  then show ?thesis using has_type_under [of t w] TMap by simp
qed (use assms(1) in \<open>simp_all add: add_inner_def\<close>)

lemma inner_loop_typed:
  "env_typed env \<Longrightarrow> inner_loop env ky t data fv = Ok fw \<Longrightarrow> has_type t (snd fv) \<Longrightarrow> has_type t (snd fw)"
proof (induction data arbitrary: fv)
  case (Cons kc data)
  obtain k c where kc: "kc = (k, c)" by (cases kc)
  show ?case
  proof (cases "inner_index ky k \<le> 0")
    case True
    then show ?thesis using Cons kc by simp
  next
    case False
    then obtain e el v where e: "elem_type t = Some e" "setField env e (zero_value (fls env) e) c True = Ok el"
        "add_inner t (inner_index ky k) el (snd fv) = Ok v" "inner_loop env ky t data (True, v) = Ok fw"
      using Cons.prems(2) by (auto simp: kc bind_res_Ok split: option.splits)
    then show ?thesis
      using Cons.IH [OF Cons.prems(1) e(4)] add_inner_typed [OF e(3) Cons.prems(3) e(1)]
        setField_typed [OF Cons.prems(1) _ e(2)] by simp
  qed
qed simp

lemma parse_field_typed:
  assumes "env_typed env" and "has_type t v" and "parse_field env data info t v = Ok w"
  shows "has_type t w"
proof -
  let ?v = "case underlying t of TMap _ _ \<Rightarrow> VMap (Some []) | _ \<Rightarrow> v"
  have v: "has_type t ?v" using assms(2) has_type_map [of t _ _ "[]"] by (cases "underlying t") auto
  obtain b r where r: "tryUnMarshallEx env t ?v data = (b, r)" by fastforce
  show ?thesis
  proof (cases b)
    case True
    then show ?thesis using assms(3) r tryUnMarshallEx_typed [OF assms(1) v, of data b w]
      by (simp add: parse_field_def Let_def)
  next
    case False
    then obtain x where x: "r = Ok x"
      "(if single info then setField env t x (cell data (key info)) (omitEmpty info)
        else tryUnMarshInnerField env t x data info) = Ok w"
      using assms(3) r by (auto simp: parse_field_def Let_def bind_res_Ok)
    then have "has_type t x" using tryUnMarshallEx_typed [OF assms(1) v] r by simp
    then show ?thesis
      using x(2) setField_typed [OF assms(1)] inner_loop_typed [OF assms(1), of "key info" t data "(False, x)"]
      by (auto simp: tryUnMarshInnerField_def bind_res_Ok split: if_splits)
  qed
qed

lemma FieldByName_Some:
  "FieldByName fs name = Some (i, t) \<Longrightarrow> i < length fs \<and> fst (fs ! i) = name \<and> snd (snd (fs ! i)) = t"
  by (induction fs arbitrary: i) (auto split: if_splits)

lemma parse_fields_typed:
  "env_typed env \<Longrightarrow> parse_fields env fs data infos vs = Ok ws \<Longrightarrow>
   list_all2 (\<lambda>(n, tag, t) w. has_type t w) fs vs \<Longrightarrow> list_all2 (\<lambda>(n, tag, t) w. has_type t w) fs ws"
proof (induction infos arbitrary: vs)
  case (Cons info infos)
  then obtain i t w where i: "FieldByName fs (fieldName info) = Some (i, t)"
      "parse_field env data info t (vs ! i) = Ok w" "parse_fields env fs data infos (vs[i := w]) = Ok ws"
    by (auto simp: bind_res_Ok split: option.splits)
  have f: "i < length fs" "snd (snd (fs ! i)) = t" using FieldByName_Some [OF i(1)] by auto
  then have "has_type t (vs ! i)" using list_all2_nthD [OF Cons.prems(3), of i] by (simp add: split_beta)
  then have "has_type t w" using parse_field_typed [OF Cons.prems(1) _ i(2)] by blast
  then have "list_all2 (\<lambda>(n, tag, t) w. has_type t w) fs (vs[i := w])"
    using Cons.prems(3) f by (auto simp: list_all2_conv_all_nth nth_list_update split_beta)
  then show ?case using Cons.IH [OF Cons.prems(1) i(3)] by blast
qed simp

lemma parseLine_typed:
  assumes "env_typed env" and "parseLine env t infos data = Ok w"
  shows "has_type t w"
proof -
  obtain fs vs where fs: "struct_of t = Some fs"
      "parse_fields env fs data infos (map (\<lambda>(n, tag, t). zero_value (fls env) t) fs) = Ok vs"
      "w = (case underlying t of TPtr _ \<Rightarrow> VPtr (Some (VStruct vs)) | _ \<Rightarrow> VStruct vs)"
    using assms(2) by (auto simp: parseLine_def map_res_Ok split: option.splits)
  have "list_all2 (\<lambda>(n, tag, t) w. has_type t w) fs (map (\<lambda>(n, tag, t). zero_value (fls env) t) fs)"
    using zero_value_typed [of "TStruct fs" "fls env"] by simp
  then have "list_all2 (\<lambda>(n, tag, t) w. has_type t w) fs vs" by (rule parse_fields_typed [OF assms(1) fs(2)])
  then show ?thesis
    using fs(1,3) has_type_struct has_type_ptr by (auto simp: struct_of_def split: gotype.splits) blast+
qed

lemma load_lines_typed:
  "env_typed env \<Longrightarrow> list_all (has_type e) acc \<Longrightarrow> list_all (has_type e) (snd (load_lines env e infos h lines acc))"
proof (induction lines arbitrary: acc)
  case (Cons line lines)
  show ?case
  proof (cases "length line = length h \<and> (\<exists>v. parseLine env e infos (line_data h line) = Ok v)")
    case True
    then obtain v where v: "parseLine env e infos (line_data h line) = Ok v" by blast
    then show ?thesis
      using True Cons.IH [of "acc @ [v]"] Cons.prems parseLine_typed [OF Cons.prems(1) v] by simp
  qed (use Cons.prems in \<open>auto split: res.splits\<close>)
qed simp

lemma LoadCSVArr_typed:
  assumes "env_typed env" and "has_type t v"
  shows "has_type t (snd (LoadCSVArr env contents t v))"
proof (cases "\<exists>ts acc e. underlying t = TPtr ts \<and> underlying ts = TSlice e \<and> v = VPtr (Some (VSlice acc))")
  case True
  then obtain ts acc e where t: "underlying t = TPtr ts" "underlying ts = TSlice e" "v = VPtr (Some (VSlice acc))"
    by blast
  have "list_all (has_type e) acc" using assms(2) t by (simp add: has_type_ptr has_type_slice)
  from load_lines_typed [OF assms(1) this] show ?thesis
    using assms(2) t
    by (auto simp: LoadCSVArr_def Let_def split_beta has_type_ptr has_type_slice split: sum.splits option.splits)
next
  case False
  then show ?thesis
    using assms(2) by (auto simp: LoadCSVArr_def split: gotype.splits govalue.splits option.splits)
qed

section \<open>Nested maps are flat maps\<close>

text \<open>What a nested map holds under a path of keys, and the path under which an element goes.\<close>

fun lookup_path :: "('f govalue \<times> 'f govalue) list \<Rightarrow> 'f govalue list \<Rightarrow> 'f govalue option" where
  "lookup_path m [] = None"
| "lookup_path m [k] = map_of m k"
| "lookup_path m (k # k' # ks) =
     (case map_of m k of Some (VMap (Some inner)) \<Rightarrow> lookup_path inner (k' # ks) | _ \<Rightarrow> None)"

fun path_of :: "gotype \<Rightarrow> 'f govalue \<Rightarrow> gotype \<Rightarrow> string list \<Rightarrow> 'f govalue list" where
  "path_of te el tm [] = []"
| "path_of te el tm (k # ks) =
     (case (field_value te el k, underlying tm) of
        (Some (kt, v), TMap tk tv) \<Rightarrow>
          (case as_key kt v tk of Some kv \<Rightarrow> kv | None \<Rightarrow> v) # path_of te el tv ks
      | _ \<Rightarrow> [])"

lemma lookup_path_empty [simp]: "lookup_path [] p = None"
  by (cases p; cases "tl p") auto

lemma convertToMap_no_error:
  "\<forall>k \<in> set ks. field_value te el k \<noteq> None \<Longrightarrow> ks \<noteq> [] \<Longrightarrow> map_depth tm ks \<noteq> None
    \<Longrightarrow> fst (convertToMap env te el tm m ks) \<noteq> Fail e"
  by (cases ks; cases "underlying tm") (auto simp: Let_def split: option.splits prod.splits)

lemma convertToMap_lookup:
  assumes "\<forall>k \<in> set ks. field_value te el k \<noteq> None" and "map_depth tm ks \<noteq> None" and "ks \<noteq> []"
    and "convertToMap env te el tm m ks = (Ok (), m')" and "length p = length ks"
  shows "lookup_path m' p = (if p = path_of te el tm ks then Some el else lookup_path m p)"
  using assms
proof (induction ks arbitrary: tm m m' p)
  case (Cons k ks)
  obtain kt v where v: "field_value te el k = Some (kt, v)" using Cons.prems(1) by auto
  obtain tk tv where tm: "underlying tm = TMap tk tv" using Cons.prems(2) by (cases "underlying tm") auto
  obtain x p' where p: "p = x # p'" "length p' = length ks" using Cons.prems(5) by (cases p) auto
  obtain kv where kv: "as_key kt v tk = Some kv" "exported k"
    using Cons.prems(4) v tm by (auto split: option.splits if_splits)
  show ?case
  proof (cases ks)
    case Nil
    then show ?thesis using Cons.prems(4) p v kv tm by (auto simp: update_conv)
  next
    case (Cons k2 ks')
    obtain x' p'' where p': "p' = x' # p''" using p(2) Cons by (cases p') auto
    define inner where "inner = (case map_of m kv of Some (VMap (Some i)) \<Rightarrow> i | _ \<Rightarrow> [])"
    obtain r i' where i': "convertToMap env te el tv inner ks = (r, i')" by fastforce
    have m': "r \<noteq> Crash" "m' = AList.update kv (VMap (Some i')) m"
      using Cons.prems(4) v kv tm i' Cons unfolding inner_def by (auto simp: Let_def split: if_splits)
    have d: "\<forall>k \<in> set ks. field_value te el k \<noteq> None" "map_depth tv ks \<noteq> None"
      using Cons.prems(1,2) tm by auto
    then have "r = Ok ()"
      using convertToMap_no_error [OF d(1) _ d(2), of env inner] i' m'(1) Cons by (cases r) auto
    then have IH: "lookup_path i' p' = (if p' = path_of te el tv ks then Some el else lookup_path inner p')"
      using Cons.IH [OF d _ _ p(2)] i' Cons by simp
    have old: "lookup_path m (kv # p') = lookup_path inner p'"
      unfolding p' by (auto simp: inner_def split: option.split govalue.split)
    have "path_of te el tm (k # ks) = kv # path_of te el tv ks" by (simp add: v kv tm)
    then show ?thesis
      using IH old p(1) by (cases "x = kv") (simp_all add: m'(2) update_conv p')
  qed
qed simp

text \<open>The elements a slice is loaded with: structs, or pointers to structs.\<close>

definition row_shape :: "'f govalue \<Rightarrow> bool" where
  "row_shape el \<longleftrightarrow> (\<exists>vs. el = VStruct vs \<or> el = VPtr (Some (VStruct vs)))"

lemma parseLine_shape:
  assumes "parseLine env t infos data = Ok v"
  shows "row_shape v"
proof -
  from assms obtain vs where "v = (case underlying t of TPtr _ \<Rightarrow> VPtr (Some (VStruct vs)) | _ \<Rightarrow> VStruct vs)"
    by (cases "struct_of t") (auto simp: parseLine_def map_res_Ok)
  then show ?thesis by (cases "underlying t") (simp_all add: row_shape_def)
qed

lemma load_lines_shape:
  assumes "load_lines env e infos h lines acc = (None, els)" and "list_all row_shape acc"
  shows "list_all row_shape els \<and> length els = length acc + length lines"
  using assms
proof (induction lines arbitrary: acc)
  case (Cons line lines)
  from Cons.prems(1) obtain v where v: "parseLine env e infos (line_data h line) = Ok v"
      "load_lines env e infos h lines (acc @ [v]) = (None, els)"
    by (auto split: if_splits res.splits)
  have "row_shape v" by (rule parseLine_shape [OF v(1)])
  then show ?case using Cons.IH [OF v(2)] Cons.prems(2) by simp
qed simp

lemma LoadCSVArr_Ok:
  assumes "LoadCSVArr env contents (TPtr (TSlice e)) (VPtr (Some (VSlice []))) = (None, v)"
  shows "\<exists>els records. v = VPtr (Some (VSlice els)) \<and> contents = Some records \<and> length els + 1 = length records
    \<and> list_all row_shape els"
proof -
  obtain records infos els where r: "contents = Some records" "records \<noteq> []" "v = VPtr (Some (VSlice els))"
      "load_lines env e infos (hd records) (tl records) [] = (None, els)"
    using assms
    by (auto simp: LoadCSVArr_def loadFile_def Let_def split: option.splits sum.splits list.splits prod.splits)
  then show ?thesis using load_lines_shape [OF r(4)] by (cases records) auto
qed

lemma resolve_key_field: "resolve_key fs k = Some n \<Longrightarrow> FieldByName fs n \<noteq> None"
  by (induction fs) (auto simp: resolve_key_def split: if_splits)

lemma resolve_keys_fields: "resolve_keys fs ks = Some ns \<Longrightarrow> length ns = length ks \<and> (\<forall>n \<in> set ns. FieldByName fs n \<noteq> None)"
proof (induction ks arbitrary: ns)
  case (Cons k ks)
  then obtain n ns' where "resolve_key fs k = Some n" "resolve_keys fs ks = Some ns'" "ns = n # ns'"
    by (auto split: option.splits)
  then show ?case using Cons.IH resolve_key_field by auto
qed simp

lemma field_value_row:
  "row_shape el \<Longrightarrow> struct_of te = Some fs \<Longrightarrow> FieldByName fs k \<noteq> None \<Longrightarrow> field_value te el k \<noteq> None"
  by (auto simp: row_shape_def field_value_def)

lemma ensureType_Ok:
  assumes "ensureType tm keys = Ok (te, ks)"
  shows "map_depth tm ks = Some te" "ks \<noteq> []" "\<And>el. row_shape el \<Longrightarrow> \<forall>k \<in> set ks. field_value te el k \<noteq> None"
proof -
  from assms obtain fs where fs: "map_depth tm keys = Some te" "keys \<noteq> []" "struct_of te = Some fs"
      "resolve_keys fs keys = Some ks"
    by (auto simp: ensureType_def split: if_splits option.splits gotype.splits)
  have same: "length a = length b \<Longrightarrow> map_depth t a = map_depth t b" for t and a b :: "string list"
    by (induction a b arbitrary: t rule: list_induct2) (auto split: gotype.split)
  show "map_depth tm ks = Some te" "ks \<noteq> []"
    using fs resolve_keys_fields [OF fs(4)] same [of ks keys tm] by auto
  show "\<And>el. row_shape el \<Longrightarrow> \<forall>k \<in> set ks. field_value te el k \<noteq> None"
    using resolve_keys_fields [OF fs(4)] field_value_row [OF _ fs(3)] by blast
qed

lemma convert_all_lookup:
  assumes "ks \<noteq> []" and "map_depth tm ks \<noteq> None" and "list_all (\<lambda>el. \<forall>k \<in> set ks. field_value te el k \<noteq> None) els"
    and "convert_all env te tm ks els m = (None, m')" and "length p = length ks"
  shows "lookup_path m' p =
    (case find (\<lambda>el. path_of te el tm ks = p) (rev els) of Some el \<Rightarrow> Some el | None \<Rightarrow> lookup_path m p)"
  using assms(3,4)
proof (induction els arbitrary: m)
  case (Cons el els)
  from Cons.prems(2) obtain m1 where m1: "convertToMap env te el tm m ks = (Ok (), m1)"
      "convert_all env te tm ks els m1 = (None, m')"
    by (auto split: prod.splits res.splits)
  have find: "find P (xs @ [x]) = (case find P xs of Some y \<Rightarrow> Some y | None \<Rightarrow> if P x then Some x else None)"
    for P and xs :: "'a govalue list" and x
    by (induction xs) auto
  have "lookup_path m1 p = (if p = path_of te el tm ks then Some el else lookup_path m p)"
    using Cons.prems(1) by (intro convertToMap_lookup [OF _ assms(2,1) m1(1) assms(5)]) simp
  then show ?case using Cons.IH [OF _ m1(2)] Cons.prems(1) by (auto simp: find split: option.splits)
qed simp

lemma struct_of_fields:
  assumes "struct_of te = Some fs" and "has_type te el" and "(case el of VPtr (Some w) \<Rightarrow> w | _ \<Rightarrow> el) = VStruct vs"
  shows "list_all2 (\<lambda>(n, tag, t) w. has_type t w) fs vs"
proof (cases "\<exists>t'. underlying te = TPtr t'")
  case True
  then obtain t' where t': "underlying te = TPtr t'" "underlying t' = TStruct fs"
    using assms(1) by (auto simp: struct_of_def split: gotype.splits)
  from assms(2) have "el = VPtr None \<or> (\<exists>w. el = VPtr (Some w) \<and> has_type t' w)"
    using has_type_ptr [OF t'(1)] by blast
  then have "has_type t' (VStruct vs)" using assms(3) by auto
  then show ?thesis using has_type_struct [OF t'(2)] by blast
next
  case False
  then have te: "underlying te = TStruct fs" using assms(1) by (auto simp: struct_of_def split: gotype.splits)
  then obtain us where "el = VStruct us" using assms(2) has_type_struct by blast
  then show ?thesis using assms(2,3) has_type_struct [OF te] by auto
qed

lemma convertToMap_typed:
  assumes "has_type tm (VMap (Some m))" and "has_type te el" and "map_depth tm ks = Some te"
  shows "has_type tm (VMap (Some (snd (convertToMap env te el tm m ks))))"
  using assms
proof (induction ks arbitrary: tm m)
  case (Cons k ks)
  obtain tk tv where tm: "underlying tm = TMap tk tv" using Cons.prems(3) by (cases "underlying tm") auto
  have m: "has_type (TMap tk tv) (VMap (Some m))" using Cons.prems(1) has_type_map [OF tm] by blast
  have upd: "has_type tm (VMap (Some (AList.update kv w m)))" if "has_type tk kv" "has_type tv w" for kv w
    using map_update_typed [OF m that] has_type_map [OF tm] by blast
  show ?case
  proof (cases "field_value te el k")
    case (Some kk)
    obtain kt kv where kv: "field_value te el k = Some (kt, kv)" using Some by (cases kk) auto
    from kv obtain fs vs i where f: "struct_of te = Some fs" "FieldByName fs k = Some (i, kt)" "kv = vs ! i"
        "(case el of VPtr (Some w) \<Rightarrow> w | _ \<Rightarrow> el) = VStruct vs"
      by (auto simp: field_value_def split: option.splits govalue.splits)
    have "list_all2 (\<lambda>(n, tag, t) w. has_type t w) fs vs"
      by (rule struct_of_fields [OF f(1) Cons.prems(2) f(4)])
    from list_all2_nthD [OF this, of i] have kt: "has_type kt kv"
      using FieldByName_Some [OF f(2)] f(3) by (auto simp: split_beta)
    show ?thesis
    proof (cases "if exported k then as_key kt kv tk else None")
      case None
      then show ?thesis using kv tm Cons.prems(1) by simp
    next
      case (Some k')
      then have ex: "exported k" "as_key kt kv tk = Some k'" by (auto split: if_splits)
      then have k': "has_type tk k'" using as_key_typed kt by blast
      show ?thesis
      proof (cases "ks = []")
        case True
        then have "tv = te" using Cons.prems(3) tm by simp
        then show ?thesis using True kv k' tm upd Cons.prems(2) ex by simp
      next
        case False
        have d: "map_depth tv ks = Some te" using Cons.prems(3) tm by simp
        obtain tk2 tv2 where tv: "underlying tv = TMap tk2 tv2" using d False by (cases ks; cases "underlying tv") auto
        let ?inner = "case map_of m k' of Some (VMap (Some i)) \<Rightarrow> i | _ \<Rightarrow> []"
        have "has_type tv (VMap (Some i))" if "map_of m k' = Some (VMap (Some i))" for i
          using m map_of_SomeD [OF that] by (auto simp: list_all_iff)
        moreover have "has_type tv (VMap (Some []))" using has_type_map [OF tv, of "[]"] by simp
        ultimately have "has_type tv (VMap (Some ?inner))" by (auto split: option.split govalue.split)
        from upd [OF k' Cons.IH [OF this Cons.prems(2) d]] show ?thesis
          using False kv tm ex by (simp add: Let_def split_beta)
      qed
    qed
  qed (use Cons.prems(1) in simp)
qed simp

lemma convert_all_typed:
  "has_type tm (VMap (Some m)) \<Longrightarrow> list_all (has_type te) els \<Longrightarrow> map_depth tm ks = Some te \<Longrightarrow>
   has_type tm (VMap (Some (snd (convert_all env te tm ks els m))))"
proof (induction els arbitrary: m)
  case (Cons el els)
  obtain r m1 where m1: "convertToMap env te el tm m ks = (r, m1)" by fastforce
  have "has_type tm (VMap (Some m1))"
    using convertToMap_typed [OF Cons.prems(1) _ Cons.prems(3), of el env] Cons.prems(2) m1 by simp
  then show ?case using Cons.IH [of m1] Cons.prems m1 by (cases r) simp_all
qed simp

section \<open>Numbered columns and missing columns\<close>

lemma inner_index_numbered:
  assumes "\<forall>c \<in> set ky. \<not> (48 \<le> (of_char c :: nat) \<and> (of_char c :: nat) \<le> 57)" and "n < 2 ^ 63"
  shows "inner_index ky (ky @ show_nat n) = int n"
proof -
  have out: "c \<notin> set ky" if "c \<in> set (show_nat n)" for c using assms(1) show_nat_char [OF that] by blast
  have "strings_Trim (ky @ show_nat n) ky = show_nat n"
    unfolding strings_Trim_def by (rule trim_prefix) (simp_all add: out)
  then show ?thesis using Atoi_show_nat [OF assms(2)] by (simp add: inner_index_def HasPrefix_def)
qed

text \<open>A key that contains digits takes them off the number of its columns.\<close>

lemma key_digits_are_trimmed: "inner_index ''lv2_'' ''lv2_12'' = 1"
  by (simp add: inner_index_def HasPrefix_def strings_Trim_def trim_def strconv_Atoi_def ParseInt_def
      ParseUint_def digit_val_def lower_def)

lemma inner_loop_slice:
  assumes "underlying t = TSlice e" and "inner_loop env ky t data (b, VSlice vs) = Ok (b', w)"
  shows "\<exists>els. w = VSlice (vs @ els)
    \<and> list_all2 (\<lambda>(k, c) el. setField env e (zero_value (fls env) e) c True = Ok el)
        (filter (\<lambda>(k, c). inner_index ky k > 0) data) els
    \<and> (b' \<longleftrightarrow> b \<or> els \<noteq> [])"
  using assms(2)
proof (induction data arbitrary: b vs)
  case (Cons kc data)
  obtain k c where kc: "kc = (k, c)" by (cases kc)
  show ?case
  proof (cases "inner_index ky k \<le> 0")
    case True
    then show ?thesis using Cons kc by simp
  next
    case False
    then obtain el where el: "setField env e (zero_value (fls env) e) c True = Ok el"
        "inner_loop env ky t data (True, VSlice (vs @ [el])) = Ok (b', w)"
      using Cons.prems assms(1) by (auto simp: kc elem_type_def add_inner_def bind_res_Ok)
    from Cons.IH [OF el(2)] obtain els where "w = VSlice ((vs @ [el]) @ els)"
        "list_all2 (\<lambda>(k, c) el. setField env e (zero_value (fls env) e) c True = Ok el)
          (filter (\<lambda>(k, c). inner_index ky k > 0) data) els" "b'"
      by auto
    then show ?thesis using False el(1) kc by (intro exI [of _ "el # els"]) simp
  qed
qed simp

lemma inner_loop_none:
  "\<forall>(k, c) \<in> set data. inner_index ky k \<le> 0 \<Longrightarrow> inner_loop env ky t data fv = Ok fv"
  by (induction data) auto

text \<open>A type without \<open>UnmarshalCSVEx\<close>, directly or behind pointers, and no interface.\<close>

fun no_loader :: "'f csv_env \<Rightarrow> gotype \<Rightarrow> bool" where
  "no_loader env (TNamed n t) \<longleftrightarrow> m_UnmarshalCSVEx env (TNamed n t) = None \<and> no_loader env t"
| "no_loader env (TPtr t) \<longleftrightarrow> no_loader env t"
| "no_loader env TInterface \<longleftrightarrow> False"
| "no_loader env t \<longleftrightarrow> m_UnmarshalCSVEx env t = None"

lemma no_loader_facts:
  "no_loader env t \<Longrightarrow> underlying t = TPtr t' \<Longrightarrow> no_loader env t'"
  "no_loader env t \<Longrightarrow> underlying t \<noteq> TInterface"
  "no_loader env t \<Longrightarrow> no_methods t \<or> m_UnmarshalCSVEx env t = None"
  by (induction env t rule: no_loader.induct) (auto simp: no_methods_def)

lemma no_loader_not_called:
  assumes "no_loader env t"
  shows "unMarshallIt env data t v = (False, Ok v)"
  using no_loader_facts(3) [OF assms] by (auto simp: unMarshallIt_def)

lemma tryUnMarshall_in_missing:
  "no_loader env t \<Longrightarrow> has_type t v \<Longrightarrow>
     fst (tryUnMarshall_in env data outer addr t v) = False \<and> (\<forall>e. snd (tryUnMarshall_in env data outer addr t v) \<noteq> Fail e)"
proof (induction env data outer addr t v rule: tryUnMarshall_in.induct)
  case (1 env data outer addr t)
  then show ?case
    using no_loader_not_called [OF no_loader_facts(1) [OF 1(1)]] by (auto simp: map_res_def split: gotype.split)
next
  case (2 env data outer addr t x)
  obtain t' where t': "underlying t = TPtr t'" using has_type_kinds(1) [OF 2(3)] ..
  have "has_type t' x" using 2(3) has_type_ptr [OF t', of "VPtr (Some x)"] by simp
  from 2(1) [OF t' no_loader_facts(1) [OF 2(2) t'] this] show ?case
    using t' by (cases "tryUnMarshall_in env data False True t' x"; cases "snd (tryUnMarshall_in env data False True t' x)")
      (auto simp: map_res_def)
next
  case (4 env data outer addr t t' x)
  then show ?case using no_loader_facts(2) by (auto simp: has_type_kinds(2))
qed (simp_all add: no_loader_not_called)

lemma parse_field_missing:
  assumes "\<not> single info" and "\<not> omitEmpty info" and "\<forall>(k, c) \<in> set data. inner_index (key info) k \<le> 0"
    and "no_loader env t" and "has_type t v"
  shows "parse_field env data info t v = Fail ENotFound \<or> parse_field env data info t v = Crash"
proof -
  let ?v = "case underlying t of TMap _ _ \<Rightarrow> VMap (Some []) | _ \<Rightarrow> v"
  have v: "has_type t ?v" using assms(5) has_type_map [of t _ _ "[]"] by (cases "underlying t") auto
  have "fst (tryUnMarshallEx env t ?v data) = False \<and> (\<forall>e. snd (tryUnMarshallEx env t ?v data) \<noteq> Fail e)"
    using tryUnMarshall_in_missing [OF assms(4) v] by (simp add: tryUnMarshallEx_def)
  then show ?thesis
    using assms(1,2) inner_loop_none [OF assms(3), of env t]
    by (cases "tryUnMarshallEx env t ?v data"; cases "snd (tryUnMarshallEx env t ?v data)")
      (auto simp: parse_field_def Let_def tryUnMarshInnerField_def)
qed

lemma parse_fields_missing:
  assumes "info \<in> set infos" and "FieldByName fs (fieldName info) = Some (i, t)" and "env_typed env"
    and "\<forall>v. has_type t v \<longrightarrow> parse_field env data info t v = Fail ENotFound \<or> parse_field env data info t v = Crash"
    and "list_all2 (\<lambda>(n, tag, t) w. has_type t w) fs vs"
  shows "\<forall>ws. parse_fields env fs data infos vs \<noteq> Ok ws"
  using assms(1,5)
proof (induction infos arbitrary: vs)
  case (Cons inf infos)
  show ?case
  proof (intro allI notI)
    fix ws
    assume "parse_fields env fs data (inf # infos) vs = Ok ws"
    then obtain j u w where j: "FieldByName fs (fieldName inf) = Some (j, u)"
        "parse_field env data inf u (vs ! j) = Ok w" "parse_fields env fs data infos (vs[j := w]) = Ok ws"
      by (auto simp: bind_res_Ok split: option.splits)
    have f: "j < length fs" "snd (snd (fs ! j)) = u" using FieldByName_Some [OF j(1)] by auto
    have v: "has_type u (vs ! j)" using list_all2_nthD [OF Cons.prems(2), of j] f by (simp add: split_beta)
    show False
    proof (cases "inf = info")
      case True
      then have "u = t" using j(1) assms(2) by simp
      then show ?thesis using assms(4) v j(2) True by fastforce
    next
      case False
      have "has_type u w" using parse_field_typed [OF assms(3) v j(2)] .
      then have "list_all2 (\<lambda>(n, tag, t) w. has_type t w) fs (vs[j := w])"
        using Cons.prems(2) f by (auto simp: list_all2_conv_all_nth nth_list_update split_beta)
      then show ?thesis using Cons.IH [of "vs[j := w]"] Cons.prems(1) False j(3) by simp
    qed
  qed
qed simp

section \<open>Properties\<close>


text \<open>
  C7: \<open>LoadCSVMap\<close> refines a flat map. When it succeeds, every data row of the file has become one
  element, and the nested maps, looked up along a path of key values, give for each path the element
  of the last row whose key fields are that path, and what they gave before for every path no row
  has. So the nesting is nothing but a finite map from tuples of keys.
\<close>
theorem LoadCSVMap_refines_flat_map:
  assumes "LoadCSVMap env contents tm cs (VMap p) Key OptionKeys = (None, v)"
  shows "\<exists>te ks els records m'. ensureType tm (Key # OptionKeys) = Ok (te, ks)
    \<and> contents = Some records \<and> length els + 1 = length records
    \<and> LoadCSVArr env contents (TPtr (TSlice te)) (VPtr (Some (VSlice []))) = (None, VPtr (Some (VSlice els)))
    \<and> v = VMap (Some m')
    \<and> (\<forall>path. length path = length ks \<longrightarrow> lookup_path m' path =
         (case find (\<lambda>el. path_of te el tm ks = path) (rev els) of
            Some el \<Rightarrow> Some el
          | None \<Rightarrow> lookup_path (case p of Some m \<Rightarrow> m | None \<Rightarrow> []) path))"
proof -
  let ?m = "case p of Some m \<Rightarrow> m | None \<Rightarrow> []"
  obtain te ks where te: "ensureType tm (Key # OptionKeys) = Ok (te, ks)"
    using assms by (auto simp: LoadCSVMap_def Let_def split: res.splits if_splits)
  obtain err w where arr: "LoadCSVArr env contents (TPtr (TSlice te)) (VPtr (Some (VSlice []))) = (err, w)" by fastforce
  have err: "err = None" using assms te arr
    by (cases err) (auto simp: LoadCSVMap_def Let_def split: if_splits)
  then obtain els records where els: "w = VPtr (Some (VSlice els))" "contents = Some records"
      "length els + 1 = length records" "list_all row_shape els"
    using LoadCSVArr_Ok arr by blast
  obtain m' where m': "convert_all env te tm ks els ?m = (None, m')" "v = VMap (Some m')"
    using assms te arr err els(1)
    by (cases "convert_all env te tm ks els ?m") (auto simp: LoadCSVMap_def Let_def split: if_splits)
  note ok = ensureType_Ok [OF te]
  have "list_all (\<lambda>el. \<forall>k \<in> set ks. field_value te el k \<noteq> None) els"
    using els(4) unfolding list_all_iff by (blast dest: ok(3))
  then have "\<forall>path. length path = length ks \<longrightarrow> lookup_path m' path =
      (case find (\<lambda>el. path_of te el tm ks = path) (rev els) of Some el \<Rightarrow> Some el | None \<Rightarrow> lookup_path ?m path)"
    using convert_all_lookup [OF ok(2) _ _ m'(1)] ok(1) by simp
  then show ?thesis using te els arr err m' by blast
qed

lemma line_data_keys: "fst ` set (line_data h line) \<subseteq> (\<lambda>x. TrimSpace (ToLower x)) ` set h"
proof -
  have "fst ` set (fold (\<lambda>(h, c). AList.update (f h) (g c)) ps m) \<subseteq> fst ` set m \<union> f ` fst ` set ps"
    for f and g :: "string \<Rightarrow> string" and ps m
  proof (induction ps arbitrary: m)
    case (Cons hc ps)
    obtain h c where hc: "hc = (h, c)" by (cases hc)
    have "fst ` set (AList.update (f h) (g c) m) = insert (f h) (fst ` set m)"
      using dom_update [of "f h" "g c" m] by (simp add: dom_map_of_conv_image_fst)
    then show ?case using Cons.IH [of "AList.update (f h) (g c) m"] by (auto simp: hc)
  qed simp
  from this [of "\<lambda>x. TrimSpace (ToLower x)" TrimSpace "zip h line" "[]"]
  show ?thesis unfolding line_data_def by (force dest: set_zip_leftD)
qed

lemma FieldByName_distinct:
  "distinct (map fst fs) \<Longrightarrow> (n, tag, t) \<in> set fs \<Longrightarrow> \<exists>i. FieldByName fs n = Some (i, t)"
  by (induction fs) (auto simp: rev_image_eqI)


lemma demo_LoadCSVMap:
  "\<exists>v. LoadCSVMap plain_env (Some [[''id''], [''7'']]) (TMap (TInt Bits64) (TStruct [(''Id'', [], TInt Bits64)]))
     True (VMap None) ''ID'' [] = (None, v)"
  by (simp add: LoadCSVMap_def ensureType_def struct_of_def resolve_key_def EqualFold_def ToLower_def lower_def
      LoadCSVArr_def loadFile_def getStructInfo_def field_info_def tag_key_def exported_def line_data_def TrimSpace_def
      trim_def space_def parseLine_def parse_field_def tryUnMarshallEx_def unMarshallIt_def no_methods_def as_key_def plain_env_def setField_native native_def
      set_kind_def toInt_def cell_def ParseInt_def ParseUint_def digit_val_def before_def map_res_def field_value_def
      char_of_def bit_0)

theorem LoadCSVMap_refines_flat_map_witness:
  "\<exists>te ks els. ensureType (TMap (TInt Bits64) (TStruct [(''Id'', [], TInt Bits64)])) [''ID''] = Ok (te, ks)
    \<and> LoadCSVArr plain_env (Some [[''id''], [''7'']]) (TPtr (TSlice te)) (VPtr (Some (VSlice [])))
        = (None, VPtr (Some (VSlice els))) \<and> length els = 1"
proof -
  obtain v where "LoadCSVMap plain_env (Some [[''id''], [''7'']])
      (TMap (TInt Bits64) (TStruct [(''Id'', [], TInt Bits64)])) True (VMap None) ''ID'' [] = (None, v)"
    using demo_LoadCSVMap by blast
  from LoadCSVMap_refines_flat_map [OF this] show ?thesis by auto
qed

text \<open>
  Numbered columns fill a slice. A heading made of the field's key and a number is recognised as
  an element with that number, provided the key contains no digit; and a slice field ends up with
  exactly one element per such column with a positive number, each the converted cell, in the order
  in which \<open>range\<close> happens to visit the row's map (so not in the order of the numbers).
\<close>
lemma numbered_columns_fill_slice:
  assumes "underlying t = TSlice e"
    and "tryUnMarshInnerField env t (VSlice vs) data info = Ok w"
  shows "(\<exists>els. w = VSlice (vs @ els)
      \<and> list_all2 (\<lambda>(k, c) el. setField env e (zero_value (fls env) e) c True = Ok el)
          (filter (\<lambda>(k, c). inner_index (key info) k > 0) data) els
      \<and> (els \<noteq> [] \<or> omitEmpty info))
    \<and> (\<forall>n < 2 ^ 63. (\<forall>c \<in> set (key info). \<not> (48 \<le> (of_char c :: nat) \<and> (of_char c :: nat) \<le> 57)) \<longrightarrow>
         inner_index (key info) (key info @ show_nat n) = int n)"
proof -
  obtain b where b: "inner_loop env (key info) t data (False, VSlice vs) = Ok (b, w)" "b \<or> omitEmpty info"
    using assms(2) by (auto simp: tryUnMarshInnerField_def bind_res_Ok split: if_splits)
  then show ?thesis using inner_loop_slice [OF assms(1) b(1)] inner_index_numbered by auto
qed

definition demo_info :: fieldInfo where
  "demo_info = \<lparr>fieldName = ''Param'', key = ''param'', omitEmpty = False, single = False\<rparr>"

lemma demo_inner:
  "tryUnMarshInnerField plain_env (TSlice (TInt Bits32)) (VSlice []) [(''param2'', ''8''), (''param1'', ''7'')] demo_info
    = Ok (VSlice [VInt 8, VInt 7])"
  by (simp add: tryUnMarshInnerField_def demo_info_def inner_index_def HasPrefix_def strings_Trim_def trim_def
      strconv_Atoi_def ParseInt_def ParseUint_def digit_val_def lower_def elem_type_def setField_native native_def
      set_kind_def toInt_def TrimSpace_def space_def before_def add_inner_def map_res_def trunc_int_def)

lemma numbered_columns_fill_slice_witness:
  "\<exists>els. VSlice [VInt 8, VInt 7] = VSlice ([] @ els)
    \<and> list_all2 (\<lambda>(k, c) el. setField plain_env (TInt Bits32) (zero_value (fls plain_env) (TInt Bits32)) c True = Ok el)
        (filter (\<lambda>(k, c). inner_index ''param'' k > 0) [(''param2'', ''8''), (''param1'', ''7'')]) els"
  using numbered_columns_fill_slice [OF _ demo_inner] by (auto simp: demo_info_def)

text \<open>
  Headings have to be written in lower case. The columns of a row are looked up in lower case,
  but whether a field has its own column is decided on the heading as it stands in the file. When no
  heading is literally the key of a field that is required, has no loader of its own and no numbered
  columns, no file with at least one row can be loaded, even if a heading differs only in case.
\<close>
lemma headings_must_be_lower_case:
  assumes "struct_of e = Some fs" and "distinct (map fst fs)" and "(name, tag, t) \<in> set fs" and "exported name"
    and "ToLower tag \<notin> {''_'', ''-''}" and "tag_key name (ToLower tag) = (ky, False)"
    and "ky \<notin> set h" and "\<forall>x \<in> set h. inner_index ky (TrimSpace (ToLower x)) \<le> 0"
    and "no_loader env t" and "env_typed env"
  shows "fst (LoadCSVArr env (Some (h # row # rows)) (TPtr (TSlice e)) (VPtr (Some (VSlice acc)))) \<noteq> None"
proof -
  let ?info = "\<lparr>fieldName = name, key = ky, omitEmpty = False, single = False\<rparr>"
  let ?infos = "concat (map (field_info h) fs)"
  have "?info \<in> set (field_info h (name, tag, t))" using assms(4-7) by (simp add: field_info_def)
  then have info: "?info \<in> set ?infos" using assms(3) by force
  obtain i where i: "FieldByName fs name = Some (i, t)" using FieldByName_distinct [OF assms(2,3)] by blast
  have "\<forall>(k, c) \<in> set (line_data h row). inner_index ky k \<le> 0"
    using assms(8) line_data_keys [of h row] by (force simp: image_subset_iff)
  then have "\<forall>v. has_type t v \<longrightarrow> parse_field env (line_data h row) ?info t v = Fail ENotFound
      \<or> parse_field env (line_data h row) ?info t v = Crash"
    using parse_field_missing [of ?info "line_data h row" env t] assms(9) by simp
  moreover have "list_all2 (\<lambda>(n, tag, t) w. has_type t w) fs (map (\<lambda>(n, tag, t). zero_value (fls env) t) fs)"
    using zero_value_typed [of "TStruct fs" "fls env"] by simp
  ultimately have "\<forall>ws. parse_fields env fs (line_data h row) ?infos (map (\<lambda>(n, tag, t). zero_value (fls env) t) fs) \<noteq> Ok ws"
    using parse_fields_missing [OF info _ assms(10), of fs i t "line_data h row"] i by simp
  then have "\<forall>v. parseLine env e ?infos (line_data h row) \<noteq> Ok v"
    using assms(1) by (auto simp: parseLine_def map_res_Ok)
  then have "fst (load_lines env e ?infos h (row # rows) acc) \<noteq> None"
    by (auto split: res.splits)
  then show ?thesis
    using assms(1) by (simp add: LoadCSVArr_def loadFile_def getStructInfo_def split_beta del: load_lines.simps)
qed

lemma headings_must_be_lower_case_witness:
  "fst (LoadCSVArr plain_env (Some [[''Id''], [''5'']]) (TPtr (TSlice (TStruct [(''Id'', [], TInt Bits64)])))
     (VPtr (Some (VSlice [])))) \<noteq> None"
  by (rule headings_must_be_lower_case [where fs = "[(''Id'', [], TInt Bits64)]" and name = "''Id''" and tag = "[]"
      and t = "TInt Bits64" and ky = "''id''"])
    (simp_all add: struct_of_def exported_def lower_def ToLower_def tag_key_def inner_index_def TrimSpace_def trim_def
      space_def HasPrefix_def strings_Trim_def strconv_Atoi_def ParseInt_def plain_env_def char_of_def bit_0 env_typed_def)

end
