(* ===== verification/ProtoGen.thy ===== *)
theory ProtoGen
  imports Packet GoStrings "HOL-Library.AList" "HOL-Library.Monad_Syntax"
begin

text \<open>
  \<open>protocol/cmd/main.go\<close>: the tool that gives every message type its id. It reads the register
  (\<open>register.txt\<close>), looks for message types without an id in the generated Go files, numbers them
  upwards, writes \<open>protoFactory.go\<close> and appends the new numbers to the register.

  The register is its text; the Go files come from \<open>go/parser\<close>, an argument: per file the general
  declarations in the order \<open>ast.Inspect\<close> visits them, with their comment, or \<open>None\<close> for a file
  that does not parse. The four globals are the record \<open>gen\<close>. \<open>None\<close> as a result is the end of the
  process, by \<open>os.Exit(1)\<close> or a panic. Lines are taken to be shorter than the reader's buffer (4096).
\<close>

record pbItem =
  it_id :: u16
  it_msg :: string
  it_comma :: string

record gen =
  gAllItems :: "pbItem list"
  gAppendItems :: "pbItem list"
  gItemMap :: "(string \<times> u16) list"
  gMaxMsgId :: u16

definition gen_start :: gen where
  "gen_start = \<lparr>gAllItems = [], gAppendItems = [], gItemMap = [], gMaxMsgId = 0\<rparr>"

section \<open>The register\<close>

abbreviation nl :: char where "nl \<equiv> CHR 0x0A"

text \<open>\<open>bufio.Reader.ReadLine\<close> to the end of the file.\<close>

definition chomp :: "string \<Rightarrow> string" where
  "chomp l = (if l \<noteq> [] \<and> last l = CHR 0x0D then butlast l else l)"

definition ReadLines :: "string \<Rightarrow> string list" where
  "ReadLines s =
     (let ls = strings_Split s nl in map chomp (butlast ls) @ (if last ls = [] then [] else [last ls]))"

text \<open>A line without its comment, and the comment.\<close>

definition split_comment :: "string \<Rightarrow> string \<times> string" where
  "split_comment l = (case cut_at ''//'' l of Some (a, b) \<Rightarrow> (TrimSpace a, b) | None \<Rightarrow> (TrimSpace l, []))"

definition read_id :: "string \<Rightarrow> u16" where
  "read_id s =
     (let sMsgId = ToLower (TrimSpace s)
      in of_nat (fst (if HasPrefix sMsgId ''0x'' then ParseUint (drop 2 sMsgId) 16 16 else ParseUint sMsgId 10 16)))"

definition add_registered :: "u16 \<Rightarrow> string \<Rightarrow> string \<Rightarrow> gen \<Rightarrow> gen" where
  "add_registered i msgStr commaStr g =
     g\<lparr>gAllItems := gAllItems g @ [\<lparr>it_id = i, it_msg = msgStr, it_comma = commaStr\<rparr>],
       gItemMap := AList.update msgStr i (gItemMap g),
       gMaxMsgId := (if i > gMaxMsgId g then i else gMaxMsgId g)\<rparr>"

text \<open>
  \<open>loadRegisterFile\<close> with \<open>idMap\<close>. A line that is not \<open>name = number\<close> ends the reading; a number
  that does not parse is reported and used all the same; an id seen before ends the process.
\<close>

fun register_lines :: "string list \<Rightarrow> (u16 \<times> string) list \<Rightarrow> gen \<Rightarrow> ((u16 \<times> string) list \<times> gen) option" where
  "register_lines [] idMap g = Some (idMap, g)"
| "register_lines (l # ls) idMap g =
     (let (line, commaStr) = split_comment l;
          its = strings_Split line CHR ''=''
      in if line = [] then register_lines ls idMap g
         else if length its \<noteq> 2 then Some (idMap, g)
         else let i = read_id (its ! 1); msgStr = TrimSpace (its ! 0)
              in if map_of idMap i \<noteq> None then None
                 else register_lines ls (AList.update i msgStr idMap) (add_registered i msgStr commaStr g))"

definition loadRegisterFile :: "string \<Rightarrow> gen \<Rightarrow> gen option" where
  "loadRegisterFile text g = map_option snd (register_lines (ReadLines text) [] g)"

section \<open>The Go files\<close>

datatype go_spec = TypeSpec string | OtherSpec

type_synonym go_decl = "string \<times> go_spec list"

datatype dirent = GoFile string "go_decl list option" | SubDir string "dirent list"

text \<open>Only the first type of a declaration group is looked at.\<close>

fun first_type :: "go_spec list \<Rightarrow> string option" where
  "first_type [] = None"
| "first_type (TypeSpec n # ss) = Some n"
| "first_type (OtherSpec # ss) = first_type ss"

definition add_decl :: "go_decl \<Rightarrow> gen \<Rightarrow> gen" where
  "add_decl = (\<lambda>(doc, specs) g.
     case first_type specs of
       None \<Rightarrow> g
     | Some msgName \<Rightarrow>
         if HasPrefix msgName ''Message'' \<and> map_of (gItemMap g) msgName = None then
           let i = gMaxMsgId g + 1;
               it = \<lparr>it_id = i, it_msg = msgName, it_comma = doc\<rparr>
           in g\<lparr>gMaxMsgId := i, gAllItems := gAllItems g @ [it], gAppendItems := gAppendItems g @ [it],
                gItemMap := AList.update msgName i (gItemMap g)\<rparr>
         else g)"

definition loadProtoFile :: "go_decl list option \<Rightarrow> gen \<Rightarrow> gen option" where
  "loadProtoFile f g = (case f of None \<Rightarrow> None | Some decls \<Rightarrow> Some (fold add_decl decls g))"

text \<open>\<open>filepath.Ext\<close>: from the last dot of the name on.\<close>

definition file_ext :: "string \<Rightarrow> string" where
  "file_ext n = (if CHR ''.'' \<in> set n then CHR ''.'' # rev (takeWhile (\<lambda>c. c \<noteq> CHR ''.'') (rev n)) else [])"

fun load_entry :: "dirent \<Rightarrow> gen \<Rightarrow> gen option"
and loadProtoDir :: "dirent list \<Rightarrow> gen \<Rightarrow> gen option" where
  "load_entry (SubDir n ds) g = loadProtoDir ds g"
| "load_entry (GoFile n f) g = (if ToLower (file_ext n) = ''.go'' then loadProtoFile f g else Some g)"
| "loadProtoDir [] g = Some g"
| "loadProtoDir (d # ds) g = do { g \<leftarrow> load_entry d g; loadProtoDir ds g }"

section \<open>Output\<close>

definition genFile :: "gen \<Rightarrow> string" where
  "genFile g =
     ''// Code generated by go proto generate tool. DO NOT EDIT.'' @ [nl] @ ''package protocol'' @ [nl]
     @ ''import '' @ [CHR 0x22] @ ''gogame/protocol/pb'' @ [CHR 0x22, nl] @ ''const('' @ [nl]
     @ concat (map (\<lambda>it. ''MsgID_'' @ it_msg it @ '' = '' @ show_nat (unat (it_id it)) @ '' '' @ it_comma it @ [nl]) (gAllItems g))
     @ '')'' @ [nl] @ ''func init() {'' @ [nl] @ ''processor = NewProcessor()'' @ [nl]
     @ concat (map (\<lambda>it. [CHR 0x09] @ ''processor.Register(MsgID_'' @ it_msg it @ '', (*pb.'' @ it_msg it @ '')(nil))'' @ [nl])
         (gAllItems g))
     @ ''}'' @ [nl]"

definition new_line :: "pbItem \<Rightarrow> string" where
  "new_line it = it_msg it @ '' = 0x'' @ show_hex (unat (it_id it)) @ '' // '' @ it_comma it @ [nl]"

text \<open>What is appended to the register.\<close>

definition writerNewProto :: "gen \<Rightarrow> string" where
  "writerNewProto g = (if gAppendItems g = [] then [] else [nl] @ concat (map new_line (gAppendItems g)))"

text \<open>\<open>main\<close>: the generated file, the new text of the register, and the globals at the end.\<close>

definition gen_main :: "string \<Rightarrow> dirent list \<Rightarrow> (string \<times> string \<times> gen) option" where
  "gen_main text dir =
     do { g \<leftarrow> loadRegisterFile text gen_start;
          g \<leftarrow> loadProtoDir dir g;
          Some (genFile g, text @ writerNewProto g, g) }"

section \<open>Reading back what was written\<close>

definition ident_char :: "char \<Rightarrow> bool" where
  "ident_char c \<longleftrightarrow> c = CHR ''_'' \<or> digit_val c \<noteq> None"

lemma ident_char_not: "ident_char c \<Longrightarrow> c \<notin> {CHR ''='', CHR ''/'', CHR '' '', nl, CHR 0x0D} \<and> \<not> space c"
  by (auto simp: ident_char_def digit_val_def lower_def space_def Let_def split: if_splits)

lemma hex_ident: "c \<in> set (show_hex n) \<Longrightarrow> digit_val c \<noteq> None"
proof (induction n rule: show_hex.induct)
  case (1 n)
  have "n mod 16 < 16" by simp
  then have "digit_val (hex_digit (n mod 16)) \<noteq> None" by (simp only: digit_val_hex) simp
  moreover have "digit_val (hex_digit n) \<noteq> None" if "n < 16" using that by simp
  ultimately show ?case using 1 by (cases "n < 16") (auto simp: show_hex.simps [of n])
qed

lemma show_hex_nonempty [simp]: "show_hex n \<noteq> []"
  by (simp add: show_hex.simps [of n])

lemma ident_not_space: "\<forall>c \<in> set n. ident_char c \<Longrightarrow> n \<noteq> [] \<Longrightarrow> \<not> space (hd n) \<and> \<not> space (last n)"
  by (simp add: ident_char_not)

definition entry_text :: "string \<Rightarrow> nat \<Rightarrow> string \<Rightarrow> string" where
  "entry_text n k d = n @ '' = 0x'' @ show_hex k @ '' // '' @ d"

lemma entry_parts:
  assumes "\<forall>c \<in> set n. ident_char c" and "n \<noteq> []"
  shows "split_comment (entry_text n k d) = (n @ '' = 0x'' @ show_hex k, ''// '' @ d)"
    and "strings_Split (n @ '' = 0x'' @ show_hex k) CHR ''='' = [n @ '' '', '' 0x'' @ show_hex k]"
    and "TrimSpace (n @ '' '') = n"
proof -
  have hex: "ident_char c" if "c \<in> set (show_hex k)" for c using hex_ident [OF that] by (simp add: ident_char_def)
  have last: "\<not> space (last (show_hex k))" using hex ident_char_not last_in_set show_hex_nonempty by blast
  have "CHR ''/'' \<notin> set (n @ '' = 0x'' @ show_hex k @ '' '')"
    using assms(1) hex ident_char_not by fastforce
  then have "cut_at ''//'' (entry_text n k d) = Some (n @ '' = 0x'' @ show_hex k @ '' '', ''// '' @ d)"
    using cut_at_slashes [of "n @ '' = 0x'' @ show_hex k @ '' ''" "'' '' @ d"] by (simp add: entry_text_def)
  moreover have "TrimSpace ((n @ '' = 0x'' @ show_hex k) @ '' '') = n @ '' = 0x'' @ show_hex k"
    unfolding TrimSpace_def using ident_not_space [OF assms] last assms(2)
    by (intro trim_suffix) (simp_all add: space_def)
  ultimately show "split_comment (entry_text n k d) = (n @ '' = 0x'' @ show_hex k, ''// '' @ d)"
    by (simp add: split_comment_def)
  have "CHR ''='' \<notin> set (n @ '' '')" using assms(1) ident_char_not by fastforce
  moreover have "CHR ''='' \<notin> set ('' 0x'' @ show_hex k)" using hex ident_char_not by fastforce
  ultimately show "strings_Split (n @ '' = 0x'' @ show_hex k) CHR ''='' = [n @ '' '', '' 0x'' @ show_hex k]"
    using strings_Split_first [of "CHR ''=''" "n @ '' ''" "'' 0x'' @ show_hex k"]
      strings_Split_none [of "CHR ''=''" "'' 0x'' @ show_hex k"] by simp
  show "TrimSpace (n @ '' '') = n"
    unfolding TrimSpace_def using ident_not_space [OF assms] assms(2)
    by (intro trim_suffix) (simp_all add: space_def)
qed

lemma read_id_hex: "read_id ('' 0x'' @ show_hex (unat i)) = i"
proof -
  have "\<not> space (last (show_hex (unat i)))"
    using hex_ident ident_char_not last_in_set show_hex_nonempty by (metis ident_char_def)
  then have "TrimSpace ('' '' @ (''0x'' @ show_hex (unat i))) = ''0x'' @ show_hex (unat i)"
    unfolding TrimSpace_def by (intro trim_prefix) (simp_all add: space_def)
  then have t: "ToLower (TrimSpace ('' 0x'' @ show_hex (unat i))) = ''0x'' @ map lower (show_hex (unat i))"
    by (simp add: ToLower_def lower_def)
  have "unat i \<le> 65535" using unsigned_less [of i, where 'a = nat] by simp
  then have "ParseUint (map lower (show_hex (unat i))) 16 16 = (unat i, None)"
    by (simp add: ParseUint_def parse_digits_lower parse_show_hex)
  then show ?thesis unfolding read_id_def t by (simp add: HasPrefix_def)
qed

lemma register_entry:
  assumes "\<forall>c \<in> set n. ident_char c" and "n \<noteq> []" and "map_of m i = None"
  shows "register_lines (entry_text n (unat i) d # ls) m g
    = register_lines ls (AList.update i n m) (add_registered i n (''// '' @ d) g)"
  using entry_parts [OF assms(1,2)] assms(3) read_id_hex [of i] by (simp add: Let_def)

section \<open>Lines of texts put together\<close>

lemma ReadLines_append: "ReadLines (a @ nl # b) = map chomp (strings_Split a nl) @ ReadLines b"
  by (simp add: ReadLines_def Let_def strings_Split_append butlast_append)

lemma ReadLines_line: "nl \<notin> set a \<Longrightarrow> ReadLines (a @ nl # b) = chomp a # ReadLines b"
  by (simp add: ReadLines_append strings_Split_none)

lemma ReadLines_Nil [simp]: "ReadLines [] = []"
  by (simp add: ReadLines_def)

definition text_file :: "string \<Rightarrow> bool" where
  "text_file t \<longleftrightarrow> t = [] \<or> last t = nl"

lemma ReadLines_text_file: "text_file t \<Longrightarrow> ReadLines (t @ b) = ReadLines t @ ReadLines b"
proof (cases "t = []")
  case False
  assume "text_file t"
  then obtain a where "t = a @ [nl]" using False by (metis append_butlast_last_id text_file_def)
  then show ?thesis using ReadLines_append [of a b] ReadLines_append [of a "[]"] by simp
qed simp

text \<open>A comment as \<open>Doc.Text()\<close> gives it for one line: nothing, or the line with its end.\<close>

definition doc_line :: "string \<Rightarrow> string" where
  "doc_line d = takeWhile (\<lambda>c. c \<noteq> nl) d"

definition one_line_doc :: "string \<Rightarrow> bool" where
  "one_line_doc d \<longleftrightarrow> (d = doc_line d \<or> d = doc_line d @ [nl]) \<and> CHR 0x0D \<notin> set d"

definition writable :: "pbItem \<Rightarrow> bool" where
  "writable it \<longleftrightarrow> it_msg it \<noteq> [] \<and> (\<forall>c \<in> set (it_msg it). ident_char c) \<and> one_line_doc (it_comma it)"

lemma chomp_id: "CHR 0x0D \<notin> set l \<Longrightarrow> chomp l = l"
  by (cases "l = []") (auto simp: chomp_def dest: last_in_set)

lemma register_new_line:
  assumes "writable it" and "map_of m (it_id it) = None"
  shows "register_lines (ReadLines (new_line it @ rest)) m g
    = register_lines (ReadLines rest) (AList.update (it_id it) (it_msg it) m)
        (add_registered (it_id it) (it_msg it) (''// '' @ doc_line (it_comma it)) g)"
proof -
  let ?k = "unat (it_id it)" and ?d = "doc_line (it_comma it)"
  let ?e = "entry_text (it_msg it) ?k ?d"
  have id: "\<forall>c \<in> set (it_msg it). ident_char c" "it_msg it \<noteq> []" using assms(1) by (auto simp: writable_def)
  have hex: "ident_char c" if "c \<in> set (show_hex ?k)" for c using hex_ident [OF that] by (simp add: ident_char_def)
  have d: "nl \<notin> set ?d" "CHR 0x0D \<notin> set ?d"
    using assms(1) by (auto simp: doc_line_def writable_def one_line_doc_def dest: set_takeWhileD)
  have "nl \<notin> set ?e" "CHR 0x0D \<notin> set ?e"
    using id(1) hex d ident_char_not by (fastforce simp: entry_text_def)+
  then have e: "ReadLines (?e @ nl # b) = ?e # ReadLines b" for b
    by (simp add: ReadLines_line chomp_id)
  have "ReadLines (new_line it @ rest) = ?e # ReadLines rest \<or> ReadLines (new_line it @ rest) = ?e # [] # ReadLines rest"
  proof -
    from assms(1) consider "it_comma it = ?d" | "it_comma it = ?d @ [nl]" by (auto simp: writable_def one_line_doc_def)
    then show ?thesis
    proof cases
      case 1
      then have "new_line it = ?e @ [nl]" by (simp add: new_line_def entry_text_def)
      then show ?thesis using e by simp
    next
      case 2
      then have "new_line it = ?e @ [nl, nl]" by (simp add: new_line_def entry_text_def)
      then show ?thesis using e [of "nl # rest"] ReadLines_line [of "[]" rest] by (simp add: chomp_def)
    qed
  qed
  moreover have "register_lines ([] # ls) m g = register_lines ls m g" for ls m g
    by (simp add: split_comment_def TrimSpace_def trim_def)
  ultimately show ?thesis using register_entry [OF id assms(2), of ?d] by auto
qed

text \<open>The items written, as they are registered again: with their comments commented.\<close>

definition as_registered :: "pbItem \<Rightarrow> gen \<Rightarrow> gen" where
  "as_registered it = add_registered (it_id it) (it_msg it) (''// '' @ doc_line (it_comma it))"

lemma register_new_lines:
  assumes "list_all writable its" and "distinct (map it_id its)" and "\<forall>it \<in> set its. map_of m (it_id it) = None"
  shows "\<exists>m'. register_lines (ReadLines (concat (map new_line its))) m g = Some (m', fold as_registered its g)"
  using assms
proof (induction its arbitrary: m g)
  case (Cons it its)
  have "\<forall>x \<in> set its. map_of (AList.update (it_id it) (it_msg it) m) (it_id x) = None"
    using Cons.prems(2,3) by (auto simp: update_conv image_iff)
  then show ?case
    using Cons.IH [of "AList.update (it_id it) (it_msg it) m" "as_registered it g"] Cons.prems
      register_new_line [of it m "concat (map new_line its)" g]
    by (simp add: as_registered_def)
qed simp

text \<open>Every line that is not blank is \<open>name = number\<close>.\<close>

definition valid_line :: "string \<Rightarrow> bool" where
  "valid_line l \<longleftrightarrow> (let line = fst (split_comment l) in line = [] \<or> length (strings_Split line CHR ''='') = 2)"

lemma register_lines_append:
  "list_all valid_line xs \<Longrightarrow> register_lines (xs @ ys) m g =
    (case register_lines xs m g of None \<Rightarrow> None | Some (m, g) \<Rightarrow> register_lines ys m g)"
proof (induction xs arbitrary: m g)
  case (Cons l xs)
  obtain line c where l: "split_comment l = (line, c)" by fastforce
  show ?case using Cons by (auto simp: l valid_line_def Let_def split: option.splits)
qed simp

text \<open>The register of ids: what was read is at most the greatest id.\<close>

lemma register_lines_max:
  "register_lines ls m g = Some (m', g') \<Longrightarrow> \<forall>i \<in> fst ` set m. i \<le> gMaxMsgId g \<Longrightarrow> gAppendItems g' = gAppendItems g
    \<and> (\<forall>i \<in> fst ` set m'. i \<le> gMaxMsgId g')"
proof (induction ls arbitrary: m g)
  case (Cons l ls)
  obtain line c where l: "split_comment l = (line, c)" by fastforce
  let ?its = "strings_Split line CHR ''=''"
  let ?i = "read_id (?its ! 1)" and ?n = "TrimSpace (?its ! 0)"
  have upd: "fst ` set (AList.update ?i ?n m) = insert ?i (fst ` set m)"
    using dom_update [of ?i ?n m] by (simp add: dom_map_of_conv_image_fst)
  have "\<forall>i \<in> fst ` set (AList.update ?i ?n m). i \<le> gMaxMsgId (add_registered ?i ?n c g)"
    using Cons.prems(2) unfolding upd by (auto simp: add_registered_def)
  then show ?case
    using Cons.IH [of m g] Cons.IH [of "AList.update ?i ?n m" "add_registered ?i ?n c g"] Cons.prems
    by (auto simp: l Let_def add_registered_def split: if_splits)
qed simp

section \<open>A directory is the list of its declarations\<close>

fun entry_decls :: "dirent \<Rightarrow> go_decl list option"
and dir_decls :: "dirent list \<Rightarrow> go_decl list option" where
  "entry_decls (SubDir n ds) = dir_decls ds"
| "entry_decls (GoFile n f) = (if ToLower (file_ext n) = ''.go'' then f else Some [])"
| "dir_decls [] = Some []"
| "dir_decls (d # ds) = do { a \<leftarrow> entry_decls d; b \<leftarrow> dir_decls ds; Some (a @ b) }"

lemma load_is_fold:
  "load_entry d g = map_option (\<lambda>ds. fold add_decl ds g) (entry_decls d)"
  "loadProtoDir dir g = map_option (\<lambda>ds. fold add_decl ds g) (dir_decls dir)"
proof (induction d g and dir g rule: load_entry_loadProtoDir.induct)
  case (4 d ds g)
  then show ?case by (cases "entry_decls d"; cases "dir_decls ds") auto
qed (auto simp: loadProtoFile_def split: option.splits)

text \<open>Two states that differ in the comments only.\<close>

definition same_ids :: "gen \<Rightarrow> gen \<Rightarrow> bool" where
  "same_ids g h \<longleftrightarrow> gItemMap g = gItemMap h \<and> gMaxMsgId g = gMaxMsgId h
     \<and> map (\<lambda>it. (it_id it, it_msg it)) (gAllItems g) = map (\<lambda>it. (it_id it, it_msg it)) (gAllItems h)"

lemma same_ids_items: "same_ids g h \<Longrightarrow> map it_id (gAllItems h) = map it_id (gAllItems g)"
proof -
  assume "same_ids g h"
  then have "map fst (map (\<lambda>it. (it_id it, it_msg it)) (gAllItems g)) = map fst (map (\<lambda>it. (it_id it, it_msg it)) (gAllItems h))"
    by (simp only: same_ids_def)
  then show ?thesis by (simp add: comp_def)
qed

definition message_names :: "go_decl list \<Rightarrow> string set" where
  "message_names ds = {n. \<exists>d \<in> set ds. first_type (snd d) = Some n \<and> HasPrefix n ''Message''}"

lemma message_names_snoc:
  "message_names (ds @ [d]) = message_names ds \<union> {n. first_type (snd d) = Some n \<and> HasPrefix n ''Message''}"
  by (auto simp: message_names_def)

lemma next_id:
  fixes m :: u16
  assumes "unat m + 1 < 65536"
  shows "unat (m + 1) = unat m + 1" "m + 1 > m"
proof -
  show "unat (m + 1) = unat m + 1" using assms by (simp add: unat_word_ariths)
  then show "m + 1 > m" by (simp add: word_less_nat_alt)
qed

text \<open>
  What the declarations do: the new items are numbered upwards from the greatest id, their types
  are from the declarations, and registering the very same items leads to the same ids.
\<close>

lemma decls_number_upwards:
  assumes "fold add_decl ds g0 = g" and "gAppendItems g0 = []"
    and "unat (gMaxMsgId g0) + length (gAppendItems g) < 65536"
  shows "unat (gMaxMsgId g) = unat (gMaxMsgId g0) + length (gAppendItems g)
    \<and> map (\<lambda>it. unat (it_id it)) (gAppendItems g) = [Suc (unat (gMaxMsgId g0))..<Suc (unat (gMaxMsgId g))]
    \<and> same_ids (fold as_registered (gAppendItems g) g0) g
    \<and> (\<forall>it \<in> set (gAppendItems g). \<exists>d \<in> set ds. first_type (snd d) = Some (it_msg it)
          \<and> HasPrefix (it_msg it) ''Message'' \<and> it_comma it = fst d)
    \<and> (\<forall>n \<in> message_names ds. map_of (gItemMap g) n \<noteq> None)"
  using assms
proof (induction ds arbitrary: g rule: rev_induct)
  case Nil
  then show ?case by (auto simp: same_ids_def message_names_def)
next
  case (snoc d ds)
  define h where "h = fold add_decl ds g0"
  obtain doc specs where d: "d = (doc, specs)" by (cases d)
  have g: "g = add_decl d h" using snoc.prems(1) by (simp add: h_def)
  show ?case
  proof (cases "\<exists>n. first_type specs = Some n \<and> HasPrefix n ''Message'' \<and> map_of (gItemMap h) n = None")
    case False
    then have "g = h" by (auto simp: g d add_decl_def split: option.splits)
    then have IH: "unat (gMaxMsgId g) = unat (gMaxMsgId g0) + length (gAppendItems g)"
      "map (\<lambda>it. unat (it_id it)) (gAppendItems g) = [Suc (unat (gMaxMsgId g0))..<Suc (unat (gMaxMsgId g))]"
      "same_ids (fold as_registered (gAppendItems g) g0) g"
      "\<forall>it \<in> set (gAppendItems g). \<exists>d \<in> set ds. first_type (snd d) = Some (it_msg it)
          \<and> HasPrefix (it_msg it) ''Message'' \<and> it_comma it = fst d"
      "\<forall>n \<in> message_names ds. map_of (gItemMap g) n \<noteq> None"
      using snoc.IH [of g] snoc.prems h_def by auto
    moreover have "\<forall>n \<in> message_names (ds @ [d]). map_of (gItemMap g) n \<noteq> None"
      using IH(5) False \<open>g = h\<close> by (auto simp: message_names_snoc d)
    ultimately show ?thesis by auto
  next
    case True
    then obtain n where n: "first_type specs = Some n" "HasPrefix n ''Message''" "map_of (gItemMap h) n = None" by blast
    let ?i = "gMaxMsgId h + 1"
    let ?it = "\<lparr>it_id = ?i, it_msg = n, it_comma = doc\<rparr>"
    have g': "gMaxMsgId g = ?i" "gAllItems g = gAllItems h @ [?it]" "gAppendItems g = gAppendItems h @ [?it]"
        "gItemMap g = AList.update n ?i (gItemMap h)"
      using n by (simp_all add: g d add_decl_def Let_def)
    have IH: "unat (gMaxMsgId h) = unat (gMaxMsgId g0) + length (gAppendItems h)"
      "map (\<lambda>it. unat (it_id it)) (gAppendItems h) = [Suc (unat (gMaxMsgId g0))..<Suc (unat (gMaxMsgId h))]"
      "same_ids (fold as_registered (gAppendItems h) g0) h"
      "\<forall>it \<in> set (gAppendItems h). \<exists>d \<in> set ds. first_type (snd d) = Some (it_msg it)
          \<and> HasPrefix (it_msg it) ''Message'' \<and> it_comma it = fst d"
      "\<forall>n \<in> message_names ds. map_of (gItemMap h) n \<noteq> None"
      using snoc.IH [of h] snoc.prems g'(3) h_def by auto
    have i: "unat ?i = unat (gMaxMsgId h) + 1" "?i > gMaxMsgId h"
      using next_id [of "gMaxMsgId h"] snoc.prems(3) g'(3) IH(1) by auto
    have "same_ids (fold as_registered (gAppendItems g) g0) g"
      using IH(3) i(2) by (simp add: g' same_ids_def as_registered_def add_registered_def)
    moreover have "map (\<lambda>it. unat (it_id it)) (gAppendItems g) = [Suc (unat (gMaxMsgId g0))..<Suc (unat (gMaxMsgId g))]"
      using IH(1,2) i(1) by (simp add: g')
    moreover have "\<forall>x \<in> message_names (ds @ [d]). map_of (gItemMap g) x \<noteq> None"
      using IH(5) n by (auto simp: message_names_snoc d g' update_conv)
    ultimately show ?thesis using IH(1,4) i(1) n d by (auto simp: g')
  qed
qed

lemma known_decls_change_nothing:
  "\<forall>n \<in> message_names ds. map_of (gItemMap g) n \<noteq> None \<Longrightarrow> fold add_decl ds g = g"
proof (induction ds)
  case (Cons d ds)
  have "add_decl d g = g"
    using Cons.prems by (cases d) (auto simp: add_decl_def message_names_def split: option.splits)
  then show ?case using Cons by (simp add: message_names_def)
qed simp

lemma add_decl_appends: "\<exists>its. gAppendItems (fold add_decl ds g) = gAppendItems g @ its"
proof (induction ds arbitrary: g)
  case (Cons d ds)
  have "\<exists>its. gAppendItems (add_decl d g) = gAppendItems g @ its"
    by (cases d) (auto simp: add_decl_def Let_def split: option.splits)
  then show ?case using Cons.IH [of "add_decl d g"] by auto
qed simp

text \<open>A line that is no entry hides the rest of the register.\<close>

lemma invalid_line_hides_rest:
  "list_all valid_line xs \<Longrightarrow> \<not> valid_line l \<Longrightarrow> register_lines (xs @ l # ys) m g = register_lines xs m g"
  by (simp add: register_lines_append valid_line_def Let_def split_beta split: option.splits)

lemma register_lines_ids:
  "register_lines ls m g = Some (m', g') \<Longrightarrow> fst ` set m = it_id ` set (gAllItems g) \<Longrightarrow> distinct (map it_id (gAllItems g))
    \<Longrightarrow> fst ` set m' = it_id ` set (gAllItems g') \<and> distinct (map it_id (gAllItems g'))"
proof (induction ls arbitrary: m g)
  case (Cons l ls)
  obtain line c where l: "split_comment l = (line, c)" by fastforce
  let ?its = "strings_Split line CHR ''=''"
  let ?i = "read_id (?its ! 1)" and ?n = "TrimSpace (?its ! 0)"
  have upd: "fst ` set (AList.update ?i ?n m) = insert ?i (fst ` set m)"
    using dom_update [of ?i ?n m] by (simp add: dom_map_of_conv_image_fst)
  have new: "map_of m ?i = None \<longleftrightarrow> ?i \<notin> fst ` set m" by (simp add: map_of_eq_None_iff)
  show ?case
    using Cons.IH [of m g] Cons.IH [of "AList.update ?i ?n m" "add_registered ?i ?n c g"] Cons.prems upd new
    by (auto simp: l Let_def add_registered_def split: if_splits)
qed simp

lemma new_ids_unregistered:
  assumes "\<forall>i \<in> fst ` set m. i \<le> k" and ids: "map (\<lambda>it. unat (it_id it)) its = [Suc (unat k)..<n]"
  shows "distinct (map it_id its) \<and> (\<forall>it \<in> set its. map_of m (it_id it) = None)"
proof
  have "distinct (map unat (map it_id its))" using ids by (simp add: comp_def)
  then show "distinct (map it_id its)" by (auto simp: distinct_map intro: inj_on_imageI2)
  show "\<forall>it \<in> set its. map_of m (it_id it) = None"
  proof
    fix it assume "it \<in> set its"
    then have "unat (it_id it) \<in> set (map (\<lambda>it. unat (it_id it)) its)" by auto
    then have "unat (it_id it) > unat k" unfolding ids by auto
    then have "it_id it \<notin> fst ` set m" using assms(1) by (auto simp: word_le_nat_alt)
    then show "map_of m (it_id it) = None" by (simp add: map_of_eq_None_iff)
  qed
qed

text \<open>The register with what \<open>writerNewProto\<close> appends to it.\<close>

lemma extended_register:
  assumes "text_file text" and "list_all valid_line (ReadLines text)"
    and m: "register_lines (ReadLines text) [] gen_start = Some (m, g0)"
    and m': "register_lines (ReadLines (concat (map new_line (gAppendItems g)))) m g0 = Some (m', g2)"
  shows "loadRegisterFile (text @ writerNewProto g) gen_start = Some g2"
proof (cases "gAppendItems g = []")
  case True
  then show ?thesis using m m' by (simp add: loadRegisterFile_def writerNewProto_def)
next
  case False
  have blank: "register_lines ([] # ls) m g = register_lines ls m g" for ls m g
    by (simp add: split_comment_def TrimSpace_def trim_def)
  have "ReadLines (text @ writerNewProto g) = ReadLines text @ [] # ReadLines (concat (map new_line (gAppendItems g)))"
    using False ReadLines_text_file [OF assms(1)] ReadLines_line [of "[]"] by (simp add: writerNewProto_def chomp_def)
  then show ?thesis
    using m m' blank by (simp add: loadRegisterFile_def register_lines_append [OF assms(2)] del: register_lines.simps)
qed

lemma as_registered_appends_nothing: "gAppendItems (fold as_registered its g) = gAppendItems g"
  by (induction its arbitrary: g) (simp_all add: as_registered_def add_registered_def)

section \<open>Properties\<close>



text \<open>
  C35: ids are unique. Whatever the register and the Go files, as long as the 16-bit counter does not
  run over, no two messages share an id, and the new ones are numbered without gaps from the greatest
  registered id on. When it does run over, the next id is zero.
\<close>
theorem ids_are_unique:
  assumes "gen_main text dir = Some (out, text', g)" and "loadRegisterFile text gen_start = Some g0"
    and "unat (gMaxMsgId g0) + length (gAppendItems g) < 65536"
  shows "distinct (map it_id (gAllItems g))
    \<and> map (\<lambda>it. unat (it_id it)) (gAppendItems g)
        = [Suc (unat (gMaxMsgId g0))..<Suc (unat (gMaxMsgId g0) + length (gAppendItems g))]
    \<and> (gMaxMsgId h = 65535 \<and> HasPrefix n ''Message'' \<and> map_of (gItemMap h) n = None \<longrightarrow>
         map_of (gItemMap (add_decl (doc, [TypeSpec n]) h)) n = Some 0)"
proof -
  obtain m where m: "register_lines (ReadLines text) [] gen_start = Some (m, g0)"
    using assms(2) by (auto simp: loadRegisterFile_def)
  then have g0: "gAppendItems g0 = []" "\<forall>i \<in> fst ` set m. i \<le> gMaxMsgId g0"
      "fst ` set m = it_id ` set (gAllItems g0)" "distinct (map it_id (gAllItems g0))"
    using register_lines_max [OF m] register_lines_ids [OF m] by (auto simp: gen_start_def)
  obtain ds where ds: "g = fold add_decl ds g0"
    using assms(1,2) by (auto simp: gen_main_def load_is_fold split: bind_splits)
  note up = decls_number_upwards [OF ds [symmetric] g0(1) assms(3)]
  have ids: "map (\<lambda>it. unat (it_id it)) (gAppendItems g) = [Suc (unat (gMaxMsgId g0))..<Suc (unat (gMaxMsgId g))]"
    using up by blast
  then have "distinct (map unat (map it_id (gAppendItems g)))" by (simp add: comp_def)
  then have new: "distinct (map it_id (gAppendItems g))" by (auto simp: distinct_map intro: inj_on_imageI2)
  have gt: "unat (gMaxMsgId g0) < unat (it_id it)" if "it \<in> set (gAppendItems g)" for it
  proof -
    have "unat (it_id it) \<in> set (map (\<lambda>it. unat (it_id it)) (gAppendItems g))" using that by auto
    then show ?thesis unfolding ids by auto
  qed
  have "map it_id (gAllItems g) = map it_id (gAllItems (fold as_registered (gAppendItems g) g0))"
    using up by (simp add: same_ids_items)
  also have "\<dots> = map it_id (gAllItems g0) @ map it_id (gAppendItems g)"
  proof -
    have "map it_id (gAllItems (fold as_registered its h)) = map it_id (gAllItems h) @ map it_id its" for its h
      by (induction its arbitrary: h) (simp_all add: as_registered_def add_registered_def)
    then show ?thesis .
  qed
  finally have all: "map it_id (gAllItems g) = map it_id (gAllItems g0) @ map it_id (gAppendItems g)" .
  have "it_id ` set (gAllItems g0) \<inter> it_id ` set (gAppendItems g) = {}"
    using g0(2,3) gt by (fastforce simp: word_le_nat_alt)
  then have "distinct (map it_id (gAllItems g))" using all new g0(4) by simp
  moreover have "gMaxMsgId h = 65535 \<and> HasPrefix n ''Message'' \<and> map_of (gItemMap h) n = None \<longrightarrow>
      map_of (gItemMap (add_decl (doc, [TypeSpec n]) h)) n = Some 0"
    by (simp add: add_decl_def Let_def update_conv)
  ultimately show ?thesis using ids up by presburger
qed

theorem ids_are_unique_witness:
  "\<exists>out text' g. gen_main [] [GoFile ''a.go'' (Some [([], [TypeSpec ''MessageA'']), ([], [TypeSpec ''MessageB''])])]
      = Some (out, text', g)
    \<and> distinct (map it_id (gAllItems g)) \<and> map (\<lambda>it. unat (it_id it)) (gAppendItems g) = [1, 2]"
proof -
  let ?ds = "[([], [TypeSpec ''MessageA'']), ([], [TypeSpec ''MessageB''])]"
  let ?dir = "[GoFile ''a.go'' (Some ?ds)]"
  define g where "g = fold add_decl ?ds gen_start"
  have load: "loadRegisterFile [] gen_start = Some gen_start" by (simp add: loadRegisterFile_def)
  have two: "length (gAppendItems g) = 2"
    by (simp add: g_def add_decl_def gen_start_def HasPrefix_def Let_def update_conv)
  have start: "unat (gMaxMsgId gen_start) = 0" by (simp add: gen_start_def)
  have run: "gen_main [] ?dir = Some (genFile g, [] @ writerNewProto g, g)"
    using load by (simp add: gen_main_def load_is_fold g_def file_ext_def ToLower_def lower_def)
  have small: "unat (gMaxMsgId gen_start) + length (gAppendItems g) < 65536" using two start by simp
  show ?thesis
    using run ids_are_unique [OF run load small] two start by (simp add: upt_rec numeral_2_eq_2)
qed

end
