(* ===== verification/Serve.thy ===== *)
theory Serve
  imports Connection
begin

text \<open>
  \<open>TCPConnection.serve\<close> of \<open>base/network/tcpconnection.go\<close> with its handler: what a connection does
  from its start to its end, the deferred calls and the recovered panics included. A handler is
  three functions on a state \<open>'s\<close> that also say whether they panicked. The connection is part of
  that state, for the handler sends on it: \<open>on_conn\<close> applies an operation to it.

  The calls of one connection come one after the other from its own goroutine; what others do to the
  state in between is not part of a run here.
\<close>

section \<open>Handlers and the read loop\<close>

record 's tcp_handler =
  hd_Connect :: "'s \<Rightarrow> 's \<times> bool"
  hd_Receive :: "byte list \<Rightarrow> 's \<Rightarrow> 's \<times> bool"
  hd_Disconnect :: "'s \<Rightarrow> 's \<times> bool"

definition DefaultTCPHandler :: "'s tcp_handler" where
  "DefaultTCPHandler = \<lparr>hd_Connect = (\<lambda>s. (s, False)), hd_Receive = (\<lambda>b s. (s, False)), hd_Disconnect = (\<lambda>s. (s, False))\<rparr>"

type_synonym codec_read = "byte list \<Rightarrow> (codec_error + byte list) \<times> byte list"

partial_function (option) read_loop ::
  "codec_read \<Rightarrow> (byte list \<Rightarrow> 's \<Rightarrow> 's \<times> bool) \<Rightarrow> byte list \<Rightarrow> 's \<Rightarrow> ('s \<times> bool) option" where
  "read_loop rd receive r s =
     (case rd r of
        (Inl e, r') \<Rightarrow> Some (s, False)
      | (Inr b, r') \<Rightarrow>
          (case receive b s of
             (s, panicked) \<Rightarrow> if panicked then Some (s, True) else read_loop rd receive r' s))"

text \<open>
  The deferred calls, last first: \<open>Disconnect\<close> once \<open>Connect\<close> has returned, then
  \<open>stopBackgroundWrite\<close>, then the recovery and the close of the socket. A panic of \<open>Disconnect\<close> is
  recovered there, too.
\<close>

definition serve ::
  "((tcpconn \<Rightarrow> tcpconn) \<Rightarrow> 's \<Rightarrow> 's) \<Rightarrow> codec_read \<Rightarrow> 's tcp_handler option \<Rightarrow> byte list \<Rightarrow> 's \<Rightarrow> 's option" where
  "serve on_conn rd handler r s =
     (let h = (case handler of None \<Rightarrow> DefaultTCPHandler | Some h \<Rightarrow> h);
          (s, panicked) = hd_Connect h (on_conn startBackgroundWrite s)
      in map_option (\<lambda>s. on_conn conn_close (on_conn stopBackgroundWrite s))
           (if panicked then Some s
            else map_option (\<lambda>(s, _). fst (hd_Disconnect h s)) (read_loop rd (hd_Receive h) r s)))"

section \<open>Frame by frame\<close>

fun receive_frames :: "(byte list \<Rightarrow> 's \<Rightarrow> 's \<times> bool) \<Rightarrow> byte list list \<Rightarrow> 's \<Rightarrow> 's \<times> bool" where
  "receive_frames receive [] s = (s, False)"
| "receive_frames receive (b # bs) s =
     (case receive b s of (s, panicked) \<Rightarrow> if panicked then (s, True) else receive_frames receive bs s)"

text \<open>The handler gets the frames that the codec reads, up to a panic.\<close>

lemma read_loop_frames:
  "serve_read rd r = Some (bs, e) \<Longrightarrow> read_loop rd receive r s = Some (receive_frames receive bs s)"
proof (induction bs arbitrary: r s)
  case Nil
  then show ?case
    by (subst (asm) serve_read.simps, subst read_loop.simps) (auto split: sum.splits prod.splits Option.bind_splits)
next
  case (Cons b bs)
  obtain x r' where x: "rd r = (x, r')" by (cases "rd r")
  obtain s' p where p: "receive b s = (s', p)" by (cases "receive b s")
  have "x = Inr b \<and> serve_read rd r' = Some (bs, e)"
    using Cons.prems by (subst (asm) serve_read.simps) (auto simp: x split: sum.splits Option.bind_splits)
  then show ?case
    using Cons.IH [of r' s'] by (subst read_loop.simps) (cases p, simp_all add: x p)
qed

lemma serve_frames:
  assumes "serve_read rd r = Some (bs, e)" and "hd_Connect h (on_conn startBackgroundWrite s) = (s', False)"
  shows "serve on_conn rd (Some h) r s = Some (on_conn conn_close (on_conn stopBackgroundWrite
      (fst (hd_Disconnect h (fst (receive_frames (hd_Receive h) bs s'))))))"
  using assms by (simp add: serve_def read_loop_frames split_def)

section \<open>What a handler's state owes the connection\<close>

text \<open>\<open>conn_of\<close> finds the connection that \<open>on_conn\<close> works on.\<close>

locale conn_state =
  fixes conn_of :: "'s \<Rightarrow> tcpconn" and on_conn :: "(tcpconn \<Rightarrow> tcpconn) \<Rightarrow> 's \<Rightarrow> 's"
  assumes conn_of_on: "conn_of (on_conn f s) = f (conn_of s)"
begin

lemma serve_closes:
  assumes "serve on_conn rd handler r s = Some s'"
  shows "closed (conn_of s') \<and> sock_closed (conn_of s')"
proof -
  obtain q where "s' = on_conn conn_close (on_conn stopBackgroundWrite q)"
    using assms by (auto simp: serve_def Let_def split_def split: if_splits)
  then show ?thesis by (simp add: conn_of_on conn_close_def stopBackgroundWrite_def)
qed

text \<open>With the session codec \<open>serve\<close> returns on every stream, whatever the handler does.\<close>

lemma serve_returns: "\<exists>s'. serve on_conn SessionCodec_Read handler r s = Some s'"
proof -
  obtain bs e where "serve_read SessionCodec_Read r = Some (bs, e)"
    using session_framing.serve_total by blast
  then show ?thesis by (auto simp: serve_def Let_def split_def read_loop_frames)
qed

end

end
