(* ===== verification/EndToEnd.thy ===== *)
theory EndToEnd
  imports Serve GateProps
begin

text \<open>
  The components put together: the read loop of \<open>Serve\<close> with the handlers of the gate and of the
  router, over the session codec, and what one program sends to the other.
\<close>

section \<open>The handlers of the gate\<close>

definition on_gate_conn :: "nat \<Rightarrow> (tcpconn \<Rightarrow> tcpconn) \<Rightarrow> gate \<Rightarrow> gate" where
  "on_gate_conn cn f g = g\<lparr>conns := (conns g)(cn := f (conns g cn))\<rparr>"

text \<open>A panic of a handler is \<open>None\<close>; the state is then the one before the call.\<close>

definition or_panic :: "('s \<Rightarrow> 's option) \<Rightarrow> 's \<Rightarrow> 's \<times> bool" where
  "or_panic f s = (case f s of None \<Rightarrow> (s, True) | Some t \<Rightarrow> (t, False))"

text \<open>The client manager (\<open>gamegate/client.go\<close>) and a router (\<open>gamegate/router.go\<close>) as \<open>TCPHandler\<close>s.\<close>

definition client_handler :: "gate_env \<Rightarrow> nat \<Rightarrow> gate tcp_handler" where
  "client_handler env cn = \<lparr>hd_Connect = (\<lambda>g. (mgr_Connect env cn g, False)),
     hd_Receive = (\<lambda>b. or_panic (mgr_Receive env cn b)), hd_Disconnect = (\<lambda>g. (mgr_Disconnect cn g, False))\<rparr>"

definition router_handler :: "gate_env \<Rightarrow> nat \<Rightarrow> gate tcp_handler" where
  "router_handler env r = \<lparr>hd_Connect = (\<lambda>g. (g, False)),
     hd_Receive = (\<lambda>b. or_panic (router_Receive env r b)), hd_Disconnect = (\<lambda>g. (g, False))\<rparr>"

interpretation gate_conn: conn_state "\<lambda>g. conns g cn" "on_gate_conn cn"
  by unfold_locales (simp add: on_gate_conn_def)

section \<open>The listener of the router\<close>

definition on_router_conn :: "nat \<Rightarrow> (tcpconn \<Rightarrow> tcpconn) \<Rightarrow> router evloop \<Rightarrow> router evloop" where
  "on_router_conn s f l = l\<lparr>captured := on_session s (\<lambda>x. x\<lparr>s_conn := f (s_conn x)\<rparr>) (captured l)\<rparr>"

interpretation router_conn: conn_state "\<lambda>l. s_conn (sess (captured l) s)" "on_router_conn s"
  by unfold_locales (simp add: on_router_conn_def)

text \<open>
  \<open>SessionProxy\<close> around \<open>PortalListener\<close>: the session is made when the connection is, and what it
  lets through is posted to the loop. All messages arrive at the time \<open>now\<close>.
\<close>

definition portal_handler :: "router_env \<Rightarrow> nat \<Rightarrow> int \<Rightarrow> router evloop tcp_handler" where
  "portal_handler env s now = \<lparr>
     hd_Connect = (\<lambda>l. (l\<lparr>captured := on_session s (\<lambda>x. proxy_Connect (s_conn x)) (captured l)\<rparr>, False)),
     hd_Receive = (\<lambda>b l.
       let (d, x) = proxy_Receive now b (sess (captured l) s);
           l = l\<lparr>captured := on_session s (\<lambda>_. x) (captured l)\<rparr>
       in (case d of None \<Rightarrow> l | Some b \<Rightarrow> portal_Receive env s b l, False)),
     hd_Disconnect = (\<lambda>l. (portal_Disconnect s l, False))\<rparr>"

section \<open>Reading at the router\<close>

lemma proxy_unlimited: "limitPerSecond x = 0 \<Longrightarrow> proxy_Receive now b x = (Some b, x)"
  by (simp add: proxy_Receive_def receiveLimit_def)

lemma on_session_same: "on_session s (\<lambda>_. sess r s) r = r"
  by (simp add: on_session_def)

lemma portal_reads:
  assumes "limitPerSecond (sess (captured l) s) = 0"
  shows "receive_frames (hd_Receive (portal_handler env s now)) (map PackSSMessage ms) l
    = (fold (\<lambda>m. RunInLoop (portal_handleMessage env s m)) ms l, False)"
  using assms
proof (induction ms arbitrary: l)
  case (Cons m ms)
  have "hd_Receive (portal_handler env s now) (PackSSMessage m) l = (RunInLoop (portal_handleMessage env s m) l, False)"
    using Cons.prems
    by (simp add: portal_handler_def proxy_unlimited on_session_same portal_Receive_def UnpackSSMessage_Pack)
  then show ?case using Cons.IH [of "RunInLoop (portal_handleMessage env s m) l"] Cons.prems
    by (simp add: RunInLoop_def)
qed simp

lemma fold_RunInLoop:
  "functors (fold (\<lambda>m. RunInLoop (f m)) ms l) = functors l @ map f ms
    \<and> posted (fold (\<lambda>m. RunInLoop (f m)) ms l) = posted l @ map f ms
    \<and> captured (fold (\<lambda>m. RunInLoop (f m)) ms l) = captured l"
  by (induction ms arbitrary: l) (simp_all add: RunInLoop_def)

lemma serve_all_frames:
  "list_all fits bs \<Longrightarrow> serve_read SessionCodec_Read (concat (map frame bs)) = Some (bs, IoEOF)"
  by (rule session_framing.serve_all)

section \<open>Reading at the gate\<close>

fun gate_reads :: "gate_env \<Rightarrow> nat \<Rightarrow> byte list list \<Rightarrow> gate \<Rightarrow> gate option" where
  "gate_reads env r [] g = Some g"
| "gate_reads env r (m # ms) g = Option.bind (router_Receive env r m g) (gate_reads env r ms)"

lemma gate_reads_append: "gate_reads env r (ms @ ns) g = Option.bind (gate_reads env r ms g) (gate_reads env r ns)"
proof (induction ms arbitrary: g)
  case (Cons m ms)
  then show ?case by (cases "router_Receive env r m g") simp_all
qed simp

lemma gate_reads_frames:
  "gate_reads env r bs g = Some g' \<Longrightarrow> receive_frames (hd_Receive (router_handler env r)) bs g = (g', False)"
proof (induction bs arbitrary: g)
  case (Cons b bs)
  then obtain q where "router_Receive env r b g = Some q" "gate_reads env r bs q = Some g'"
    by (auto split: Option.bind_splits)
  then show ?case using Cons.IH by (simp add: router_handler_def or_panic_def)
qed simp

definition server_map :: "bool \<Rightarrow> gate \<Rightarrow> (u16 \<times> nat) list" where
  "server_map team g = (if team then crossRouterMgr g else routerMgr g)"

lemma server_map_simps [simp]: "server_map True g = crossRouterMgr g" "server_map False g = routerMgr g"
  by (simp_all add: server_map_def)

lemma Send_maps: "SendCSMsg a m g = Some (e, g') \<Longrightarrow> server_map team g' = server_map team g"
  by (auto simp: SendCSMsg_def gate_Send_def on_task_def server_map_def Let_def split_def
      split: Option.bind_splits option.splits if_splits)

lemma send_to_tasks_maps: "send_to_tasks m as g = Some g' \<Longrightarrow> server_map team g' = server_map team g"
proof (induction "as" arbitrary: g)
  case (Cons a "as")
  then obtain e q where "SendCSMsg a m g = Some (e, q)" "send_to_tasks m as q = Some g'"
    by (auto split: Option.bind_splits)
  then show ?case using Cons.IH [of q] Send_maps [of a m g e q team] by simp
qed simp

lemma dispatch_maps: "router_dispatch h b g = Some g' \<Longrightarrow> server_map team g' = server_map team g"
  using Send_maps send_to_tasks_maps
  by (auto simp: router_dispatch_def BroadcastMsg_def HookServerMessage_def Let_def
      split: option.splits if_splits Option.bind_splits)

text \<open>A message that is not news about the servers of a kind leaves their map alone.\<close>

lemma Receive_unsynced:
  assumes "router_Receive env r m g = Some g'" and "synced (decode_sync env) team m = None"
  shows "server_map team g' = server_map team g"
proof (cases "UnpackSSMessage m")
  case None
  then show ?thesis using assms(1) by (simp add: router_Receive_def)
next
  case (Some ss)
  obtain o' body where b: "SSMessageBody_UnMarshal (ss_Body ss) zero_body = (o', body)" by fastforce
  consider (msg) "SSCmd (ss_Head ss) = SSCMD_MSG" "router_dispatch (ss_Head ss) body g = Some g'"
    | (sync) u where "SSCmd (ss_Head ss) = SSCMD_SYNC" "o' = Ret u" "g' = router_sync env r body g" | (other) "g' = g"
    using assms(1) by (auto simp: router_Receive_def Some b split: outcome.splits if_splits)
  then show ?thesis
  proof cases
    case msg
    then show ?thesis by (simp add: dispatch_maps)
  next
    case sync
    show ?thesis
    proof (cases "decode_sync env (sb_Body body)")
      case None
      then show ?thesis by (simp add: sync(3) router_sync_def)
    next
      case (Some sy)
      have "(ServerType sy = EntityType_TeamSvr) \<noteq> team"
        using assms(2) \<open>UnpackSSMessage m = Some ss\<close> b sync Some by (auto simp: synced_def split: if_splits)
      then show ?thesis
        by (cases team)
          (auto simp: sync(3) router_sync_def Some AddCrossRouterServer_def AddRouterServer_def Let_def ServerClose_maps)
    qed
  qed simp
qed

lemma set_servers_distinct: "distinct (map fst m) \<Longrightarrow> distinct (map fst (set_servers ids r m))"
proof -
  assume "distinct (map fst m)"
  then have "distinct (map fst (filter (\<lambda>(_, v). v \<noteq> r) m))" by (rule distinct_map_filter)
  moreover have "distinct (map fst l) \<Longrightarrow> distinct (map fst (fold (\<lambda>i. AList.update (ucast i) r) ids l))" for l
    by (induction ids arbitrary: l) (simp_all add: distinct_update)
  ultimately show ?thesis by (simp add: set_servers_def)
qed

definition maps_ok :: "gate \<Rightarrow> bool" where
  "maps_ok g \<longleftrightarrow> distinct (map fst (routerMgr g)) \<and> distinct (map fst (crossRouterMgr g))"

lemma Receive_maps_ok:
  assumes "router_Receive env r m g = Some g'" and "maps_ok g"
  shows "maps_ok g'"
proof -
  have "distinct (map fst (server_map team g'))" for team
  proof (cases "synced (decode_sync env) team m")
    case None
    show ?thesis using Receive_unsynced [OF assms(1) None] assms(2) by (cases team) (simp_all add: maps_ok_def)
  next
    case (Some ids)
    from synced_Receive [OF this, of r g] assms(1) obtain body sync where
      "g' = router_sync env r body g" "decode_sync env (sb_Body body) = Some sync"
      "(ServerType sync = EntityType_TeamSvr) = team" by auto
    then show ?thesis
      using assms(2) by (cases team)
        (auto simp: router_sync_def AddCrossRouterServer_def AddRouterServer_def Let_def ServerClose_maps maps_ok_def
          set_servers_distinct)
  qed
  from this [of True] this [of False] show ?thesis by (simp add: maps_ok_def)
qed

text \<open>What the gate routes through a router is the last list it read of it.\<close>

lemma reads_view:
  assumes "gate_reads env r ms g = Some g'" and "maps_ok g" and "view (decode_sync env) team ms = Some ids"
  shows "behind team r g' = ucast ` set ids"
  using assms
proof (induction ms arbitrary: g' ids rule: rev_induct)
  case (snoc m ms)
  obtain q where q: "gate_reads env r ms g = Some q" "router_Receive env r m q = Some g'"
    using snoc.prems(1) by (auto simp: gate_reads_append split: Option.bind_splits)
  have ok: "maps_ok q" using q(1) snoc.prems(2)
  proof (induction ms arbitrary: g)
    case (Cons a ms)
    then show ?case using Receive_maps_ok by (auto split: Option.bind_splits)
  qed simp
  show ?case
  proof (cases "synced (decode_sync env) team m")
    case None
    then have "view (decode_sync env) team ms = Some ids" using snoc.prems(3) by (simp add: view_snoc)
    then have "behind team r q = ucast ` set ids" using snoc.IH [OF q(1) snoc.prems(2)] by simp
    then show ?thesis using Receive_unsynced [OF q(2) None] by (cases team) (simp_all add: behind_def)
  next
    case (Some js)
    then have "js = ids" using snoc.prems(3) by (simp add: view_snoc)
    then show ?thesis
      using sync_installs_the_list [OF Some, of q r] ok q(2) by (auto simp: maps_ok_def)
  qed
qed (simp add: view_def)

section \<open>A run\<close>

text \<open>The messages of the run of \<open>RouterProps\<close> are short, and a gate without players reads them all.\<close>

definition small :: "router \<Rightarrow> bool" where
  "small r \<longleftrightarrow> length (gameClients r) \<le> 1 \<and> length (teamClients r) \<le> 1
     \<and> (\<forall>s. \<forall>b \<in> set (accepted (s_conn (sess r s))). length b \<le> 100)"

lemma small_sends:
  "small r \<Longrightarrow> length (PackSSMessage m) \<le> 100 \<Longrightarrow> small (send_all m xs r)"
proof (induction xs arbitrary: r)
  case (Cons x xs)
  have "small (client_SendMsg c m r)" for c
    using Cons.prems by (auto simp: small_def session_Send_def Send_def)
  then show ?case using Cons.IH Cons.prems(2) by (simp add: split_beta)
qed simp

lemma small_pack:
  assumes "PackGameMessage demo_env r = Some m \<or> PackTeamMessage demo_env r = Some m" and "small r"
  shows "length (PackSSMessage m) \<le> 100"
proof -
  have pb: "Marshal f (pb_encode demo_env) init_processor x = Inr (b, i) \<Longrightarrow> length b = 4 + 4 * length (ServerIDs x)" for f x b i
    by (auto simp: Marshal_def demo_env_def demo_pb_def length_concat comp_def sum_list_triv split: option.splits)
  obtain x f b i body where x: "Marshal f (pb_encode demo_env) init_processor x = Inr (b, i)" "length (ServerIDs x) \<le> 1"
      "SSMessageBody_Marshal (zero_body\<lparr>sb_MessageID := i, sb_Body := b\<rparr>) = Ret body" "ss_Body m = body"
    using assms
    by (auto simp: PackGameMessage_def PackTeamMessage_def small_def Let_def demo_env_def split: sum.splits outcome.splits)
  then have "length body = 24 + length b" by (auto simp: SSMessageBody_Marshal_bytes body_head_def)
  then show ?thesis using pb [OF x(1)] x(2,4) by (simp add: PackSSMessage_def be_PutUint16_def Let_def)
qed

lemma small_send: "small r \<Longrightarrow> length (PackSSMessage m) \<le> 100 \<Longrightarrow> small (client_SendMsg c m r)"
  using small_sends [of r m "[(0, c)]"] by simp

lemma demo_portal_small: "small demo_portal"
proof -
  let ?r1 = "AddPortalClient 0 (on_session 0 (\<lambda>x. x\<lparr>Userdata := Some 0\<rparr>) (on_session 0 Verify
      (snd (newRouterClient 0 7 EntityType_Portal NewServer))))"
  have 1: "small ?r1"
    by (auto simp: small_def newRouterClient_def AddPortalClient_def NewServer_def newSession_def newTCPConnection_def
        on_session_def Verify_def stop_timer_def Let_def)
  let ?r2 = "case PackGameMessage demo_env ?r1 of Some m \<Rightarrow> client_SendMsg 0 m ?r1 | None \<Rightarrow> ?r1"
  have 2: "small ?r2" using 1 small_pack [OF _ 1] small_send [OF 1] by (auto split: option.split)
  have 3: "small (case PackTeamMessage demo_env ?r2 of Some m \<Rightarrow> client_SendMsg 0 m ?r2 | None \<Rightarrow> ?r2)"
    using 2 small_pack [OF _ 2] small_send [OF 2] by (auto split: option.split)
  have "portal_handleReady demo_env 0 (ready EntityType_Portal 7) NewServer
      = (case PackTeamMessage demo_env ?r2 of Some m \<Rightarrow> client_SendMsg 0 m ?r2 | None \<Rightarrow> ?r2)"
    by (simp add: portal_handleReady_def Let_def newRouterClient_def NewServer_def cong: option.case_cong)
  with 3 show ?thesis by (simp add: demo_portal_ready small_def)
qed

lemma demo_both_small: "small demo_both"
proof -
  let ?r1 = "AddGameClient 1 (on_session 1 (\<lambda>x. x\<lparr>Userdata := Some 1\<rparr>) (on_session 1 Verify
      (snd (newRouterClient 1 5 EntityType_GameSvr demo_portal))))"
  have "gameClients demo_portal = []" by (simp add: demo_tables)
  then have 1: "small ?r1"
    using demo_portal_small
    by (auto simp: small_def newRouterClient_def AddGameClient_def on_session_def Verify_def stop_timer_def Let_def nth_append
        demo_tables split: go_timer.split)
  have "internal_handleReady demo_env 1 (ready EntityType_GameSvr 5) demo_portal
      = (case PackGameMessage demo_env ?r1 of None \<Rightarrow> ?r1 | Some m \<Rightarrow> BroadcastPortals demo_env m ?r1)"
    by (simp add: internal_handleReady_def Let_def newRouterClient_def demo_tables cong: option.case_cong)
  moreover have "small (case PackGameMessage demo_env ?r1 of None \<Rightarrow> ?r1 | Some m \<Rightarrow> BroadcastPortals demo_env m ?r1)"
    using 1 small_pack [OF _ 1] small_sends [OF 1] by (auto simp: BroadcastPortals_def split: option.split)
  ultimately show ?thesis by (simp add: demo_both_ready)
qed

lemma gate_reads_without_clients: "mgr_clients g = [] \<Longrightarrow> \<exists>q. gate_reads env r ms g = Some q"
proof (induction ms arbitrary: g)
  case (Cons m ms)
  have closes: "mgr_clients (fold (\<lambda>i. ServerClose (f i)) is q) = mgr_clients q" for f :: "u32 \<Rightarrow> u16" and "is" q
  proof -
    have t: "mgr_clients (fold (\<lambda>a. TerminateClient a SESS_GAMESVR_CLOSE) as q) = mgr_clients q" for "as" q
      by (induction "as" arbitrary: q) simp_all
    show ?thesis by (induction "is" arbitrary: q) (simp_all add: ServerClose_def t)
  qed
  have sync: "mgr_clients (router_sync env r b g) = []" for b
    using Cons.prems by (simp add: router_sync_def AddRouterServer_def AddCrossRouterServer_def Let_def closes split: option.split)
  have dispatch: "router_dispatch h b g = Some g" for h b
    using Cons.prems by (simp add: router_dispatch_def GetByID_def BroadcastMsg_def Let_def)
  have "\<exists>q. router_Receive env r m g = Some q \<and> mgr_clients q = []"
  proof (cases "UnpackSSMessage m")
    case (Some ss)
    obtain x b where x: "SSMessageBody_UnMarshal (ss_Body ss) zero_body = (x, b)" by fastforce
    then have "x \<noteq> Panic" using SSMessageBody_UnMarshal_total [of "ss_Body ss" zero_body] by simp
    then show ?thesis using Some x Cons.prems by (cases x) (simp_all add: router_Receive_def dispatch sync)
  qed (simp add: router_Receive_def Cons.prems)
  then obtain q where "router_Receive env r m g = Some q" "mgr_clients q = []" by blast
  then show ?case using Cons.IH [of q] by simp
qed simp

section \<open>Properties\<close>

text \<open>
  C1: what is registered at the router is what the gate routes. Take any reachable state of the
  router and a portal registered there whose connection still accepts messages, and give the
  bytes of everything accepted for it to the gate's end: reading them through the session codec,
  the gate holds exactly the game servers and the team servers registered at that moment behind
  this router. The gate's handlers must not have panicked on the way (\<open>gate_reads\<close>), its maps must
  have had one entry per server, and protobuf must decode what it encoded.
\<close>

theorem gate_routes_what_is_registered:
  assumes "(router_step encode)\<^sup>*\<^sup>* NewServer r" and "pb_faithful encode (decode_sync env)"
    and "GetPortalClient i r = Some c" and "conn = s_conn (sess r (rc_session (rclients r ! c)))"
    and "\<not> closed conn" and "list_all fits (accepted conn)"
    and "gate_reads env rt (accepted conn) (on_gate_conn cn startBackgroundWrite g) = Some q"
    and "maps_ok g"
  shows "\<exists>g'. serve (on_gate_conn cn) SessionCodec_Read (Some (router_handler env rt))
        (concat (map frame (accepted conn))) g = Some g'
    \<and> behind False rt g' = {j. GetGameClient j r \<noteq> None}
    \<and> behind True rt g' = {j. GetTeamClient j r \<noteq> None}"
proof -
  let ?g = "on_gate_conn cn startBackgroundWrite g"
  obtain games teams where view: "view (decode_sync env) False (accepted conn) = Some games"
      "view (decode_sync env) True (accepted conn) = Some teams"
      "set games = {ucast j | j. GetGameClient j r \<noteq> None}" "set teams = {ucast j | j. GetTeamClient j r \<noteq> None}"
    using portals_view [OF assms(1-5)] by (elim exE conjE) (rule that)
  have "maps_ok ?g" using assms(8) by (simp add: maps_ok_def on_gate_conn_def)
  then have "behind False rt q = ucast ` set games" "behind True rt q = ucast ` set teams"
    using reads_view [OF assms(7) _ view(1)] reads_view [OF assms(7) _ view(2)] by simp_all
  moreover have "(ucast (ucast j :: u32) :: u16) = j" for j by (rule bit_word_eqI) (auto simp: bit_simps)
  then have ids: "(ucast :: u32 \<Rightarrow> u16) ` {ucast j | j. P j} = {j. P j}" for P
    by (simp only: setcompr_eq_image image_image image_ident)
  ultimately have q: "behind False rt q = {j. GetGameClient j r \<noteq> None}" "behind True rt q = {j. GetTeamClient j r \<noteq> None}"
    by (simp_all only: view(3,4) ids)
  have "serve (on_gate_conn cn) SessionCodec_Read (Some (router_handler env rt)) (concat (map frame (accepted conn))) g
      = Some (on_gate_conn cn conn_close (on_gate_conn cn stopBackgroundWrite q))"
    using serve_frames [OF serve_all_frames [OF assms(6)], of "router_handler env rt" "on_gate_conn cn" g ?g]
      gate_reads_frames [OF assms(7)] by (simp add: router_handler_def)
  then show ?thesis using q by (simp add: behind_def on_gate_conn_def)
qed

theorem gate_routes_what_is_registered_witness:
  "\<exists>g'. serve (on_gate_conn 9) SessionCodec_Read (Some (router_handler demo_gate_env 0))
        (concat (map frame (accepted (s_conn (sess demo_both 0))))) demo_gate = Some g' \<and> behind False 0 g' = {5}"
proof -
  have fits: "list_all fits (accepted (s_conn (sess demo_both 0)))"
    using demo_both_small by (fastforce simp: small_def list_all_iff fits_iff)
  have none: "mgr_clients (on_gate_conn 9 startBackgroundWrite demo_gate) = []" by (simp add: on_gate_conn_def demo_gate_def)
  obtain q where q: "gate_reads demo_gate_env 0 (accepted (s_conn (sess demo_both 0)))
      (on_gate_conn 9 startBackgroundWrite demo_gate) = Some q"
    using gate_reads_without_clients [of "on_gate_conn 9 startBackgroundWrite demo_gate"] none by blast
  have pb: "pb_faithful demo_pb (decode_sync demo_gate_env)" using demo_pb_faithful by (simp add: demo_gate_env_def)
  have c: "GetPortalClient 7 demo_both = Some 0" by (simp add: GetPortalClient_def demo_tables)
  have s: "s_conn (sess demo_both 0) = s_conn (sess demo_both (rc_session (rclients demo_both ! 0)))" by (simp add: demo_tables)
  have "maps_ok demo_gate" by (simp add: maps_ok_def demo_gate_def)
  from gate_routes_what_is_registered [OF demo_reachable(2) pb c s _ fits q this]
  show ?thesis by (auto simp: GetGameClient_def demo_tables)
qed

text \<open>
  C10: a gate's messages reach the loop of the router in order. Whatever messages a portal writes
  through the session codec, up to its limit, before it closes the connection: \<open>serve\<close> returns, it
  has posted to the event loop one call of the handler for each message, in the order written
  and with the message unchanged, then the handler of the disconnection, and nothing else; the
  connection is closed. With \<open>loop_serialises_handlers\<close> and \<open>close_drains_the_loop\<close> these calls
  are made one after the other, in this order.
\<close>

theorem portal_messages_reach_the_loop:
  assumes "list_all (\<lambda>m. fits (PackSSMessage m)) ms"
  shows "\<exists>l'. serve (on_router_conn s) SessionCodec_Read (Some (portal_handler env s now))
        (concat (map (\<lambda>m. frame (PackSSMessage m)) ms)) l = Some l'
    \<and> functors l' = functors l @ map (portal_handleMessage env s) ms @ [portal_handleClosed s]
    \<and> closed (s_conn (sess (captured l') s)) \<and> sock_closed (s_conn (sess (captured l') s))"
proof -
  have fits: "list_all fits (map PackSSMessage ms)" using assms by (simp add: list_all_iff)
  let ?l = "on_router_conn s startBackgroundWrite l"
  let ?q = "?l\<lparr>captured := on_session s (\<lambda>x. proxy_Connect (s_conn x)) (captured ?l)\<rparr>"
  have "limitPerSecond (sess (captured ?q) s) = 0" by (simp add: on_session_def proxy_Connect_def newSession_def)
  note reads = portal_reads [OF this, of env now ms]
  have "hd_Connect (portal_handler env s now) ?l = (?q, False)" by (simp add: portal_handler_def)
  note run = serve_frames [OF serve_all_frames [OF fits], of "portal_handler env s now" "on_router_conn s" l ?q, OF this]
  then obtain l' where
    l': "serve (on_router_conn s) SessionCodec_Read (Some (portal_handler env s now))
        (concat (map frame (map PackSSMessage ms))) l = Some l'"
      "functors l' = functors (portal_Disconnect s (fold (\<lambda>m. RunInLoop (portal_handleMessage env s m)) ms ?q))"
    unfolding reads by (simp add: on_router_conn_def portal_handler_def)
  moreover have "functors l' = functors l @ map (portal_handleMessage env s) ms @ [portal_handleClosed s]"
    using fold_RunInLoop [of "portal_handleMessage env s" ms ?q]
    by (simp add: l'(2) portal_Disconnect_def RunInLoop_def on_router_conn_def)
  moreover have "map (\<lambda>m. frame (PackSSMessage m)) ms = map frame (map PackSSMessage ms)" by simp
  ultimately show ?thesis using router_conn.serve_closes [OF l'(1)] by metis
qed

theorem portal_messages_reach_the_loop_witness:
  "\<exists>l'. serve (on_router_conn 3) SessionCodec_Read (Some (portal_handler demo_env 3 0))
      (frame (PackSSMessage (ready EntityType_Portal 7)) @ frame (PackSSMessage (ready EntityType_GameSvr 8)))
      (NewEventLoop NewServer) = Some l'
    \<and> functors l' = [portal_handleMessage demo_env 3 (ready EntityType_Portal 7),
        portal_handleMessage demo_env 3 (ready EntityType_GameSvr 8), portal_handleClosed 3]"
proof -
  have "list_all (\<lambda>m. fits (PackSSMessage m)) [ready EntityType_Portal 7, ready EntityType_GameSvr 8]"
    by (simp add: ready_def fits_iff PackSSMessage_def be_PutUint16_def Let_def)
  from portal_messages_reach_the_loop [OF this, of 3 demo_env 0 "NewEventLoop NewServer"] show ?thesis
    by (auto simp: NewEventLoop_def)
qed

text \<open>
  C39: nobody gets past the first message. Whatever bytes a player sends to the gate, the connection
  is served to its end without a client ever being added to the manager: the first complete
  message panics, because \<open>Connect\<close> leaves a pointer as owner and \<open>Receive\<close> asserts a value; the
  panic is recovered and the connection closed. No other connection is touched.
\<close>

theorem no_player_gets_in:
  "\<exists>g'. serve (on_gate_conn cn) SessionCodec_Read (Some (client_handler env cn)) stream g = Some g'
    \<and> mgr_clients g' = mgr_clients g \<and> svrList g' = svrList g
    \<and> closed (conns g' cn) \<and> sock_closed (conns g' cn) \<and> accepted (conns g' cn) = accepted (conns g cn)
    \<and> (\<exists>c. conns g' = (conns g)(cn := c))"
proof -
  obtain bs e where bs: "serve_read SessionCodec_Read stream = Some (bs, e)"
    using session_framing.serve_total by blast
  let ?g = "mgr_Connect env cn (on_gate_conn cn startBackgroundWrite g)"
  have "fst (receive_frames (hd_Receive (client_handler env cn)) bs ?g) = ?g"
    by (cases bs) (simp_all add: client_handler_def or_panic_def every_player_message_panics)
  with serve_frames [OF bs, of "client_handler env cn" "on_gate_conn cn" g ?g]
  have "serve (on_gate_conn cn) SessionCodec_Read (Some (client_handler env cn)) stream g
      = Some (on_gate_conn cn conn_close (on_gate_conn cn stopBackgroundWrite ?g))"
    by (simp add: client_handler_def mgr_Disconnect_def)
  then show ?thesis
    by (simp add: on_gate_conn_def mgr_Connect_def Let_def conn_close_def stopBackgroundWrite_def startBackgroundWrite_def fun_upd_upd)
    (blast intro: refl)?
qed

text \<open>
  C40: a gate cuts itself off from its router with its second registration. \<open>register\<close> sends READY
  every second as long as the connection takes it, so two rounds put the same message on the
  wire twice; the router, in whatever reachable state, takes the second for another portal of
  the same id and closes the session of the first, which is the one it came from.
\<close>

theorem second_registration_cuts_the_gate_off:
  assumes "(router_step encode)\<^sup>*\<^sup>* NewServer r" and "ok_env env" and "pb_encode env = encode"
    and "r_conn (routers g ! rt) = Some cn" and "\<not> closed (conns g cn)" and "accepted (conns g cn) = []"
  shows "\<exists>g' l. router_register 2 genv rt g = Some (None, g')
    \<and> l = fold (portal_Receive env s) (accepted (conns g' cn)) (NewEventLoop r) \<and> length (functors l) = 2
    \<and> closed (s_conn (sess (fold (\<lambda>f. f) (functors l) r) s))"
proof -
  let ?m = "register_message genv" let ?h = "portal_handleMessage env s"
  obtain g' where g': "router_register 2 genv rt g = Some (None, g')"
      "accepted (conns g' cn) = [PackSSMessage ?m, PackSSMessage ?m]"
    using register_repeats_for_ever [OF assms(4,5), of 2 genv] assms(6) by (auto simp: numeral_2_eq_2)
  have l: "functors (fold (portal_Receive env s) (accepted (conns g' cn)) (NewEventLoop r)) = [?h ?m, ?h ?m]"
    by (simp add: g'(2) portal_Receive_def UnpackSSMessage_Pack RunInLoop_def NewEventLoop_def)
  have cmd: "SSCmd (ss_Head ?m) = SSCMD_READY" by (simp add: register_message_def)
  let ?r = "?h ?m r"
  have reach: "(router_step encode)\<^sup>*\<^sup>* NewServer ?r"
    using assms(1) router_step.portal_message [OF assms(2,3)] by (rule rtranclp.rtrancl_into_rtrancl)
  have "?r = (portal_handleReady env s ?m r)\<lparr>msgToPortalCnt := msgToPortalCnt (portal_handleReady env s ?m r) + 1\<rparr>"
    by (simp add: portal_handleMessage_def cmd Let_def)
  then have "GetPortalClient (SrcID (ss_Head ?m)) ?r = Some (length (rclients r))"
      "rc_session (rclients ?r ! length (rclients r)) = s"
    using portal_ready [where r = r and s = s and env = env and msg = ?m] by (simp_all add: GetPortalClient_def)
  from repeated_ready_closes_itself [OF reach this refl, of env]
  have "closed (s_conn (sess (?h ?m ?r) s))" by (simp add: portal_handleMessage_def cmd Let_def)
  with g' l show ?thesis by auto
qed

theorem second_registration_cuts_the_gate_off_witness:
  "\<exists>g' l. router_register 2 demo_gate_env 0 demo_gate = Some (None, g')
    \<and> l = fold (portal_Receive demo_env 4) (accepted (conns g' 9)) (NewEventLoop NewServer) \<and> length (functors l) = 2
    \<and> closed (s_conn (sess (fold (\<lambda>f. f) (functors l) NewServer) 4))"
  by (rule second_registration_cuts_the_gate_off [OF rtranclp.rtrancl_refl demo_env_ok])
    (simp_all add: demo_gate_def newTCPConnection_def)

end
