(* ===== verification/Service.thy ===== *)
theory Service
  imports Prelude
begin

text \<open>
  \<open>base/service/service.go\<close>: the life of the services of a process. \<open>Run\<close> registers them, calls their
  \<open>Init\<close>, starts one goroutine for each, and then waits for signals: SIGHUP and SIGIO are passed on to
  every service, anything else stops the services from the last to the first.

  The main goroutine is a program counter. The goroutines share the loop variable \<open>s\<close> of \<open>onInit\<close>
  (the module is built for Go 1.13): what a goroutine runs is decided when it gets to read it
  (\<open>enter\<close>), and whose wait group it leaves when it reads it again (\<open>leave\<close>). A service is its place
  in \<open>services\<close>. A send on the unbuffered \<open>sig\<close> of a service needs a \<open>MainLoop\<close> of that service to
  receive it. The services' own methods are not part of the model: a \<open>MainLoop\<close> may return at any
  moment.
\<close>

datatype service_sig = SIG_STOP | SIG_RELOAD | SIG_REPORT

datatype goroutine = Ready | InMainLoop nat | Leaving | Gone

datatype main_pc =
    Starting nat                 \<comment> \<open>the iteration of the loop of \<open>onInit\<close>\<close>
  | Listening
  | Telling service_sig nat      \<comment> \<open>\<open>Reload\<close> and \<open>ReportState\<close>\<close>
  | Stopping nat | Waiting nat   \<comment> \<open>\<open>stop\<close>\<close>
  | Returned

record service_state =
  services :: nat                \<comment> \<open>their number\<close>
  loop_var :: nat
  main_pc :: main_pc
  goroutines :: "goroutine list"
  wg :: "nat \<Rightarrow> int"
  wg_panic :: bool               \<comment> \<open>a negative wait group\<close>
  destroyed :: "nat list"

definition Run :: "nat \<Rightarrow> service_state" where
  "Run n = \<lparr>services = n, loop_var = 0, main_pc = Starting 0, goroutines = [], wg = (\<lambda>_. 0), wg_panic = False,
     destroyed = []\<rparr>"

text \<open>One iteration of the second loop of \<open>onInit\<close>.\<close>

definition onInit_iteration :: "nat \<Rightarrow> service_state \<Rightarrow> service_state" where
  "onInit_iteration i s = s\<lparr>loop_var := i, wg := (wg s)(i := wg s i + 1), goroutines := goroutines s @ [Ready],
     main_pc := Starting (Suc i)\<rparr>"

definition wg_Done :: "nat \<Rightarrow> service_state \<Rightarrow> service_state" where
  "wg_Done i s = s\<lparr>wg := (wg s)(i := wg s i - 1), wg_panic := (wg_panic s \<or> wg s i \<le> 0)\<rparr>"

text \<open>The service after the one just stopped: the one before it, or the end.\<close>

definition stop_next :: "nat \<Rightarrow> main_pc" where
  "stop_next i = (case i of 0 \<Rightarrow> Returned | Suc j \<Rightarrow> Stopping j)"

definition tell_next :: "service_sig \<Rightarrow> nat \<Rightarrow> service_state \<Rightarrow> main_pc" where
  "tell_next sig i s = (if Suc i < services s then Telling sig (Suc i) else Listening)"

inductive service_step :: "service_state \<Rightarrow> service_state \<Rightarrow> bool" where
  iteration: "main_pc s = Starting i \<Longrightarrow> i < services s \<Longrightarrow> service_step s (onInit_iteration i s)"
| started: "main_pc s = Starting i \<Longrightarrow> \<not> i < services s \<Longrightarrow> service_step s (s\<lparr>main_pc := Listening\<rparr>)"
| enter: "j < length (goroutines s) \<Longrightarrow> goroutines s ! j = Ready \<Longrightarrow>
    service_step s (s\<lparr>goroutines := (goroutines s)[j := InMainLoop (loop_var s)]\<rparr>)"
| main_loop_returns: "j < length (goroutines s) \<Longrightarrow> goroutines s ! j = InMainLoop k \<Longrightarrow>
    service_step s (s\<lparr>goroutines := (goroutines s)[j := Leaving]\<rparr>)"
| leave: "j < length (goroutines s) \<Longrightarrow> goroutines s ! j = Leaving \<Longrightarrow>
    service_step s (wg_Done (loop_var s) (s\<lparr>goroutines := (goroutines s)[j := Gone]\<rparr>))"
| tell: "main_pc s = Listening \<Longrightarrow> services s > 0 \<Longrightarrow> sig \<in> {SIG_RELOAD, SIG_REPORT} \<Longrightarrow>
    service_step s (s\<lparr>main_pc := Telling sig 0\<rparr>)"
| told: "main_pc s = Telling sig i \<Longrightarrow> InMainLoop i \<in> set (goroutines s) \<Longrightarrow>
    service_step s (s\<lparr>main_pc := tell_next sig i s\<rparr>)"
| stop: "main_pc s = Listening \<Longrightarrow>
    service_step s (s\<lparr>main_pc := stop_next (services s)\<rparr>)"
| stop_received: "main_pc s = Stopping i \<Longrightarrow> InMainLoop i \<in> set (goroutines s) \<Longrightarrow>
    service_step s (s\<lparr>main_pc := Waiting i\<rparr>)"
| destroy: "main_pc s = Waiting i \<Longrightarrow> wg s i = 0 \<Longrightarrow>
    service_step s (s\<lparr>destroyed := destroyed s @ [i], main_pc := stop_next i\<rparr>)"

lemmas service_defs [model_defs] =
  Run_def onInit_iteration_def wg_Done_def stop_next_def tell_next_def

section \<open>One service\<close>

text \<open>With one service the goroutine can only run that one, and the wait group counts it.\<close>

definition single_inv :: "service_state \<Rightarrow> bool" where
  "single_inv s \<longleftrightarrow> services s = 1 \<and> loop_var s = 0 \<and> \<not> wg_panic s
     \<and> (case main_pc s of
          Starting i \<Rightarrow> if i = 0 then goroutines s = [] \<and> wg s 0 = 0 else i = 1 \<and> length (goroutines s) = 1
        | Telling sig i \<Rightarrow> i = 0 \<and> length (goroutines s) = 1
        | Stopping i \<Rightarrow> i = 0 \<and> length (goroutines s) = 1
        | Waiting i \<Rightarrow> i = 0 \<and> length (goroutines s) = 1
        | Returned \<Rightarrow> goroutines s = [Gone]
        | Listening \<Rightarrow> length (goroutines s) = 1)
     \<and> (goroutines s \<noteq> [] \<longrightarrow> hd (goroutines s) \<in> {Ready, InMainLoop 0, Leaving, Gone}
          \<and> wg s 0 = (if hd (goroutines s) = Gone then 0 else 1))
     \<and> destroyed s = (if main_pc s = Returned then [0] else [])"

lemma single_inv_start: "single_inv (Run 1)"
  by (simp add: single_inv_def service_defs)

lemma single_inv_step: "service_step s t \<Longrightarrow> single_inv s \<Longrightarrow> single_inv t"
  by (induction rule: service_step.induct)
    (auto simp: single_inv_def service_defs length_Suc_conv split: main_pc.splits if_splits)

lemma reachable_single_inv: "service_step\<^sup>*\<^sup>* (Run 1) s \<Longrightarrow> single_inv s"
  by (induction rule: rtranclp_induct) (rule single_inv_start, blast intro: single_inv_step)

text \<open>
  A process with one service, as all of this repository are, runs it properly: its goroutine runs its
  \<open>MainLoop\<close>, the wait group never goes negative, and \<open>Destroy\<close> is called once, after \<open>MainLoop\<close> has
  returned.
\<close>

lemma single_service_is_run_properly:
  assumes "service_step\<^sup>*\<^sup>* (Run 1) s"
  shows "\<not> wg_panic s \<and> set (goroutines s) \<subseteq> {Ready, InMainLoop 0, Leaving, Gone}
    \<and> (destroyed s \<noteq> [] \<longrightarrow> destroyed s = [0] \<and> goroutines s = [Gone])"
  using reachable_single_inv [OF assms]
  by (cases "goroutines s") (auto simp: single_inv_def length_Suc_conv split: main_pc.splits if_splits)

section \<open>Several services\<close>

lemma nobody_receives_step:
  assumes "service_step s t" and "main_pc s = Stopping i" and "loop_var s \<noteq> i" and "InMainLoop i \<notin> set (goroutines s)"
  shows "main_pc t = Stopping i \<and> loop_var t \<noteq> i \<and> InMainLoop i \<notin> set (goroutines t) \<and> destroyed t = destroyed s"
  using assms
  by (induction rule: service_step.induct) (auto simp: service_defs dest!: set_update_subset_insert [THEN subsetD])

text \<open>
  A stop that nobody receives hangs. When the process is to stop and has come to a service that no
  goroutine runs, while the loop variable names another, it waits for ever: no \<open>Destroy\<close> is called any
  more. That happens with two services when both goroutines read the loop variable after the loop:
  then both run the second service, and nobody the first.
\<close>
lemma stop_hangs_without_receiver:
  assumes "service_step\<^sup>*\<^sup>* s t" and "main_pc s = Stopping i" and "loop_var s \<noteq> i" and "InMainLoop i \<notin> set (goroutines s)"
  shows "main_pc t = Stopping i \<and> destroyed t = destroyed s"
proof -
  from assms(1) have "main_pc t = Stopping i \<and> loop_var t \<noteq> i \<and> InMainLoop i \<notin> set (goroutines t) \<and> destroyed t = destroyed s"
  proof (induction rule: rtranclp_induct)
    case (step x y)
    then show ?case using nobody_receives_step [of x y i] by simp
  qed (use assms(2-4) in simp)
  then show ?thesis by simp
qed

text \<open>Two services whose goroutines were late: the stop of the first never ends.\<close>

definition two_late :: "goroutine list \<Rightarrow> main_pc \<Rightarrow> (nat \<Rightarrow> int) \<Rightarrow> nat list \<Rightarrow> service_state" where
  "two_late gs pc w ds = \<lparr>services = 2, loop_var = 1, main_pc = pc, goroutines = gs, wg = w, wg_panic = False, destroyed = ds\<rparr>"

lemma two_late_reachable:
  "service_step\<^sup>*\<^sup>* (Run 2) (two_late [Gone, InMainLoop 1] (Stopping 0) ((\<lambda>_. 0)(0 := 1, 1 := 0)) [1])"
proof -
  let ?w2 = "(\<lambda>_. 0)(0 := 1, 1 := 1) :: nat \<Rightarrow> int" and ?w1 = "(\<lambda>_. 0)(0 := 1, 1 := 0) :: nat \<Rightarrow> int"
  have a: "service_step (Run 2) (onInit_iteration 0 (Run 2))"
    by (rule service_step.iteration) (simp_all add: service_defs)
  have b: "service_step (onInit_iteration 0 (Run 2)) (two_late [Ready, Ready] (Starting 2) ?w2 [])"
    using service_step.iteration [of "onInit_iteration 0 (Run 2)" 1] by (simp add: service_defs two_late_def numeral_2_eq_2)
  have c: "service_step (two_late [Ready, Ready] (Starting 2) ?w2 []) (two_late [Ready, Ready] Listening ?w2 [])"
    using service_step.started [of "two_late [Ready, Ready] (Starting 2) ?w2 []" 2] by (simp add: two_late_def)
  have d: "service_step (two_late [Ready, Ready] Listening ?w2 []) (two_late [InMainLoop 1, Ready] Listening ?w2 [])"
    using service_step.enter [of 0 "two_late [Ready, Ready] Listening ?w2 []"] by (simp add: two_late_def)
  have e: "service_step (two_late [InMainLoop 1, Ready] Listening ?w2 []) (two_late [InMainLoop 1, InMainLoop 1] Listening ?w2 [])"
    using service_step.enter [of 1 "two_late [InMainLoop 1, Ready] Listening ?w2 []"] by (simp add: two_late_def)
  have f: "service_step (two_late [InMainLoop 1, InMainLoop 1] Listening ?w2 []) (two_late [InMainLoop 1, InMainLoop 1] (Stopping 1) ?w2 [])"
    using service_step.stop [of "two_late [InMainLoop 1, InMainLoop 1] Listening ?w2 []"]
    by (simp add: two_late_def stop_next_def numeral_2_eq_2)
  have g: "service_step (two_late [InMainLoop 1, InMainLoop 1] (Stopping 1) ?w2 []) (two_late [InMainLoop 1, InMainLoop 1] (Waiting 1) ?w2 [])"
    using service_step.stop_received [of "two_late [InMainLoop 1, InMainLoop 1] (Stopping 1) ?w2 []" 1] by (simp add: two_late_def)
  have h: "service_step (two_late [InMainLoop 1, InMainLoop 1] (Waiting 1) ?w2 []) (two_late [Leaving, InMainLoop 1] (Waiting 1) ?w2 [])"
    using service_step.main_loop_returns [of 0 "two_late [InMainLoop 1, InMainLoop 1] (Waiting 1) ?w2 []" 1] by (simp add: two_late_def)
  have i: "service_step (two_late [Leaving, InMainLoop 1] (Waiting 1) ?w2 []) (two_late [Gone, InMainLoop 1] (Waiting 1) ?w1 [])"
    using service_step.leave [of 0 "two_late [Leaving, InMainLoop 1] (Waiting 1) ?w2 []"]
    by (simp add: two_late_def wg_Done_def)
  have j: "service_step (two_late [Gone, InMainLoop 1] (Waiting 1) ?w1 []) (two_late [Gone, InMainLoop 1] (Stopping 0) ?w1 [1])"
    using service_step.destroy [of "two_late [Gone, InMainLoop 1] (Waiting 1) ?w1 []" 1] by (simp add: two_late_def stop_next_def)
  show ?thesis using a b c d e f g h i j by (meson rtranclp.rtrancl_refl rtranclp.rtrancl_into_rtrancl)
qed

lemma stop_hangs_without_receiver_witness:
  "\<exists>s. service_step\<^sup>*\<^sup>* (Run 2) s \<and> (\<forall>t. service_step\<^sup>*\<^sup>* s t \<longrightarrow> main_pc t = Stopping 0 \<and> destroyed t = [1])"
proof (intro exI conjI allI impI)
  let ?s = "two_late [Gone, InMainLoop 1] (Stopping 0) ((\<lambda>_. 0)(0 := 1, 1 := 0)) [1]"
  show "service_step\<^sup>*\<^sup>* (Run 2) ?s" by (rule two_late_reachable)
  fix t
  assume "service_step\<^sup>*\<^sup>* ?s t"
  from stop_hangs_without_receiver [OF this, of 0]
  show "main_pc t = Stopping 0" and "destroyed t = [1]" by (simp_all add: two_late_def)
qed

end
