(* ===== verification/RouterProcess.thy ===== *)
theory RouterProcess
  imports RouterProps TcpServer Service
begin

text \<open>
  The router process, \<open>router/server.go\<close>: its two listeners, its event loop and the timer of the
  statistics, put together as one step relation. The goroutines of the connections post to the loop
  (\<open>Receive\<close> and \<open>Disconnect\<close> of the listeners), the goroutine of \<open>MainLoop\<close> runs what was posted, and
  the runtime fires the deadlines of sessions. What the handlers do to the router is thus done in
  steps of this relation only, which is shown to refine the relation \<open>router_step\<close> of \<open>RouterSync\<close>.
\<close>

record router_process =
  rp_loop :: "router evloop"
  rp_internal :: "tcpserver option"
  rp_portal :: "tcpserver option"

definition rp_NewServer :: router_process where
  "rp_NewServer = \<lparr>rp_loop = NewEventLoop NewServer, rp_internal = None, rp_portal = None\<rparr>"

text \<open>\<open>Start\<close> of the two listeners makes their servers; the goroutines run from then on.\<close>

definition internal_Start :: "router_process \<Rightarrow> router_process" where
  "internal_Start p = p\<lparr>rp_internal := Some NewTCPServer\<rparr>"

definition portal_Start :: "router_process \<Rightarrow> router_process" where
  "portal_Start p = p\<lparr>rp_portal := Some NewTCPServer\<rparr>"

definition rp_Init :: "router_process \<Rightarrow> router_process" where
  "rp_Init p = portal_Start (internal_Start p)"

definition rp_RunInLoop :: "(router \<Rightarrow> router) \<Rightarrow> router_process \<Rightarrow> router_process" where
  "rp_RunInLoop f p = p\<lparr>rp_loop := RunInLoop f (rp_loop p)\<rparr>"

definition rp_signal :: "service_sig \<Rightarrow> router_process \<Rightarrow> router_process" where
  "rp_signal ch p = (if ch = SIG_STOP then p\<lparr>rp_loop := ev_Close (rp_loop p)\<rparr> else p)"

definition on_captured :: "(router \<Rightarrow> router) \<Rightarrow> router_process \<Rightarrow> router_process" where
  "on_captured f p = p\<lparr>rp_loop := (rp_loop p)\<lparr>captured := f (captured (rp_loop p))\<rparr>\<rparr>"

text \<open>Nothing in the router closes a listener.\<close>

inductive rp_step :: "(MessageSyncServer \<Rightarrow> byte list option) \<Rightarrow> router_process \<Rightarrow> router_process \<Rightarrow> bool"
  for encode where
  internal_listener: "rp_internal p = Some t \<Longrightarrow> srv_step t t' \<Longrightarrow> srv_closed t' = srv_closed t
    \<Longrightarrow> rp_step encode p (p\<lparr>rp_internal := Some t'\<rparr>)"
| portal_listener: "rp_portal p = Some t \<Longrightarrow> srv_step t t' \<Longrightarrow> srv_closed t' = srv_closed t
    \<Longrightarrow> rp_step encode p (p\<lparr>rp_portal := Some t'\<rparr>)"
| internal_receive: "ok_env env \<Longrightarrow> pb_encode env = encode
    \<Longrightarrow> rp_step encode p (p\<lparr>rp_loop := internal_Receive env s b (rp_loop p)\<rparr>)"
| internal_disconnect: "ok_env env \<Longrightarrow> pb_encode env = encode
    \<Longrightarrow> rp_step encode p (p\<lparr>rp_loop := internal_Disconnect env s (rp_loop p)\<rparr>)"
| portal_receive: "ok_env env \<Longrightarrow> pb_encode env = encode
    \<Longrightarrow> rp_step encode p (p\<lparr>rp_loop := portal_Receive env s b (rp_loop p)\<rparr>)"
| portal_disconnect: "rp_step encode p (p\<lparr>rp_loop := portal_Disconnect s (rp_loop p)\<rparr>)"
| tick: "ok_env env \<Longrightarrow> rp_step encode p (rp_RunInLoop (Statistics env) p)"
| signal: "rp_step encode p (rp_signal ch p)"
| deadline: "rp_step encode p (on_captured (on_session s timer_fires) p)"
| arrival: "rp_step encode p (on_captured (on_session s (\<lambda>x. snd (proxy_Receive t b x))) p)"
| conn: "conn_step (s_conn (sess (captured (rp_loop p)) s)) c
    \<Longrightarrow> accepted c = accepted (s_conn (sess (captured (rp_loop p)) s))
    \<Longrightarrow> rp_step encode p (on_captured (on_session s (\<lambda>x. x\<lparr>s_conn := c\<rparr>)) p)"
| swap: "loop_ready (rp_loop p) \<Longrightarrow> rp_step encode p (p\<lparr>rp_loop := loop_swap (rp_loop p)\<rparr>)"
| call: "ev_pc (rp_loop p) = LoopRunning (f # rest) cl
    \<Longrightarrow> rp_step encode p (p\<lparr>rp_loop := loop_call f rest cl (rp_loop p)\<rparr>)"
| round_end: "ev_pc (rp_loop p) = LoopRunning [] cl
    \<Longrightarrow> rp_step encode p (p\<lparr>rp_loop := loop_round_end cl (rp_loop p)\<rparr>)"

section \<open>Everything in the queue is a handler\<close>

definition handlers :: "(MessageSyncServer \<Rightarrow> byte list option) \<Rightarrow> (router \<Rightarrow> router) set" where
  "handlers encode = {f. \<forall>r. router_step encode r (f r)}"

definition rp_inv :: "(MessageSyncServer \<Rightarrow> byte list option) \<Rightarrow> router_process \<Rightarrow> bool" where
  "rp_inv encode p \<longleftrightarrow> set (functors (rp_loop p)) \<subseteq> handlers encode
     \<and> set (loop_batch (ev_pc (rp_loop p))) \<subseteq> handlers encode
     \<and> (router_step encode)\<^sup>*\<^sup>* NewServer (captured (rp_loop p))"

lemma posts_handlers:
  "ok_env env \<Longrightarrow> pb_encode env = encode \<Longrightarrow> internal_handleMessage env s m \<in> handlers encode"
  "ok_env env \<Longrightarrow> pb_encode env = encode \<Longrightarrow> internal_handleClosed env s \<in> handlers encode"
  "ok_env env \<Longrightarrow> pb_encode env = encode \<Longrightarrow> portal_handleMessage env s m \<in> handlers encode"
  "portal_handleClosed s \<in> handlers encode" "ok_env env \<Longrightarrow> Statistics env \<in> handlers encode"
  by (auto simp: handlers_def intro: router_step.intros)

lemma rp_inv_post: "rp_inv encode p \<Longrightarrow> f \<in> handlers encode \<Longrightarrow> rp_inv encode (p\<lparr>rp_loop := RunInLoop f (rp_loop p)\<rparr>)"
  by (simp add: rp_inv_def RunInLoop_def)

lemma rp_inv_captured:
  "rp_inv encode p \<Longrightarrow> router_step encode (captured (rp_loop p)) (f (captured (rp_loop p))) \<Longrightarrow> rp_inv encode (on_captured f p)"
  by (auto simp: rp_inv_def on_captured_def intro: rtranclp.rtrancl_into_rtrancl)

lemma rp_inv_step: "rp_step encode p q \<Longrightarrow> rp_inv encode p \<Longrightarrow> rp_inv encode q"
proof (induction rule: rp_step.induct)
  case (internal_receive env p s b)
  then show ?case using rp_inv_post posts_handlers(1) by (auto simp: internal_Receive_def split: option.split)
next
  case (internal_disconnect env p s)
  then show ?case using rp_inv_post posts_handlers(2) by (simp add: internal_Disconnect_def)
next
  case (portal_receive env p s b)
  then show ?case using rp_inv_post posts_handlers(3) by (auto simp: portal_Receive_def split: option.split)
next
  case (portal_disconnect p s)
  then show ?case using rp_inv_post posts_handlers(4) by (simp add: portal_Disconnect_def)
next
  case (tick env p)
  then show ?case using rp_inv_post posts_handlers(5) by (simp add: rp_RunInLoop_def)
next
  case (signal p ch)
  then show ?case by (simp add: rp_inv_def rp_signal_def ev_Close_def)
next
  case (deadline p s)
  then show ?case by (rule rp_inv_captured) (rule router_step.deadline)
next
  case (arrival p s t b)
  then show ?case by (rule rp_inv_captured) (rule router_step.arrival)
next
  case (conn p s c)
  then show ?case by (intro rp_inv_captured router_step.conn)
next
  case (swap p)
  then show ?case by (simp add: rp_inv_def loop_swap_def)
next
  case (call p f rest cl)
  then have "router_step encode (captured (rp_loop p)) (f (captured (rp_loop p)))"
    by (simp add: rp_inv_def handlers_def)
  with call show ?case by (auto simp: rp_inv_def loop_call_def intro: rtranclp.rtrancl_into_rtrancl)
next
  case (round_end p cl)
  then show ?case by (simp add: rp_inv_def loop_round_end_def)
qed (simp_all add: rp_inv_def)

lemma rp_inv_start: "rp_inv encode (rp_Init rp_NewServer)"
  by (simp add: rp_inv_def rp_Init_def internal_Start_def portal_Start_def rp_NewServer_def NewEventLoop_def)

lemma reachable_rp_inv: "(rp_step encode)\<^sup>*\<^sup>* (rp_Init rp_NewServer) p \<Longrightarrow> rp_inv encode p"
  by (induction rule: rtranclp_induct) (rule rp_inv_start, blast intro: rp_inv_step)

text \<open>The listeners outlive the loop: a stopped router still accepts connections until the process ends.\<close>

lemma listeners_stay_open:
  "(rp_step encode)\<^sup>*\<^sup>* (rp_Init rp_NewServer) p \<Longrightarrow>
    \<exists>t u. rp_internal p = Some t \<and> rp_portal p = Some u \<and> \<not> srv_closed t \<and> \<not> srv_closed u"
proof (induction rule: rtranclp_induct)
  case base
  show ?case by (simp add: rp_Init_def internal_Start_def portal_Start_def NewTCPServer_def)
next
  case (step p q)
  from step(2) show ?case using step(3)
    by (induction rule: rp_step.induct) (auto simp: rp_RunInLoop_def rp_signal_def on_captured_def)
qed

section \<open>Properties\<close>


text \<open>A portal registers: its message is posted, the loop takes it and calls the handler.\<close>

definition demo_process :: router_process where
  "demo_process = (let p = rp_Init rp_NewServer; f = portal_handleMessage demo_env 0 (ready EntityType_Portal 7)
     in p\<lparr>rp_loop := loop_call f [] False (loop_swap (RunInLoop f (rp_loop p)))\<rparr>)"

lemma demo_process_reachable: "(rp_step demo_pb)\<^sup>*\<^sup>* (rp_Init rp_NewServer) demo_process"
proof -
  let ?p = "rp_Init rp_NewServer" and ?f = "portal_handleMessage demo_env 0 (ready EntityType_Portal 7)"
  let ?p1 = "?p\<lparr>rp_loop := RunInLoop ?f (rp_loop ?p)\<rparr>"
  let ?p2 = "?p\<lparr>rp_loop := loop_swap (RunInLoop ?f (rp_loop ?p))\<rparr>"
  have "rp_step demo_pb ?p ?p1"
    using rp_step.portal_receive [OF demo_env_ok, of ?p 0 "PackSSMessage (ready EntityType_Portal 7)"]
    by (simp add: portal_Receive_def UnpackSSMessage_Pack)
  moreover have "rp_step demo_pb ?p1 ?p2"
    using rp_step.swap [of ?p1 demo_pb]
    by (simp add: loop_ready_def RunInLoop_def rp_Init_def internal_Start_def portal_Start_def rp_NewServer_def NewEventLoop_def)
  moreover have "rp_step demo_pb ?p2 demo_process"
    using rp_step.call [of ?p2 ?f "[]" False demo_pb]
    by (simp add: demo_process_def Let_def loop_swap_def RunInLoop_def rp_Init_def internal_Start_def portal_Start_def
        rp_NewServer_def NewEventLoop_def)
  ultimately show ?thesis by (meson rtranclp.rtrancl_refl rtranclp.rtrancl_into_rtrancl)
qed


end
