(* ===== verification/RouterRun.thy ===== *)
theory RouterRun
  imports GateRun GateRouters
begin

text \<open>
  The goroutine that \<open>Router.Start\<close> of \<open>gamegate/router.go\<close> leaves behind, beside the one that runs
  \<open>DialAndServe\<close>: it waits for news of the connection, registers with the router for as long as
  sending succeeds, and takes the router's servers out when the client has given up. The router is
  the number \<open>r\<close> of the gate's objects; whether a \<open>Send\<close> succeeds is open while there is a
  connection. One round of \<open>register\<close> is one step, so a round can find the connection changed.
\<close>

datatype rr_pc = RrListening | RrWaiting | RrSending | RrDone | RrPanicked

record router_run =
  rr_client :: tcpclient
  rr_pc :: rr_pc
  rr_gate :: gate
  ready_sent :: "nat list"   \<comment> \<open>the connections READY was accepted for\<close>

definition router_Start :: "gate \<Rightarrow> router_run" where
  "router_Start g = \<lparr>rr_client = NewTCPClient 2, rr_pc = RrListening, rr_gate = g, ready_sent = []\<rparr>"

definition rr_receive :: "router_run \<Rightarrow> router_run" where
  "rr_receive x = x\<lparr>rr_client := (rr_client x)\<lparr>waiting := True, told := []\<rparr>, rr_pc := RrWaiting\<rparr>"

definition rr_told :: "nat \<Rightarrow> bool \<Rightarrow> router_run \<Rightarrow> router_run" where
  "rr_told r ok x =
     (if ok = False then x\<lparr>rr_gate := RemoveSvrs r (rr_gate x), rr_pc := RrDone\<rparr> else x\<lparr>rr_pc := RrSending\<rparr>)"

text \<open>\<open>GetConnection\<close> is nil between two connections, and \<open>Send\<close> on nil panics.\<close>

definition rr_send :: "bool \<Rightarrow> router_run \<Rightarrow> router_run" where
  "rr_send ok x =
     (case GetConnection (rr_client x) of
        None \<Rightarrow> x\<lparr>rr_pc := RrPanicked\<rparr>
      | Some k \<Rightarrow> if \<not> ok then x\<lparr>rr_pc := RrListening\<rparr> else x\<lparr>ready_sent := ready_sent x @ [k]\<rparr>)"

definition rr_alive :: "router_run \<Rightarrow> bool" where
  "rr_alive x \<longleftrightarrow> cli_pc (rr_client x) \<noteq> CliPanicked \<and> rr_pc x \<noteq> RrPanicked"

inductive rr_step :: "nat \<Rightarrow> router_run \<Rightarrow> router_run \<Rightarrow> bool" for r where
  client: "rr_alive x \<Longrightarrow> cli_step (rr_client x) c \<Longrightarrow> waiting c \<longrightarrow> waiting (rr_client x)
    \<Longrightarrow> rr_step r x (x\<lparr>rr_client := c\<rparr>)"
| receive: "rr_alive x \<Longrightarrow> rr_pc x = RrListening \<Longrightarrow> rr_step r x (rr_receive x)"
| told: "rr_alive x \<Longrightarrow> rr_pc x = RrWaiting \<Longrightarrow> told (rr_client x) = [ok] \<Longrightarrow> rr_step r x (rr_told r ok x)"
| send: "rr_alive x \<Longrightarrow> rr_pc x = RrSending \<Longrightarrow> rr_step r x (rr_send ok x)"

lemmas rr_defs [model_defs] = router_Start_def rr_receive_def rr_told_def rr_send_def rr_alive_def

text \<open>A registration that finds the connection gone takes the process down.\<close>

lemma registration_on_a_lost_connection_panics:
  "GetConnection (rr_client x) = None \<Longrightarrow> rr_pc (rr_send ok x) = RrPanicked"
  by (simp add: rr_send_def)

text \<open>
  The client reports a failure only once it is closed: a failed dial with a timeout never gets to
  report anything. So \<open>RemoveSvrs\<close> is called for a closed client only, and nothing in the gate closes
  the client of a router.
\<close>

definition rr_inv :: "router_run \<Rightarrow> bool" where
  "rr_inv x \<longleftrightarrow> timeout (rr_client x) > 0
     \<and> (False \<in> set (told (rr_client x)) \<or> rr_pc x = RrDone \<longrightarrow> cli_closed (rr_client x))"

lemma cli_step_reports:
  "cli_step c d \<Longrightarrow> timeout c > 0 \<Longrightarrow> False \<in> set (told c) \<longrightarrow> cli_closed c \<Longrightarrow>
    timeout d = timeout c \<and> (cli_closed c \<longrightarrow> cli_closed d) \<and> (False \<in> set (told d) \<longrightarrow> cli_closed d)"
  by (induction rule: cli_step.induct) (auto simp: cli_defs split: option.splits if_splits)

lemma rr_inv_step: "rr_step r x y \<Longrightarrow> rr_inv x \<Longrightarrow> rr_inv y"
proof (induction rule: rr_step.induct)
  case (client x c)
  then show ?case using cli_step_reports [of "rr_client x" c] by (auto simp: rr_inv_def)
qed (auto simp: rr_inv_def rr_defs split: option.splits)

lemma servers_are_removed_for_closed_clients_only:
  "(rr_step r)\<^sup>*\<^sup>* (router_Start g) x \<Longrightarrow> rr_pc x = RrDone \<Longrightarrow> cli_closed (rr_client x)"
proof -
  assume run: "(rr_step r)\<^sup>*\<^sup>* (router_Start g) x" and fin: "rr_pc x = RrDone"
  from run have "rr_inv x"
    by (induction rule: rtranclp_induct) (simp add: rr_inv_def rr_defs NewTCPClient_def, blast intro: rr_inv_step)
  then show ?thesis using fin by (simp add: rr_inv_def)
qed

lemma servers_stay_until_then:
  "(rr_step r)\<^sup>*\<^sup>* (router_Start g) x \<Longrightarrow> rr_pc x \<noteq> RrDone \<Longrightarrow> rr_gate x = g"
proof -
  have step: "rr_step r x y \<Longrightarrow> rr_pc y \<noteq> RrDone \<Longrightarrow> rr_pc x \<noteq> RrDone \<and> rr_gate y = rr_gate x" for x y
    by (induction rule: rr_step.induct) (auto simp: rr_defs split: option.splits if_splits)
  show "(rr_step r)\<^sup>*\<^sup>* (router_Start g) x \<Longrightarrow> rr_pc x \<noteq> RrDone \<Longrightarrow> rr_gate x = g"
    by (induction rule: rtranclp_induct) (simp add: router_Start_def, blast dest: step)
qed

end
