(* ===== verification/RedisPool.thy ===== *)
theory RedisPool
  imports RedisMutex
begin

text \<open>
  The connections to the two Redis servers and the reads made over them: \<open>base/dao/redis/redis.go\<close>
  and the names of \<open>rediskey.go\<close>. \<open>redigo\<close>, with its pool, is not part of the repository: the answer
  of a server to a command is the argument \<open>reply\<close>, and what the pool is asked to do is modelled, the
  dialling of a connection (\<open>Dial\<close>) and the check of an idle one (\<open>TestOnBorrow\<close>).
\<close>

section \<open>Dialling\<close>

datatype redis_command = AUTH string | SELECT int | PING

record dialled =
  issued :: "redis_command list"
  conn_open :: bool

text \<open>
  \<open>Dial\<close>: connect, authenticate if there is a password, choose the database if there is one to
  choose. On an error the connection is closed again. The second component is \<open>None\<close> when the dial
  itself failed.
\<close>

definition pool_Dial ::
  "(string \<Rightarrow> bool) \<Rightarrow> (redis_command \<Rightarrow> bool) \<Rightarrow> string \<Rightarrow> string \<Rightarrow> int \<Rightarrow> bool \<times> dialled option" where
  "pool_Dial dial reply addr auth index =
     (if \<not> dial addr then (False, None)
      else let auths = (if auth \<noteq> [] then [AUTH auth] else []);
               selects = (if index > 0 \<and> index < 16 then [SELECT index] else [])
           in if list_all reply auths then
                if list_all reply selects then (True, Some \<lparr>issued = auths @ selects, conn_open = True\<rparr>)
                else (False, Some \<lparr>issued = auths @ selects, conn_open = False\<rparr>)
              else (False, Some \<lparr>issued = auths, conn_open = False\<rparr>))"

text \<open>Idle for less than a second: no check; otherwise a PING. Times in milliseconds.\<close>

definition TestOnBorrow :: "(redis_command \<Rightarrow> bool) \<Rightarrow> nat \<Rightarrow> bool" where
  "TestOnBorrow reply idle = (if idle < 1000 then True else reply PING)"

text \<open>
  A connection is handed out only after every command was accepted, and no failed dial leaves one
  open. A database number outside 1 to 15 is not an error: database 0 is used.
\<close>

lemma pool_Dial_ok:
  "fst (pool_Dial dial reply addr auth index) \<longleftrightarrow>
     dial addr \<and> (auth \<noteq> [] \<longrightarrow> reply (AUTH auth)) \<and> (0 < index \<and> index < 16 \<longrightarrow> reply (SELECT index))"
  by (auto simp: pool_Dial_def Let_def)

lemma failed_dial_is_closed:
  "pool_Dial dial reply addr auth index = (False, Some d) \<Longrightarrow> \<not> conn_open d"
  by (auto simp: pool_Dial_def Let_def split: if_splits)

section \<open>Pools and reads\<close>

definition RedisServerTypeZone :: int where "RedisServerTypeZone = 1"
definition RedisServerTypeCross :: int where "RedisServerTypeCross = 2"

definition KeyTypeUser :: string where "KeyTypeUser = ''user''"
definition KeyTypeRedisMutex :: string where "KeyTypeRedisMutex = ''rmutex''"
definition KeySpecLoc :: string where "KeySpecLoc = ''loc''"
definition KeyToken :: string where "KeyToken = ''token''"
definition GameServerListInRedis :: string where "GameServerListInRedis = ''serverlist:game''"
definition RouterServerListInRedis :: string where "RouterServerListInRedis = ''serverlist:router''"
definition IMListInRedis :: string where "IMListInRedis = ''serverlist:im''"

lemmas redis_names = RedisServerTypeZone_def RedisServerTypeCross_def KeyTypeUser_def KeyTypeRedisMutex_def
  KeySpecLoc_def KeyToken_def GameServerListInRedis_def RouterServerListInRedis_def IMListInRedis_def

text \<open>The two servers: what GET and HGETALL answer, \<open>None\<close> for an error or a missing value.\<close>

record redis_server =
  GET :: "string \<Rightarrow> string option"
  HGETALL :: "string \<Rightarrow> (string \<times> string) list option"

record redisCache =
  pool :: redis_server
  crossPool :: redis_server

definition Pool :: "int \<Rightarrow> redisCache \<Rightarrow> redis_server" where
  "Pool redisType rc =
     (if redisType = RedisServerTypeZone then pool rc
      else if redisType = RedisServerTypeCross then crossPool rc
      else pool rc)"

definition getAccountToken :: "redisCache \<Rightarrow> nat \<Rightarrow> string option" where
  "getAccountToken rc accountID = GET (Pool RedisServerTypeZone rc) (redis_GenKey KeyTypeUser KeyToken accountID)"

text \<open>On an error the map is nil, which reads as an empty one.\<close>

definition refreshServerList :: "redisCache \<Rightarrow> int \<Rightarrow> string \<Rightarrow> (string \<times> string) list" where
  "refreshServerList rc redisType redisKey =
     (case HGETALL (Pool redisType rc) redisKey of Some m \<Rightarrow> m | None \<Rightarrow> [])"

definition RefreshGameSvr :: "redisCache \<Rightarrow> (string \<times> string) list" where
  "RefreshGameSvr rc = refreshServerList rc RedisServerTypeCross GameServerListInRedis"

definition RefreshIMSvr :: "redisCache \<Rightarrow> (string \<times> string) list" where
  "RefreshIMSvr rc = refreshServerList rc RedisServerTypeCross IMListInRedis"

definition RefreshZoneRouters :: "redisCache \<Rightarrow> (string \<times> string) list" where
  "RefreshZoneRouters rc = refreshServerList rc RedisServerTypeZone RouterServerListInRedis"

definition RefreshCrossRouters :: "redisCache \<Rightarrow> (string \<times> string) list" where
  "RefreshCrossRouters rc = refreshServerList rc RedisServerTypeCross RouterServerListInRedis"

text \<open>Keys of different users, or of different specs, never meet: the number has no colon in it.\<close>

lemma split_at_colon:
  "xs @ c # r = ys @ c # s \<Longrightarrow> c \<notin> set xs \<Longrightarrow> c \<notin> set ys \<Longrightarrow> xs = ys \<and> r = s"
proof (induction xs arbitrary: ys)
  case Nil
  then show ?case by (cases ys) auto
next
  case (Cons x xs)
  then show ?case by (cases ys) auto
qed

lemma show_nat_no_colon: "CHR '':'' \<notin> set (show_nat n)"
  using show_nat_char [of "CHR '':''" n] by auto

lemma show_nat_injective:
  assumes "show_nat m = show_nat n"
  shows "m = n"
proof -
  have "parse_digits 10 False (max m n) (show_nat m) 0 = (m, None)"
    "parse_digits 10 False (max m n) (show_nat n) 0 = (n, None)"
    by (rule parse_show_nat, rule max.cobounded1, rule parse_show_nat, rule max.cobounded2)
  then show ?thesis unfolding assms by (simp only: prod.inject)
qed

lemma GenKey_injective:
  assumes "redis_GenKey kt ks i = redis_GenKey kt' ks' j" and "CHR '':'' \<notin> set kt" and "CHR '':'' \<notin> set kt'"
  shows "kt = kt' \<and> ks = ks' \<and> i = j"
proof -
  have kt: "kt = kt'" and rest: "show_nat i @ CHR '':'' # ks = show_nat j @ CHR '':'' # ks'"
    using split_at_colon [of kt "CHR '':''" "show_nat i @ CHR '':'' # ks" kt' "show_nat j @ CHR '':'' # ks'"] assms
    by (auto simp: redis_GenKey_def)
  from split_at_colon [OF rest show_nat_no_colon show_nat_no_colon] show_nat_injective kt show ?thesis by blast
qed

end
