(* ===== verification/GateServer.thy ===== *)
theory GateServer
  imports GateProps RedisPool TcpServer Service
begin

text \<open>
  The gate process, \<open>gamegate/server.go\<close>: what \<open>Init\<close> sets up, the refresh of the three server lists
  that runs every thirty seconds, and the end of the process. It composes the listener
  (\<open>TcpServer\<close>), the gate's managers (\<open>GateClients\<close>, \<open>GateRouters\<close>, \<open>GateIM\<close>) and the lists kept in
  Redis (\<open>RedisPool\<close>). The goroutines that \<open>Start\<close> leaves behind are those of \<open>GateRun\<close>.
\<close>

section \<open>State and operations\<close>

record gate_server =
  gs_tcpServer :: "tcpserver option"
  gs_isClosed :: bool
  gs_DieChan_closed :: bool
  gs_gate :: gate

text \<open>The two readings of JSON that the refreshes use.\<close>

record gate_json =
  parse_ints :: "string \<Rightarrow> (string \<times> int) list option"
  parse_im :: "string \<Rightarrow> json_im"

definition empty_gate :: gate where
  "empty_gate = \<lparr>conns = (\<lambda>_. newTCPConnection), conn_owners = (\<lambda>_. NoOwner), tasks = [], mgr_clients = [],
     routers = [], routerMgr = [], crossRouterMgr = [], routerMap = [], svrList = [], teamIds = [],
     imsvrs = [], ims = [], imMap = [], hashRing = None\<rparr>"

definition gate_NewServer :: gate_server where
  "gate_NewServer = \<lparr>gs_tcpServer = None, gs_isClosed = False, gs_DieChan_closed = False, gs_gate = empty_gate\<rparr>"

text \<open>\<open>None\<close> is the panic of a type assertion in \<open>refreshIMSvrList\<close>.\<close>

definition RefreshServerList ::
  "gate_env \<Rightarrow> gate_json \<Rightarrow> redisCache \<Rightarrow> gate_server \<Rightarrow> gate_server option" where
  "RefreshServerList env js rc s =
     (if gs_isClosed s then Some s
      else
        let g = refreshGameSvrList env (parse_ints js) (RefreshGameSvr rc) (gs_gate s)
        in case refreshIMSvrList env (parse_im js) (RefreshIMSvr rc) g of
             None \<Rightarrow> None
           | Some g \<Rightarrow>
               Some (s\<lparr>gs_gate := refreshRouterSvrList env (parse_ints js) (RefreshZoneRouters rc)
                                    (RefreshCrossRouters rc) g\<rparr>))"

text \<open>
  The timer of \<open>Init\<close>, \<open>util.TimeInterval\<close> with \<open>RefreshServerList\<close>: whether it still runs, and the
  process, after the ticks that found these lists. A panic is recovered outside of the loop, so
  it ends the timer, and with it go the two refreshes that had not been reached.
\<close>

fun refresh_timer :: "(gate_env \<times> gate_json \<times> redisCache) list \<Rightarrow> gate_server \<Rightarrow> bool \<times> gate_server" where
  "refresh_timer [] s = (True, s)"
| "refresh_timer ((env, js, rc) # ticks) s =
     (case RefreshServerList env js rc s of
        Some s \<Rightarrow> refresh_timer ticks s
      | None \<Rightarrow> (False, s\<lparr>gs_gate := refreshGameSvrList env (parse_ints js) (RefreshGameSvr rc) (gs_gate s)\<rparr>))"

text \<open>A failure of \<open>RouterInit\<close> is only logged.\<close>

definition gate_Init ::
  "string list \<Rightarrow> string list \<Rightarrow> gate_env \<Rightarrow> gate_json \<Rightarrow> redisCache \<Rightarrow> gate_server \<Rightarrow> gate_server option" where
  "gate_Init routerAddrs crossRouterAddrs env js rc s =
     RefreshServerList env js rc
       (s\<lparr>gs_tcpServer := Some NewTCPServer,
          gs_gate := snd (RouterInit routerAddrs crossRouterAddrs (gs_gate s))\<rparr>)"

text \<open>\<open>None\<close>: a nil listener, or the second close of \<open>DieChan\<close>.\<close>

definition gate_Terminate :: "gate_server \<Rightarrow> gate_server option" where
  "gate_Terminate s =
     (let s = s\<lparr>gs_isClosed := True\<rparr>
      in case gs_tcpServer s of
           None \<Rightarrow> None
         | Some ts \<Rightarrow>
             let s = s\<lparr>gs_tcpServer := Some (srv_Close ts)\<rparr>
             in if gs_DieChan_closed s then None
                else Some (s\<lparr>gs_DieChan_closed := True, gs_gate := mgr_Close (gs_gate s)\<rparr>))"

text \<open>The goroutine of \<open>MainLoop\<close>: whether it goes on, and the process after the signals it received.\<close>

fun main_loop_signals :: "service_sig list \<Rightarrow> gate_server \<Rightarrow> (bool \<times> gate_server) option" where
  "main_loop_signals [] s = Some (True, s)"
| "main_loop_signals (ch # rest) s =
     (if ch = SIG_STOP then (case gate_Terminate s of None \<Rightarrow> None | Some s \<Rightarrow> Some (False, s))
      else main_loop_signals rest s)"

text \<open>Only the first SIG_STOP is heard, so \<open>DieChan\<close> is closed once and \<open>Terminate\<close> cannot panic.\<close>

lemma Terminate_after_Init:
  assumes "gate_Init ra ca env js rc gate_NewServer = Some s"
  shows "\<exists>s'. gate_Terminate s = Some s'"
  using assms by (auto simp: gate_Init_def gate_NewServer_def RefreshServerList_def gate_Terminate_def Let_def split: option.splits)

lemma signals_stop_once:
  assumes "gate_Init ra ca env js rc gate_NewServer = Some s"
  shows "main_loop_signals sigs s
    = (if SIG_STOP \<in> set sigs then Some (False, the (gate_Terminate s)) else Some (True, s))"
  using Terminate_after_Init [OF assms] by (induction sigs) auto

section \<open>The end of the process\<close>

lemma Shutdown_closed: "closed c \<Longrightarrow> closed (Shutdown c)"
  by (simp add: Shutdown_def stopBackgroundWrite_def Let_def)

lemma mgr_Close_fold:
  assumes "a \<in> set as \<or> closed (conns g (ct_conn (tasks g ! a)))"
  shows "closed (conns (fold (\<lambda>a. TerminateClient a flag) as g) (ct_conn (tasks g ! a)))"
  using assms
proof (induction as arbitrary: g)
  case (Cons b as)
  have "closed (conns (TerminateClient b flag g) (ct_conn (tasks g ! a)))"
    if "b = a \<or> closed (conns g (ct_conn (tasks g ! a)))"
    using that Terminate_fields(5) [of b flag g]
    by (auto simp: TerminateClient_def task_Close_def Let_def Shutdown_closed)
  then show ?case using Cons.IH [of "TerminateClient b flag g"] Cons.prems by auto
qed simp

lemma mgr_Close_closes:
  assumes "(acc, a) \<in> set (mgr_clients g)"
  shows "closed (conns (mgr_Close g) (ct_conn (tasks g ! a)))"
proof -
  have "mgr_Close g = fold (\<lambda>a. TerminateClient a (SESS_GAMESVR_CLOSE OR SESS_KICKED_OUT)) (map snd (mgr_clients g)) g"
    by (simp add: mgr_Close_def fold_map comp_def split_def)
  moreover have "a \<in> set (map snd (mgr_clients g))" using assms by force
  ultimately show ?thesis using mgr_Close_fold by simp
qed

section \<open>Routers\<close>

text \<open>The routers whose goroutine has not taken them out; \<open>gone\<close> are the others.\<close>

definition live :: "nat set \<Rightarrow> gate \<Rightarrow> nat set" where
  "live gone g = {i. i < length (routers g) \<and> i \<notin> gone}"

abbreviation addr_of :: "gate \<Rightarrow> nat \<Rightarrow> string" where
  "addr_of g i \<equiv> r_addr (routers g ! i)"

definition router_inv :: "nat set \<Rightarrow> gate \<Rightarrow> bool" where
  "router_inv gone g \<longleftrightarrow> inj_on (addr_of g) (live gone g) \<and> addr_of g ` live gone g = dom (map_of (routerMap g))
     \<and> (\<forall>i \<in> gone. i < length (routers g))"

lemma router_inv_cong:
  "routers g' = routers g \<Longrightarrow> routerMap g' = routerMap g \<Longrightarrow> router_inv gone g' = router_inv gone g"
  by (simp add: router_inv_def live_def)

lemma router_inv_new:
  assumes "router_inv gone g" and "map_of (routerMap g) addr = None"
  shows "router_inv gone (snd (NewRouter addr (g\<lparr>routerMap := AList.update addr True (routerMap g)\<rparr>)))"
proof -
  let ?g = "snd (NewRouter addr (g\<lparr>routerMap := AList.update addr True (routerMap g)\<rparr>))"
  let ?n = "length (routers g)"
  have live: "live gone ?g = insert ?n (live gone g)"
    using assms(1) by (auto simp: live_def router_inv_def NewRouter_def)
  have addr: "addr_of ?g ?n = addr" "\<And>i. i \<in> live gone g \<Longrightarrow> addr_of ?g i = addr_of g i"
    by (auto simp: NewRouter_def nth_append live_def)
  then have image: "addr_of ?g ` live gone g = addr_of g ` live gone g" by (rule_tac image_cong) simp_all
  have "addr \<notin> addr_of g ` live gone g" using assms by (auto simp: router_inv_def dom_def)
  moreover have "inj_on (addr_of ?g) (live gone g)"
    using assms(1) addr(2) by (auto simp: router_inv_def inj_on_def)
  moreover have "?n \<notin> live gone g" by (simp add: live_def)
  ultimately have "inj_on (addr_of ?g) (live gone ?g)"
    unfolding live inj_on_insert using image addr(1) by simp
  moreover have "addr_of ?g ` live gone ?g = dom (map_of (routerMap ?g))"
    unfolding live image_insert addr(1) image
    using assms(1) by (auto simp: router_inv_def NewRouter_def AList.update_conv' dom_def)
  ultimately show ?thesis using assms(1) by (auto simp: router_inv_def NewRouter_def)
qed

lemma router_inv_lost:
  assumes "router_inv gone g" and "r \<in> live gone g"
  shows "router_inv (insert r gone) (RemoveSvrs r g)"
proof -
  let ?g = "RemoveSvrs r g"
  have r: "routers ?g = routers g" "routerMap ?g = AList.delete (addr_of g r) (routerMap g)"
    by (simp_all add: RemoveSvrs_def Let_def)
  have live: "live (insert r gone) ?g = live gone g - {r}" by (auto simp: live_def r)
  have inj: "inj_on (addr_of g) (live gone g)" using assms(1) by (simp add: router_inv_def)
  then have "addr_of g ` (live gone g - {r}) = addr_of g ` live gone g - {addr_of g r}"
    using assms(2) by (auto simp: inj_on_def)
  also have "\<dots> = dom (map_of (routerMap ?g))"
    using assms(1) by (simp add: router_inv_def r delete_conv' dom_def) auto
  finally have "addr_of g ` (live gone g - {r}) = dom (map_of (routerMap ?g))" .
  moreover have "inj_on (addr_of g) (live gone g - {r})" by (rule inj_on_subset [OF inj]) blast
  moreover have "\<forall>i \<in> insert r gone. i < length (routers g)" using assms by (simp add: router_inv_def live_def)
  ultimately show ?thesis unfolding router_inv_def live by (simp only: r(1))
qed

lemma router_inv_refresh: "router_inv gone g \<Longrightarrow> router_inv gone (refresh_routers env parse svrMap g)"
proof (induction svrMap arbitrary: g)
  case (Cons p rest)
  obtain addr d where p: "p = (addr, d)" by (cases p)
  show ?case
  proof (cases "parse d = None \<or> env_now env - json_int (the (parse d)) ''timestamp'' > 15
      \<or> map_of (routerMap g) addr \<noteq> None")
    case True
    then have "refresh_routers env parse (p # rest) g = refresh_routers env parse rest g"
      by (auto simp: refresh_routers_def p split: option.split)
    then show ?thesis using Cons by simp
  next
    case False
    then have "refresh_routers env parse (p # rest) g
        = refresh_routers env parse rest (snd (NewRouter addr (g\<lparr>routerMap := AList.update addr True (routerMap g)\<rparr>)))"
      by (auto simp: refresh_routers_def p)
    then show ?thesis using Cons.IH router_inv_new [OF Cons.prems] False by simp
  qed
qed (simp add: refresh_routers_def)

lemma start_im_routers: "routers (fold start_im l g) = routers g \<and> routerMap (fold start_im l g) = routerMap g"
  by (induction l arbitrary: g) (auto simp: start_im_def)

lemma refreshIM_routers:
  "refreshIMSvrList env parse svrMap g = Some g' \<Longrightarrow> routers g' = routers g \<and> routerMap g' = routerMap g"
  using start_im_routers
  by (auto simp: refreshIMSvrList_def Let_def split: option.splits if_splits)

lemma router_inv_RefreshServerList:
  assumes "router_inv gone (gs_gate s)" and "RefreshServerList env js rc s = Some s'"
  shows "router_inv gone (gs_gate s')"
proof (cases "gs_isClosed s")
  case False
  let ?g = "refreshGameSvrList env (parse_ints js) (RefreshGameSvr rc) (gs_gate s)"
  obtain g where g: "refreshIMSvrList env (parse_im js) (RefreshIMSvr rc) ?g = Some g"
      and s': "gs_gate s' = refreshRouterSvrList env (parse_ints js) (RefreshZoneRouters rc) (RefreshCrossRouters rc) g"
    using assms(2) False by (auto simp: RefreshServerList_def Let_def split: option.splits)
  have "router_inv gone g"
    using router_inv_cong [OF conjunct1 [OF refreshIM_routers [OF g]] conjunct2 [OF refreshIM_routers [OF g]]] assms(1)
    by (simp add: router_inv_def live_def refreshGameSvrList_def)
  then show ?thesis by (simp add: s' refreshRouterSvrList_def router_inv_refresh)
qed (use assms in \<open>auto simp: RefreshServerList_def\<close>)

lemma router_inv_RouterInit:
  assumes "router_inv gone g" and "distinct (as @ bs)" and "\<And>a. a \<in> set (as @ bs) \<Longrightarrow> map_of (routerMap g) a = None"
  shows "router_inv gone (snd (RouterInit as bs g))"
proof -
  have "router_inv gone (fold (\<lambda>addr g. snd (NewRouter addr (g\<lparr>routerMap := AList.update addr True (routerMap g)\<rparr>))) l g)"
    if "router_inv gone g" "distinct l" "\<And>a. a \<in> set l \<Longrightarrow> map_of (routerMap g) a = None" for l g
    using that
  proof (induction l arbitrary: g)
    case (Cons a l)
    let ?g = "snd (NewRouter a (g\<lparr>routerMap := AList.update a True (routerMap g)\<rparr>))"
    have "router_inv gone ?g" using Cons.prems by (intro router_inv_new) simp_all
    moreover have "map_of (routerMap ?g) b = None" if "b \<in> set l" for b
      using that Cons.prems by (auto simp: NewRouter_def AList.update_conv')
    ultimately show ?case using Cons.IH [of ?g] Cons.prems(2) by simp
  qed simp
  from this [OF assms] show ?thesis using assms(1) by (simp add: RouterInit_def)
qed

lemma router_inv_Init:
  assumes "distinct (as @ bs)" and "gate_Init as bs env js rc gate_NewServer = Some s"
  shows "router_inv {} (gs_gate s)"
proof -
  have "router_inv {} (snd (RouterInit as bs empty_gate))"
    by (rule router_inv_RouterInit [OF _ assms(1)]) (simp_all add: router_inv_def live_def empty_gate_def)
  then have "router_inv {} (gs_gate (gate_NewServer\<lparr>gs_tcpServer := Some NewTCPServer,
      gs_gate := snd (RouterInit as bs (gs_gate gate_NewServer))\<rparr>))"
    by (simp add: gate_NewServer_def)
  from router_inv_RefreshServerList [OF this assms(2) [unfolded gate_Init_def]] show ?thesis .
qed

text \<open>
  The process from its start: \<open>Init\<close>, then refreshes, signals and routers given up, in any order.
  A router is given up (\<open>RemoveSvrs\<close>, see \<open>RouterRun\<close>) by its own goroutine, which then ends.
\<close>

inductive gate_process :: "string list \<Rightarrow> string list \<Rightarrow> gate_server \<Rightarrow> nat set \<Rightarrow> bool" for routerAddrs crossRouterAddrs where
  init: "gate_Init routerAddrs crossRouterAddrs env js rc gate_NewServer = Some s
    \<Longrightarrow> gate_process routerAddrs crossRouterAddrs s {}"
| tick: "gate_process routerAddrs crossRouterAddrs s gone \<Longrightarrow> RefreshServerList env js rc s = Some s'
    \<Longrightarrow> gate_process routerAddrs crossRouterAddrs s' gone"
| stop: "gate_process routerAddrs crossRouterAddrs s gone \<Longrightarrow> gate_Terminate s = Some s'
    \<Longrightarrow> gate_process routerAddrs crossRouterAddrs s' gone"
| lost: "gate_process routerAddrs crossRouterAddrs s gone \<Longrightarrow> r \<in> live gone (gs_gate s)
    \<Longrightarrow> gate_process routerAddrs crossRouterAddrs (s\<lparr>gs_gate := RemoveSvrs r (gs_gate s)\<rparr>) (insert r gone)"

lemma mgr_Close_routers: "routers (mgr_Close g) = routers g \<and> routerMap (mgr_Close g) = routerMap g"
proof -
  have "routers (fold (\<lambda>(_, a). TerminateClient a f) l g) = routers g
    \<and> routerMap (fold (\<lambda>(_, a). TerminateClient a f) l g) = routerMap g" for l :: "(u64 \<times> nat) list" and f
    by (induction l arbitrary: g) (auto simp: TerminateClient_def task_Close_def on_task_def Let_def)
  then show ?thesis by (simp add: mgr_Close_def)
qed

lemma gate_Terminate_gate: "gate_Terminate s = Some s' \<Longrightarrow> gs_gate s' = mgr_Close (gs_gate s)"
  by (auto simp: gate_Terminate_def Let_def split: option.splits if_splits)

lemma router_inv_Terminate: "router_inv gone (gs_gate s) \<Longrightarrow> gate_Terminate s = Some s' \<Longrightarrow> router_inv gone (gs_gate s')"
  using mgr_Close_routers [of "gs_gate s"] gate_Terminate_gate [of s s'] router_inv_cong [of "mgr_Close (gs_gate s)"] by simp

section \<open>Properties\<close>


definition demo_json :: gate_json where
  "demo_json = \<lparr>parse_ints = (\<lambda>_. Some [(''timestamp'', 95)]), parse_im = (\<lambda>_. JBad)\<rparr>"

definition demo_cache :: redisCache where
  "demo_cache = (let r = \<lparr>GET = (\<lambda>_. None), HGETALL = (\<lambda>k. if k = RouterServerListInRedis then Some [(''r1'', []), (''r2'', [])] else None)\<rparr>
     in \<lparr>pool = r, crossPool = r\<rparr>)"

lemma demo_Init:
  "map_option (\<lambda>s. map r_addr (routers (gs_gate s)))
     (gate_Init [''r1''] [] demo_gate_env demo_json demo_cache gate_NewServer) = Some [''r1'', ''r2'']"
  by (simp add: gate_Init_def RefreshServerList_def gate_NewServer_def empty_gate_def RouterInit_def NewRouter_def demo_cache_def
    demo_json_def demo_gate_env_def redis_names RefreshGameSvr_def RefreshIMSvr_def RefreshZoneRouters_def
    RefreshCrossRouters_def refreshServerList_def Pool_def refreshGameSvrList_def refreshIMSvrList_def
    refreshRouterSvrList_def refresh_routers_def json_int_def Let_def) blast


text \<open>
  Stopping the gate cuts off every player. After \<open>Terminate\<close> the listener is closed, the
  connection of every client of the manager is closed, and no later refresh changes anything.
\<close>

lemma Terminate_cuts_everybody_off:
  assumes "gate_Terminate s = Some s'"
  shows "gs_isClosed s' \<and> (\<exists>ts. gs_tcpServer s' = Some ts \<and> srv_closed ts)
    \<and> (\<forall>(acc, a) \<in> set (mgr_clients (gs_gate s)). closed (conns (gs_gate s') (ct_conn (tasks (gs_gate s) ! a))))
    \<and> RefreshServerList env js rc s' = Some s' \<and> gate_Terminate s' = None"
proof -
  obtain ts where ts: "gs_tcpServer s = Some ts"
      "s' = s\<lparr>gs_isClosed := True, gs_tcpServer := Some (srv_Close ts), gs_DieChan_closed := True, gs_gate := mgr_Close (gs_gate s)\<rparr>"
    using assms by (auto simp:gate_Terminate_def Let_def split: option.splits if_splits)
  then show ?thesis
    using mgr_Close_closes by (auto simp: srv_Close_def RefreshServerList_def gate_Terminate_def)
qed

lemma Terminate_cuts_everybody_off_witness:
  "\<exists>s'. gate_Terminate (gate_NewServer\<lparr>gs_tcpServer := Some NewTCPServer, gs_gate := demo_gate\<rparr>) = Some s' \<and> gs_isClosed s'
    \<and> gate_Terminate s' = None"
proof -
  obtain s' where "gate_Terminate (gate_NewServer\<lparr>gs_tcpServer := Some NewTCPServer, gs_gate := demo_gate\<rparr>) = Some s'"
    by (simp add:gate_Terminate_def gate_NewServer_def)
  then show ?thesis using Terminate_cuts_everybody_off by blast
qed

lemma live_ims_bad:
  "(i, d) \<in> set svrMap \<Longrightarrow> parse d = JObject None addr \<Longrightarrow> live_ims env parse svrMap l = None"
proof (induction svrMap arbitrary: l)
  case (Cons p rest)
  obtain j e where p: "p = (j, e)" by (cases p)
  show ?case
  proof (cases "p = (i, d)")
    case True
    then show ?thesis by (simp add: Cons.prems(2))
  next
    case False
    then have "live_ims env parse rest m = None" for m using Cons by auto
    then show ?thesis by (simp add: p split: json_im.split option.split)
  qed
qed simp

text \<open>
  C38: one chat server without a time stamp ends every refresh. If the entry of any chat server in
  Redis is JSON without a \<open>timestamp\<close>, the tick that reads it panics, and as the panic is recovered
  outside the loop of the timer no later tick refreshes anything: the routers and game servers
  that come later are never seen, whatever is in Redis then. The refresh at start-up fails with
  it, too.
\<close>

theorem bad_entry_ends_the_refresh:
  assumes "\<not> gs_isClosed s" and "(i, d) \<in> set (RefreshIMSvr rc)" and "parse_im js d = JObject None addr"
  shows "refresh_timer ((env, js, rc) # later) s
      = (False, s\<lparr>gs_gate := refreshGameSvrList env (parse_ints js) (RefreshGameSvr rc) (gs_gate s)\<rparr>)
    \<and> gate_Init routerAddrs crossRouterAddrs env js rc s = None"
proof -
  have "refreshIMSvrList env (parse_im js) (RefreshIMSvr rc) g = None" for g
    using live_ims_bad [of i d "RefreshIMSvr rc" "parse_im js" addr] assms(2,3) by (simp add: refreshIMSvrList_def)
  then have "RefreshServerList env js rc s' = None" if "\<not> gs_isClosed s'" for s'
    using that by (simp add: RefreshServerList_def)
  then show ?thesis using assms(1) by (simp add: gate_Init_def)
qed

theorem bad_entry_ends_the_refresh_witness:
  "let bad = demo_cache\<lparr>crossPool := (crossPool demo_cache)\<lparr>HGETALL := (\<lambda>k. Some [(''7'', ''x'')])\<rparr>\<rparr>;
       js = demo_json\<lparr>parse_im := (\<lambda>_. JObject None (Some ''im''))\<rparr>
   in fst (refresh_timer [(demo_gate_env, js, bad), (demo_gate_env, demo_json, demo_cache)] gate_NewServer) = False
     \<and> gate_Init [] [] demo_gate_env js bad gate_NewServer = None"
proof -
  let ?bad = "demo_cache\<lparr>crossPool := (crossPool demo_cache)\<lparr>HGETALL := (\<lambda>k. Some [(''7'', ''x'')])\<rparr>\<rparr>"
  let ?js = "demo_json\<lparr>parse_im := (\<lambda>_. JObject None (Some ''im''))\<rparr>"
  have "(''7'', ''x'') \<in> set (RefreshIMSvr ?bad)"
    by (simp add: RefreshIMSvr_def refreshServerList_def Pool_def RedisServerTypeZone_def RedisServerTypeCross_def)
  moreover have "\<not> gs_isClosed gate_NewServer" "parse_im ?js ''x'' = JObject None (Some ''im'')"
    by (simp_all add: gate_NewServer_def)
  ultimately show ?thesis
    unfolding Let_def
    using bad_entry_ends_the_refresh [of gate_NewServer "''7''" "''x''" ?bad ?js "Some ''im''" demo_gate_env
      "[(demo_gate_env, demo_json, demo_cache)]" "[]" "[]"]
    by (simp only: fst_conv simp_thms)
qed

end
