(* ===== verification/Logger.thy ===== *)
theory Logger
  imports Prelude GoStrings "HOL-Library.AList"
begin

text \<open>
  The logger of \<open>base/logger/\<close>: five levels, one log file at a time, rotated by time and by size, and
  old files removed. \<open>fsys\<close> is the directory the logs are in, as names of inodes, with the lines of
  each inode; so a line written to a file that has been renamed or removed since goes where it goes.
  What the operating system may refuse (\<open>open_ok\<close>, \<open>rename_ok\<close>, \<open>remove_ok\<close>, \<open>mkdir_ok\<close>) is an
  argument, and so are the time stamps. \<open>None\<close> as a result is the end of the process (\<open>os.Exit\<close>).

  All five \<open>log.Logger\<close>s write to the same file once there is one: their writer is \<open>lg_file\<close>, or the
  standard streams before. The line a \<open>log.Logger\<close> writes is its prefix, the date and place, an
  argument \<open>hdr\<close>, and the message; where a message quotes the text of an error of the operating system,
  that text is left out.
\<close>

section \<open>The file system\<close>

record fsys =
  dirents :: "(string \<times> nat) list"
  inodes :: "nat \<Rightarrow> string list"
  fresh :: nat

text \<open>What a file holds, by name.\<close>

definition contents :: "fsys \<Rightarrow> string \<Rightarrow> string list option" where
  "contents fs p = map_option (inodes fs) (map_of (dirents fs) p)"

text \<open>\<open>os.OpenFile\<close> with \<open>O_CREATE\<close> and \<open>O_APPEND\<close>, \<open>os.Rename\<close>, \<open>os.Remove\<close>, and a write.\<close>

definition OpenFile :: "string \<Rightarrow> fsys \<Rightarrow> nat \<times> fsys" where
  "OpenFile p fs =
     (case map_of (dirents fs) p of
        Some i \<Rightarrow> (i, fs)
      | None \<Rightarrow> (fresh fs, fs\<lparr>dirents := AList.update p (fresh fs) (dirents fs),
          inodes := (inodes fs)(fresh fs := []), fresh := Suc (fresh fs)\<rparr>))"

definition Rename :: "string \<Rightarrow> string \<Rightarrow> fsys \<Rightarrow> fsys" where
  "Rename a b fs =
     (case map_of (dirents fs) a of
        None \<Rightarrow> fs
      | Some i \<Rightarrow> fs\<lparr>dirents := AList.update b i (AList.delete a (dirents fs))\<rparr>)"

definition Remove :: "string \<Rightarrow> fsys \<Rightarrow> fsys" where
  "Remove p fs = fs\<lparr>dirents := AList.delete p (dirents fs)\<rparr>"

definition append_line :: "nat \<Rightarrow> string \<Rightarrow> fsys \<Rightarrow> fsys" where
  "append_line i l fs = fs\<lparr>inodes := (inodes fs)(i := inodes fs i @ [l])\<rparr>"

section \<open>The logger\<close>

definition LogLevel_Fatal :: int where "LogLevel_Fatal = 1"
definition LogLevel_Error :: int where "LogLevel_Error = 2"
definition LogLevel_Warn :: int where "LogLevel_Warn = 3"
definition LogLevel_Info :: int where "LogLevel_Info = 4"
definition LogLevel_Debug :: int where "LogLevel_Debug = 5"

lemmas log_levels = LogLevel_Fatal_def LogLevel_Error_def LogLevel_Warn_def LogLevel_Info_def LogLevel_Debug_def

text \<open>Durations in seconds.\<close>

record log_config =
  LogPath :: string
  LogLevel :: int
  MaxSize :: nat
  CheckSize :: nat
  CheckExpired :: nat
  Expired :: nat
  Interval :: nat

definition DefaultConfig :: log_config where
  "DefaultConfig = \<lparr>LogPath = [], LogLevel = LogLevel_Info, MaxSize = 0, CheckSize = 120, CheckExpired = 7200,
     Expired = 0, Interval = 0\<rparr>"

definition colour :: "string \<Rightarrow> string \<Rightarrow> string" where
  "colour c s = [CHR 0x1B] @ ''[0;'' @ c @ ''m'' @ s @ [CHR 0x1B] @ ''[0m ''"

definition log_prefix :: "int \<Rightarrow> string" where
  "log_prefix level =
     (if level = LogLevel_Debug then colour ''36'' ''DEBUG:''
      else if level = LogLevel_Warn then colour ''35'' ''WARN:''
      else if level = LogLevel_Error then colour ''31'' ''ERROR:''
      else if level = LogLevel_Fatal then colour ''33'' ''FATAL:''
      else colour ''32'' ''INFO:'')"

text \<open>
  \<open>lg_file\<close>: the name, the inode, and whether the handle is open. \<open>sizeExt\<close> is the variable of \<open>loop\<close>.
\<close>

record logger =
  conf :: log_config
  errCount :: u32
  lg_file :: "(string \<times> nat \<times> bool) option"
  sizeExt :: int

record log_world =
  logger :: logger
  disk :: fsys
  std_out :: "string list"
  std_err :: "string list"

definition newLogger :: "log_config \<Rightarrow> logger" where
  "newLogger c = \<lparr>conf = c, errCount = 0, lg_file = None, sizeExt = 1\<rparr>"

definition add_err :: "log_world \<Rightarrow> log_world" where
  "add_err w = w\<lparr>logger := (logger w)\<lparr>errCount := errCount (logger w) + 1\<rparr>\<rparr>"

text \<open>
  One line of the \<open>log.Logger\<close> of a level. Without a file, debug and info go to the standard output
  and the rest to the standard error; a closed file takes nothing, and nobody looks at the error.
\<close>

definition log_output :: "int \<Rightarrow> string \<Rightarrow> string \<Rightarrow> log_world \<Rightarrow> log_world" where
  "log_output level hdr msg w =
     (let line = log_prefix level @ hdr @ msg
      in case lg_file (logger w) of
           Some (_, i, True) \<Rightarrow> w\<lparr>disk := append_line i line (disk w)\<rparr>
         | Some (_, _, False) \<Rightarrow> w
         | None \<Rightarrow>
             if level \<in> {LogLevel_Warn, LogLevel_Error, LogLevel_Fatal} then w\<lparr>std_err := std_err w @ [line]\<rparr>
             else w\<lparr>std_out := std_out w @ [line]\<rparr>)"

definition doPrintln :: "int \<Rightarrow> string \<Rightarrow> string \<Rightarrow> log_world \<Rightarrow> log_world" where
  "doPrintln level hdr msg w =
     (if LogLevel (conf (logger w)) < level then w else log_output level hdr msg w)"

definition log_Fatal :: "string \<Rightarrow> string \<Rightarrow> log_world \<Rightarrow> log_world option" where
  "log_Fatal hdr msg w = (let _ = doPrintln LogLevel_Fatal hdr msg (add_err w) in None)"

definition log_Error :: "string \<Rightarrow> string \<Rightarrow> log_world \<Rightarrow> log_world" where
  "log_Error hdr msg w = doPrintln LogLevel_Error hdr msg (add_err w)"

definition log_Warn :: "string \<Rightarrow> string \<Rightarrow> log_world \<Rightarrow> log_world" where
  "log_Warn = doPrintln LogLevel_Warn"

definition log_Info :: "string \<Rightarrow> string \<Rightarrow> log_world \<Rightarrow> log_world" where
  "log_Info = doPrintln LogLevel_Info"

definition log_Debug :: "string \<Rightarrow> string \<Rightarrow> log_world \<Rightarrow> log_world" where
  "log_Debug = doPrintln LogLevel_Debug"

text \<open>\<open>ErrCount\<close> reads the counter as \<open>int32\<close>.\<close>

definition ErrCount :: "string \<Rightarrow> log_world \<Rightarrow> int \<times> log_world" where
  "ErrCount hdr w =
     (let ec = sint (errCount (logger w))
      in if ec < 0 then (- 1, log_Warn hdr ''error count overflow'' w) else (ec, w))"

section \<open>The file\<close>

definition set_file :: "(string \<times> nat \<times> bool) option \<Rightarrow> log_world \<Rightarrow> log_world" where
  "set_file f w = w\<lparr>logger := (logger w)\<lparr>lg_file := f\<rparr>\<rparr>"

text \<open>
  \<open>trunc\<close>: close the file, rename it, open the next. Closing a closed handle is an error and ends it;
  a failed rename does not, and a failed open leaves the closed handle where it is.
\<close>

definition reopen :: "bool \<Rightarrow> string \<Rightarrow> string \<Rightarrow> log_world \<Rightarrow> log_world" where
  "reopen open_ok hdr fp w =
     (if open_ok then (let (i, f) = OpenFile fp (disk w) in set_file (Some (fp, i, True)) (w\<lparr>disk := f\<rparr>))
      else log_output LogLevel_Error hdr ''create log file failed'' (add_err w))"

definition trunc :: "bool \<Rightarrow> bool \<Rightarrow> string \<Rightarrow> string \<Rightarrow> string \<Rightarrow> log_world \<Rightarrow> log_world" where
  "trunc rename_ok open_ok hdr fp nfp w =
     (if fp = nfp then w
      else case lg_file (logger w) of
             None \<Rightarrow> reopen open_ok hdr fp w
           | Some (ofp, i, False) \<Rightarrow> w\<lparr>std_err := std_err w @ [hdr @ ''fail to close log file'']\<rparr>
           | Some (ofp, i, True) \<Rightarrow>
               let w = set_file (Some (ofp, i, False)) w;
                   w = (if nfp \<noteq> [] \<and> ofp \<noteq> nfp then
                          if rename_ok \<and> map_of (dirents (disk w)) ofp \<noteq> None
                          then w\<lparr>disk := Rename ofp nfp (disk w)\<rparr>
                          else w\<lparr>std_err := std_err w @ [hdr @ ''fail to rename log file, no trunc'']\<rparr>
                        else w)
               in reopen open_ok hdr fp w)"

text \<open>\<open>app\<close>: the name of the program without its extension.\<close>

definition log_name :: "string \<Rightarrow> string \<Rightarrow> string" where
  "log_name path app = path @ ''/'' @ app @ ''.log''"

definition setLogPath :: "bool \<Rightarrow> bool \<Rightarrow> bool \<Rightarrow> string \<Rightarrow> string \<Rightarrow> log_world \<Rightarrow> log_world option" where
  "setLogPath dir_exists mkdir_ok open_ok hdr app w =
     (if \<not> dir_exists \<and> \<not> mkdir_ok then log_Fatal hdr ''mkdir'' w
      else let f = log_name (LogPath (conf (logger w))) app;
               oldFileName = (case lg_file (logger w) of Some (n, _, _) \<Rightarrow> n | None \<Rightarrow> [])
           in Some (if oldFileName \<noteq> f then trunc True open_ok hdr f oldFileName w else w))"

definition reload :: "bool \<Rightarrow> bool \<Rightarrow> bool \<Rightarrow> string \<Rightarrow> string \<Rightarrow> log_config \<Rightarrow> log_world \<Rightarrow> log_world option" where
  "reload dir_exists mkdir_ok open_ok hdr app c w =
     map_option (log_Info hdr ''ReloadConfig ok'')
       (setLogPath dir_exists mkdir_ok open_ok hdr app (w\<lparr>logger := (logger w)\<lparr>conf := c\<rparr>\<rparr>))"

text \<open>\<open>os.Stat\<close> fails on a closed handle; the size is that of the lines, each with its line end.\<close>

definition getFileSize :: "string \<Rightarrow> log_world \<Rightarrow> nat \<times> log_world" where
  "getFileSize hdr w =
     (case lg_file (logger w) of
        Some (_, i, True) \<Rightarrow> (sum_list (map (\<lambda>l. Suc (length l)) (inodes (disk w) i)), w)
      | _ \<Rightarrow> (0, log_Warn hdr ''get log file size failed, no trunc'' w))"

section \<open>The loop\<close>

text \<open>
  \<open>toNextBound\<close>: the time to the next multiple of \<open>d\<close>; \<open>Truncate\<close> leaves the time as it is for a
  duration of zero, so the timer of a zero \<open>Interval\<close> is due at once, again and again.
\<close>

definition toNextBound :: "nat \<Rightarrow> nat \<Rightarrow> nat" where
  "toNextBound d now = (if d = 0 then 0 else d - now mod d)"

definition set_ext :: "int \<Rightarrow> log_world \<Rightarrow> log_world" where
  "set_ext n w = w\<lparr>logger := (logger w)\<lparr>sizeExt := n\<rparr>\<rparr>"

text \<open>The three cases of the \<open>select\<close>; \<open>stamp\<close> is \<open>suffix\<close> of the time, the date and the hour.\<close>

definition on_interval :: "bool \<Rightarrow> bool \<Rightarrow> string \<Rightarrow> string \<Rightarrow> log_world \<Rightarrow> log_world" where
  "on_interval rename_ok open_ok hdr stamp w =
     (case lg_file (logger w) of
        None \<Rightarrow> w
      | Some (fp, _, _) \<Rightarrow>
          log_Info hdr ''log truncated by time interval''
            (set_ext 1 (trunc rename_ok open_ok hdr fp (fp @ stamp) w)))"

definition on_size :: "bool \<Rightarrow> bool \<Rightarrow> string \<Rightarrow> string \<Rightarrow> log_world \<Rightarrow> log_world" where
  "on_size rename_ok open_ok hdr stamp w =
     (case lg_file (logger w) of
        None \<Rightarrow> w
      | Some (fp, _, _) \<Rightarrow>
          let (size, w) = getFileSize hdr w
          in if size < MaxSize (conf (logger w)) then w
             else let ext = sizeExt (logger w)
                  in log_Info hdr ''log over size, truncated''
                       (set_ext (ext + 1) (trunc rename_ok open_ok hdr fp (fp @ stamp @ ''.'' @ Itoa ext) w)))"

text \<open>
  The walk over the directory: what it meets is a name, whether it is a directory, and whether it is
  older than \<open>Expired\<close>. A file that cannot be removed ends the walk.
\<close>

definition base_name :: "string \<Rightarrow> string" where
  "base_name path = rev (takeWhile (\<lambda>c. c \<noteq> CHR ''/'') (rev path))"

definition is_log :: "string \<Rightarrow> bool" where
  "is_log path \<longleftrightarrow> cut_at ''.log'' (base_name path) \<noteq> None"

fun remove_expired :: "(string \<Rightarrow> bool) \<Rightarrow> string \<Rightarrow> (string \<times> bool \<times> bool) list \<Rightarrow> log_world \<Rightarrow> log_world" where
  "remove_expired remove_ok hdr [] w = w"
| "remove_expired remove_ok hdr ((path, is_dir, old) # rest) w =
     (if old \<and> is_log path \<and> \<not> is_dir then
        if remove_ok path
        then remove_expired remove_ok hdr rest
               (log_Info hdr (''remove expired log files '' @ base_name path) (w\<lparr>disk := Remove path (disk w)\<rparr>))
        else log_Warn hdr ''remove expired logger failed'' w
      else remove_expired remove_ok hdr rest w)"

definition on_expired :: "(string \<Rightarrow> bool) \<Rightarrow> string \<Rightarrow> (string \<times> bool \<times> bool) list \<Rightarrow> log_world \<Rightarrow> log_world" where
  "on_expired remove_ok hdr walk w =
     (case lg_file (logger w) of None \<Rightarrow> w | Some _ \<Rightarrow> remove_expired remove_ok hdr walk w)"

section \<open>The global logger\<close>

text \<open>
  \<open>Logger\<close> and \<open>ReloadConfig\<close> on \<open>gLogger\<close>, which is nil at first: \<open>lw_nil\<close>. Only a logger that is
  there already is given a file.
\<close>

definition Logger_get :: "bool \<times> log_world \<Rightarrow> bool \<times> log_world" where
  "Logger_get = (\<lambda>(lw_nil, w). if lw_nil then (False, w\<lparr>logger := newLogger DefaultConfig\<rparr>) else (lw_nil, w))"

definition ReloadConfig ::
  "bool \<Rightarrow> bool \<Rightarrow> bool \<Rightarrow> string \<Rightarrow> string \<Rightarrow> log_config \<Rightarrow> bool \<times> log_world \<Rightarrow> (bool \<times> log_world) option" where
  "ReloadConfig dir_exists mkdir_ok open_ok hdr app c = (\<lambda>(lw_nil, w).
     if lw_nil then Some (False, w\<lparr>logger := newLogger c\<rparr>)
     else map_option (Pair False) (reload dir_exists mkdir_ok open_ok hdr app c w))"

text \<open>The functions of the package print on the global logger, which they make if need be.\<close>

definition on_logger :: "(log_world \<Rightarrow> log_world) \<Rightarrow> bool \<times> log_world \<Rightarrow> bool \<times> log_world" where
  "on_logger f lw = map_prod id f (Logger_get lw)"

definition Debug :: "string \<Rightarrow> string \<Rightarrow> bool \<times> log_world \<Rightarrow> bool \<times> log_world" where
  "Debug hdr msg = on_logger (log_Debug hdr msg)"

definition Info :: "string \<Rightarrow> string \<Rightarrow> bool \<times> log_world \<Rightarrow> bool \<times> log_world" where
  "Info hdr msg = on_logger (log_Info hdr msg)"

definition Warn :: "string \<Rightarrow> string \<Rightarrow> bool \<times> log_world \<Rightarrow> bool \<times> log_world" where
  "Warn hdr msg = on_logger (log_Warn hdr msg)"

definition Error :: "string \<Rightarrow> string \<Rightarrow> bool \<times> log_world \<Rightarrow> bool \<times> log_world" where
  "Error hdr msg = on_logger (log_Error hdr msg)"

definition Fatal :: "string \<Rightarrow> string \<Rightarrow> bool \<times> log_world \<Rightarrow> (bool \<times> log_world) option" where
  "Fatal hdr msg lw = map_option (Pair False) (log_Fatal hdr msg (snd (Logger_get lw)))"

text \<open>Everything that happens to a logger.\<close>

inductive log_step :: "log_world \<Rightarrow> log_world \<Rightarrow> bool" where
  print: "log_step w (doPrintln level hdr msg w)"
| error: "log_step w (log_Error hdr msg w)"
| interval: "log_step w (on_interval rename_ok open_ok hdr stamp w)"
| size: "log_step w (on_size rename_ok open_ok hdr stamp w)"
| expired: "log_step w (on_expired remove_ok hdr walk w)"
| reload: "reload dir_exists mkdir_ok open_ok hdr app c w = Some w' \<Longrightarrow> log_step w w'"

lemmas log_defs [model_defs] =
  log_output_def doPrintln_def log_Error_def log_Warn_def log_Info_def log_Debug_def add_err_def set_file_def
  set_ext_def reopen_def trunc_def setLogPath_def reload_def on_interval_def on_size_def on_expired_def getFileSize_def

section \<open>What becomes of the lines\<close>

text \<open>No two names for one file, and inodes are numbered upwards.\<close>

definition fs_wf :: "fsys \<Rightarrow> bool" where
  "fs_wf f \<longleftrightarrow> distinct (map fst (dirents f)) \<and> distinct (map snd (dirents f)) \<and> (\<forall>i \<in> snd ` set (dirents f). i < fresh f)"

text \<open>The first \<open>ReloadConfig\<close> finds no logger, makes one and gives it no file: it logs to the standard streams.\<close>

lemma first_ReloadConfig_opens_no_file:
  "ReloadConfig d m op hdr app c (True, w) = Some (False, w\<lparr>logger := newLogger c\<rparr>)"
  "lg_file (newLogger c) = None"
  by (simp_all add: ReloadConfig_def newLogger_def)

lemma no_file_no_rotation:
  "lg_file (logger w) = None \<Longrightarrow> on_interval r op hdr stamp w = w"
  "lg_file (logger w) = None \<Longrightarrow> on_size r op hdr stamp w = w"
  "lg_file (logger w) = None \<Longrightarrow> on_expired rm hdr walk w = w"
  by (simp_all add: on_interval_def on_size_def on_expired_def)

lemma zero_interval_is_due: "Interval DefaultConfig = 0" "toNextBound 0 now = 0"
  by (simp_all add: DefaultConfig_def toNextBound_def)

lemma map_of_inj:
  assumes "distinct (map snd xs)" and "map_of xs a = Some i" and "map_of xs b = Some i"
  shows "a = b"
proof -
  have "(a, i) \<in> set xs" "(b, i) \<in> set xs" using assms(2,3) by (simp_all add: map_of_SomeD)
  then show ?thesis using assms(1) by (metis distinct_map inj_onD prod.inject snd_conv)
qed

lemma trunc_contents:
  fixes hdr
  assumes "fs_wf (disk w)" and "lg_file (logger w) = Some (fp, i, True)" and "map_of (dirents (disk w)) fp = Some i"
    and "nfp \<noteq> fp" and "nfp \<noteq> []"
  defines "w' \<equiv> trunc True True hdr fp nfp w"
  shows "contents (disk w') = (contents (disk w))(nfp := contents (disk w) fp, fp := Some [])"
    and "lg_file (logger w') = Some (fp, fresh (disk w), True)" and "map_of (dirents (disk w')) fp = Some (fresh (disk w))"
    and "conf (logger w') = conf (logger w)"
    and "\<And>q. map_of (dirents (disk w')) q = Some (fresh (disk w)) \<Longrightarrow> q = fp"
proof -
  have w': "w' = set_file (Some (fp, fresh (disk w), True))
      ((set_file (Some (fp, i, False)) w)\<lparr>disk := (disk w)\<lparr>dirents := AList.update fp (fresh (disk w))
          (AList.update nfp i (AList.delete fp (dirents (disk w)))),
        inodes := (inodes (disk w))(fresh (disk w) := []), fresh := Suc (fresh (disk w))\<rparr>\<rparr>)"
    using assms(2-5) unfolding w'_def
    by (simp add: trunc_def Let_def set_file_def reopen_def Rename_def OpenFile_def update_conv delete_conv)
  show "lg_file (logger w') = Some (fp, fresh (disk w), True)" and "map_of (dirents (disk w')) fp = Some (fresh (disk w))"
    and "conf (logger w') = conf (logger w)"
    by (simp_all add: w' set_file_def update_conv)
  have old: "j \<noteq> fresh (disk w)" if "map_of (dirents (disk w)) p = Some j" for p j
    using assms(1) map_of_SomeD [OF that] by (force simp: fs_wf_def)
  show "q = fp" if "map_of (dirents (disk w')) q = Some (fresh (disk w))" for q
    using that old [of fp i] old [of q "fresh (disk w)"] assms(3)
    by (auto simp: w' set_file_def update_conv delete_conv split: if_splits)
  show "contents (disk w') = (contents (disk w))(nfp := contents (disk w) fp, fp := Some [])"
  proof
    fix p
    show "contents (disk w') p = ((contents (disk w))(nfp := contents (disk w) fp, fp := Some [])) p"
      using assms(3,4) old
      by (cases "map_of (dirents (disk w)) p") (auto simp: contents_def w' set_file_def update_conv delete_conv)
  qed
qed

lemma append_contents:
  assumes "map_of (dirents f) p = Some j" and "\<And>q. map_of (dirents f) q = Some j \<Longrightarrow> q = p"
  shows "contents (append_line j l f) = (contents f)(p \<mapsto> inodes f j @ [l])"
proof
  fix q
  show "contents (append_line j l f) q = ((contents f)(p \<mapsto> inodes f j @ [l])) q"
  proof (cases "q = p")
    case False
    then have "map_of (dirents f) q \<noteq> Some j" using assms(2) by blast
    then show ?thesis using False by (cases "map_of (dirents f) q") (simp_all add: contents_def append_line_def)
  qed (simp add: contents_def append_line_def assms(1))
qed

section \<open>Properties\<close>

text \<open>
  C22: a rotation keeps every line, unless the name is taken. When the timer of the interval strikes and
  neither rename nor open fails, the lines of the log file are afterwards those of the file with the
  stamp appended to its name, the log file is new and holds the message about it (from level Info
  on), and no other file has changed. If a file of that name was there, as when a second rotation
  falls into the same hour, its lines are gone.
\<close>
theorem rotation_keeps_every_line:
  assumes "fs_wf (disk w)" and "lg_file (logger w) = Some (fp, i, True)" and "map_of (dirents (disk w)) fp = Some i"
    and "stamp \<noteq> []"
  shows "contents (disk (on_interval True True hdr stamp w)) =
    (contents (disk w))
      (fp @ stamp := contents (disk w) fp,
       fp := Some (if LogLevel (conf (logger w)) < LogLevel_Info then []
                   else [log_prefix LogLevel_Info @ hdr @ ''log truncated by time interval'']))"
proof -
  let ?w = "trunc True True hdr fp (fp @ stamp) w"
  have "fp @ stamp \<noteq> fp" "fp @ stamp \<noteq> []" using assms(4) by simp_all
  note t = trunc_contents [OF assms(1-3) this]
  have empty: "inodes (disk ?w) (fresh (disk w)) = []"
    using t(1,3) by (simp add: contents_def fun_eq_iff) (metis option.inject option.simps(9))
  show ?thesis
  proof (cases "LogLevel (conf (logger w)) < LogLevel_Info")
    case True
    then show ?thesis using assms(2) t(1,4) by (simp add: on_interval_def log_Info_def doPrintln_def set_ext_def)
  next
    case False
    let ?l = "log_prefix LogLevel_Info @ hdr @ ''log truncated by time interval''"
    have "disk (on_interval True True hdr stamp w) = append_line (fresh (disk w)) ?l (disk ?w)"
      using False assms(2) t(2,4)
      by (simp add: on_interval_def log_Info_def doPrintln_def set_ext_def log_output_def Let_def)
    then show ?thesis using append_contents [OF t(3,5)] t(1) empty False by simp
  qed
qed

theorem rotation_keeps_every_line_witness:
  "let w = \<lparr>logger = (newLogger DefaultConfig)\<lparr>lg_file := Some (''gate.log'', 0, True)\<rparr>,
        disk = \<lparr>dirents = [(''gate.log'', 0), (''gate.log-2024010112'', 1)], inodes = (\<lambda>_. [])(0 := [''new''], 1 := [''old'']), fresh = 2\<rparr>,
        std_out = [], std_err = []\<rparr>
   in contents (disk w) ''gate.log-2024010112'' = Some [''old'']
    \<and> contents (disk (on_interval True True [] ''-2024010112'' w)) ''gate.log-2024010112'' = Some [''new'']"
proof -
  let ?w = "\<lparr>logger = (newLogger DefaultConfig)\<lparr>lg_file := Some (''gate.log'', 0, True)\<rparr>,
        disk = \<lparr>dirents = [(''gate.log'', 0), (''gate.log-2024010112'', 1)], inodes = (\<lambda>_. [])(0 := [''new''], 1 := [''old'']), fresh = 2\<rparr>,
        std_out = [], std_err = []\<rparr>"
  have "contents (disk (on_interval True True [] ''-2024010112'' ?w)) ''gate.log-2024010112'' = contents (disk ?w) ''gate.log''"
    by (subst rotation_keeps_every_line [of ?w "''gate.log''" 0]) (simp_all add: fs_wf_def)
  then show ?thesis by (simp add: Let_def contents_def)
qed

lemma dead_output: "lg_file (logger w) = Some (p, i, False) \<Longrightarrow> log_output level hdr msg w = w"
  by (simp add: log_output_def)

lemma dead_print: "lg_file (logger w) = Some (p, i, False) \<Longrightarrow> doPrintln level hdr msg w = w"
  by (simp add: doPrintln_def dead_output)

text \<open>What two states have in common when nothing has been written in between.\<close>

definition silent :: "log_world \<Rightarrow> log_world \<Rightarrow> bool" where
  "silent w w' \<longleftrightarrow> lg_file (logger w') = lg_file (logger w) \<and> inodes (disk w') = inodes (disk w)
     \<and> std_out w' = std_out w \<and> (\<forall>p i. map_of (dirents (disk w')) p = Some i \<longrightarrow> map_of (dirents (disk w)) p = Some i)"

lemma silent_refl [simp]: "silent w w"
  by (simp add: silent_def)

lemma silent_trans: "silent u v \<Longrightarrow> silent v w \<Longrightarrow> silent u w"
  by (simp add: silent_def)

lemma dead_remove:
  "lg_file (logger w) = Some (p, i, False) \<Longrightarrow> silent w (remove_expired remove_ok hdr walk w)"
proof (induction remove_ok hdr walk w rule: remove_expired.induct)
  case (2 remove_ok hdr path is_dir old rest w)
  let ?w = "w\<lparr>disk := Remove path (disk w)\<rparr>"
  have "silent w ?w" by (auto simp: silent_def Remove_def delete_conv split: if_splits)
  then show ?case
    using 2 dead_print [of ?w p i] dead_print [of w p i] silent_trans [of w ?w]
    by (simp add: log_Info_def log_Warn_def)
qed simp

lemma dead_trunc:
  "lg_file (logger w) = Some (p, i, False) \<Longrightarrow> silent w (trunc rename_ok open_ok hdr fp nfp w)"
  by (simp add: trunc_def silent_def)

lemma silent_file: "silent w w' \<Longrightarrow> lg_file (logger w') = lg_file (logger w)"
  by (simp add: silent_def)

lemma silent_counters [simp]:
  "silent w (add_err v) = silent w v" "silent w (set_ext n v) = silent w v"
  "lg_file (logger (add_err v)) = lg_file (logger v)" "lg_file (logger (set_ext n v)) = lg_file (logger v)"
  by (simp_all add: silent_def add_err_def set_ext_def)

lemma dead_reload:
  assumes "lg_file (logger w) = Some (p, i, False)" and "reload d m op hdr app c w = Some w'"
  shows "silent w w'"
proof -
  let ?w = "w\<lparr>logger := (logger w)\<lparr>conf := c\<rparr>\<rparr>"
  obtain v where v: "setLogPath d m op hdr app ?w = Some v" "w' = log_Info hdr ''ReloadConfig ok'' v"
    using assms(2) by (auto simp: reload_def)
  then have "v = ?w \<or> (\<exists>f n. v = trunc True op hdr f n ?w)"
    by (auto simp: setLogPath_def log_Fatal_def Let_def split: if_splits)
  then have "silent ?w v" using dead_trunc [of ?w p i] assms(1) by auto
  then have "silent w v" by (simp add: silent_def)
  moreover have "w' = v" using v(2) silent_file [OF \<open>silent w v\<close>] assms(1) dead_print by (simp add: log_Info_def)
  ultimately show ?thesis by simp
qed

lemma dead_step: "log_step w w' \<Longrightarrow> lg_file (logger w) = Some (p, i, False) \<Longrightarrow> silent w w'"
proof (induction rule: log_step.induct)
  case (print w level hdr msg)
  then show ?case by (simp add: dead_print)
next
  case (error w hdr msg)
  then show ?case by (simp add: log_Error_def dead_print)
next
  case (interval w rename_ok open_ok hdr stamp)
  note t = dead_trunc [OF interval, of rename_ok open_ok hdr p "p @ stamp"]
  show ?case using interval t silent_file [OF t] by (simp add: on_interval_def log_Info_def dead_print)
next
  case (size w rename_ok open_ok hdr stamp)
  note t = dead_trunc [OF size, of rename_ok open_ok hdr]
  have "getFileSize hdr w = (0, w)" using size by (simp add: getFileSize_def log_Warn_def dead_print)
  then show ?case
    using size t silent_file [OF t] by (simp add: on_size_def log_Info_def Let_def dead_print)
next
  case (expired w remove_ok hdr walk)
  then show ?case using dead_remove by (simp add: on_expired_def)
next
  case (reload d m op hdr app c w w')
  then show ?case using dead_reload by blast
qed

text \<open>
  A log file that cannot be opened silences the logger for good. If the open at the end of a
  rotation fails, the logger keeps the handle it has just closed; and whatever is logged, rotated,
  reloaded or expired from then on, no line is written any more, to no file and not to the standard
  output, because every later attempt to change the file fails at closing that handle again.
\<close>
lemma failed_open_silences_the_logger:
  assumes "lg_file (logger w) = Some (ofp, i, True)" and "fp \<noteq> nfp"
    and "log_step\<^sup>*\<^sup>* (trunc rename_ok False hdr fp nfp w) w'"
  shows "lg_file (logger w') = Some (ofp, i, False) \<and> inodes (disk w') = inodes (disk w) \<and> std_out w' = std_out w
    \<and> (\<forall>p. contents (disk w') p \<noteq> None \<longrightarrow> (\<exists>q. contents (disk w') p = contents (disk w) q))"
proof -
  let ?v = "trunc rename_ok False hdr fp nfp w"
  have v: "lg_file (logger ?v) = Some (ofp, i, False)" "inodes (disk ?v) = inodes (disk w)" "std_out ?v = std_out w"
    using assms(1,2) by (auto simp: trunc_def reopen_def Let_def set_file_def add_err_def log_output_def Rename_def
        split: option.splits)
  have old: "\<exists>q. map_of (dirents (disk w)) q = Some j" if "map_of (dirents (disk ?v)) p = Some j" for p j
    using that assms(1,2) by (auto simp: trunc_def reopen_def Let_def set_file_def add_err_def log_output_def Rename_def
        update_conv delete_conv split: option.splits if_splits)
  have files: "\<exists>q. contents (disk ?v) p = contents (disk w) q" if "contents (disk ?v) p \<noteq> None" for p
  proof -
    from that obtain j where j: "map_of (dirents (disk ?v)) p = Some j" by (auto simp: contents_def)
    then obtain q where "map_of (dirents (disk w)) q = Some j" using old by blast
    then show ?thesis using j v(2) by (intro exI [of _ q]) (simp add: contents_def)
  qed
  from assms(3) have "silent ?v w'"
  proof (induction rule: rtranclp_induct)
    case (step x y)
    then have "lg_file (logger x) = Some (ofp, i, False)" using v(1) silent_file by simp
    then show ?case using step dead_step silent_trans by blast
  qed simp
  then have sil: "lg_file (logger w') = lg_file (logger ?v)" "inodes (disk w') = inodes (disk ?v)" "std_out w' = std_out ?v"
      "\<And>p. contents (disk w') p \<noteq> None \<Longrightarrow> contents (disk w') p = contents (disk ?v) p"
    unfolding silent_def contents_def by auto
  have "\<exists>q. contents (disk w') p = contents (disk w) q" if "contents (disk w') p \<noteq> None" for p
    using files [of p] sil(4) [OF that] that by simp
  then show ?thesis using v sil(1-3) by simp
qed

lemma failed_open_silences_the_logger_witness:
  "let w = \<lparr>logger = (newLogger DefaultConfig)\<lparr>lg_file := Some (''gate.log'', 0, True)\<rparr>,
        disk = \<lparr>dirents = [(''gate.log'', 0)], inodes = (\<lambda>_. [])(0 := [''line'']), fresh = 1\<rparr>, std_out = [], std_err = []\<rparr>;
       v = trunc True False [] ''gate.log'' ''gate.log-2024010112'' w
   in inodes (disk (log_Error [] ''lost'' v)) 0 = [''line''] \<and> std_out (log_Error [] ''lost'' v) = []"
proof -
  let ?w = "\<lparr>logger = (newLogger DefaultConfig)\<lparr>lg_file := Some (''gate.log'', 0, True)\<rparr>,
        disk = \<lparr>dirents = [(''gate.log'', 0)], inodes = (\<lambda>_. [])(0 := [''line'']), fresh = 1\<rparr>, std_out = [], std_err = []\<rparr>"
  have "lg_file (logger ?w) = Some (''gate.log'', 0, True)" by simp
  from failed_open_silences_the_logger [OF this _ r_into_rtranclp [of log_step, OF log_step.error]]
  show ?thesis by (simp add: Let_def)
qed

end
