(* ===== verification/Startup.thy ===== *)
theory Startup
  imports Logger "HOL-Library.Monad_Syntax"
begin

text \<open>
  How a process finds and reads its configuration: \<open>base/conf/conf.go\<close>, \<open>gamesvr/sys.go\<close>, and what
  they use of \<open>base/util/util.go\<close>, with the two timers that file has.

  \<open>goconf\<close> is not part of the repository: a parsed file is the argument \<open>conf_reader\<close>, which fills
  each kind of struct from its defaults or fails. \<open>os.Stat\<close>, \<open>filepath.Abs\<close> and \<open>filepath.Dir\<close>
  depend on the machine and are arguments, too. \<open>None\<close> is the end of the process by \<open>logger.Fatal\<close>.
\<close>

section \<open>Names and files\<close>

definition path_end :: "string \<Rightarrow> string" where
  "path_end p = rev (takeWhile (\<lambda>c. c \<noteq> CHR ''/'') (rev p))"

definition filepath_Base :: "string \<Rightarrow> string" where
  "filepath_Base p =
     (if p = [] then ''.''
      else let b = path_end (rev (dropWhile (\<lambda>c. c = CHR ''/'') (rev p))) in if b = [] then ''/'' else b)"

definition filepath_Ext :: "string \<Rightarrow> string" where
  "filepath_Ext p =
     (let b = path_end p
      in if CHR ''.'' \<in> set b then CHR ''.'' # rev (takeWhile (\<lambda>c. c \<noteq> CHR ''.'') (rev b)) else [])"

definition TrimSuffix :: "string \<Rightarrow> string \<Rightarrow> string" where
  "TrimSuffix s suffix =
     (if HasPrefix (rev s) (rev suffix) then take (length s - length suffix) s else s)"

definition GetAppName :: "string \<Rightarrow> string" where
  "GetAppName arg0 = TrimSuffix (filepath_Base arg0) (filepath_Ext arg0)"

definition GetAppPath :: "(string \<Rightarrow> string option) \<Rightarrow> (string \<Rightarrow> string) \<Rightarrow> string \<Rightarrow> string" where
  "GetAppPath abs_path dir_of arg0 = (case abs_path arg0 of None \<Rightarrow> ''.'' | Some fp \<Rightarrow> dir_of fp)"

datatype stat_result = StatOk | StatIsExist | StatError

definition Exists :: "(string \<Rightarrow> stat_result) \<Rightarrow> string \<Rightarrow> bool" where
  "Exists stat path = (case stat path of StatOk \<Rightarrow> True | StatIsExist \<Rightarrow> True | StatError \<Rightarrow> False)"

section \<open>Timers\<close>

text \<open>
  How often \<open>TimeIntervalCount\<close> has called its function after a number of ticks; \<open>TimeInterval\<close>
  calls it at every tick. The counter is a \<open>uint32\<close>, for which \<open>count <= 0\<close> is \<open>count == 0\<close>.
\<close>

fun interval_calls :: "nat \<Rightarrow> u32 \<Rightarrow> nat" where
  "interval_calls 0 count = 0"
| "interval_calls (Suc ticks) count =
     (let count = count - 1 in if count \<le> 0 then 1 else Suc (interval_calls ticks count))"

lemma interval_calls_count: "count \<noteq> 0 \<Longrightarrow> interval_calls ticks count = min ticks (unat count)"
proof (induction ticks count rule: interval_calls.induct)
  case (2 ticks count)
  have u: "unat (count - 1) = unat count - 1" "0 < unat count"
    using 2(2) by (simp_all add: unat_minus_one unat_gt_0)
  show ?case
  proof (cases "count - 1 = 0")
    case True
    then have "unat count = 1" using u by simp
    then show ?thesis using True by simp
  next
    case False
    then show ?thesis using 2(1) [OF refl] u by (auto simp: Let_def min_def)
  qed
qed simp

text \<open>A count of zero wraps around.\<close>

lemma interval_calls_zero: "interval_calls ticks 0 = min ticks (2 ^ 32)"
proof (cases ticks)
  case (Suc t)
  have "interval_calls t (- 1) = min t (unat (- 1 :: u32))" by (rule interval_calls_count) simp
  moreover have "unat (- 1 :: u32) = 2 ^ 32 - 1" by (simp add: unsigned_minus_1_eq_mask mask_eq_exp_minus_1)
  ultimately show ?thesis using Suc by (simp add: min_def)
qed simp

section \<open>The configuration\<close>

record BaseConfig =
  ZoneID :: int
  ServerID :: int
  GameData :: string

record RedisConfig =
  RedisMaxIdle :: int
  RedisIdleTimeout :: int
  ZoneRedisAddr :: string
  ZoneRedisAuth :: string
  ZoneRedisIndex :: int
  CrossRedisAddr :: string
  CrossRedisAuth :: string
  CrossRedisIndex :: int

record GameServerConfig =
  gs_base :: BaseConfig
  gs_redis :: RedisConfig
  gs_ServerID :: int

record RouterConfig =
  rt_base :: BaseConfig
  PortalAddr :: u16
  ServerAddr :: u16

record GameGateConfig =
  gg_base :: BaseConfig
  gg_redis :: RedisConfig
  gg_ListenPort :: u16
  RouterAddrs :: "string list"
  CrossRouterAddrs :: "string list"

record TeamConfig =
  tm_base :: BaseConfig
  tm_ServerID :: int
  tm_ListenPort :: u16

record IMConfig =
  im_base :: BaseConfig
  im_redis :: RedisConfig
  im_ServerID :: int
  im_ListenPort :: u16

record configs =
  logCfg :: log_config
  gameServerCfg :: GameServerConfig
  routerCfg :: RouterConfig
  gameGateCfg :: GameGateConfig
  teamCfg :: TeamConfig
  imCfg :: IMConfig

definition no_base :: BaseConfig where "no_base = \<lparr>ZoneID = 0, ServerID = 0, GameData = []\<rparr>"

definition no_redis :: RedisConfig where
  "no_redis = \<lparr>RedisMaxIdle = 0, RedisIdleTimeout = 0, ZoneRedisAddr = [], ZoneRedisAuth = [], ZoneRedisIndex = 0,
     CrossRedisAddr = [], CrossRedisAuth = [], CrossRedisIndex = 0\<rparr>"

definition configs_start :: configs where
  "configs_start = \<lparr>logCfg = DefaultConfig,
     gameServerCfg = \<lparr>gs_base = no_base, gs_redis = no_redis, gs_ServerID = 1301\<rparr>,
     routerCfg = \<lparr>rt_base = no_base, PortalAddr = 8801, ServerAddr = 8802\<rparr>,
     gameGateCfg = \<lparr>gg_base = no_base, gg_redis = no_redis, gg_ListenPort = 8201, RouterAddrs = [''127.0.0.1:8801''],
       CrossRouterAddrs = []\<rparr>,
     teamCfg = \<lparr>tm_base = no_base, tm_ServerID = 1601, tm_ListenPort = 8601\<rparr>,
     imCfg = \<lparr>im_base = no_base, im_redis = no_redis, im_ServerID = 1901, im_ListenPort = 8901\<rparr>\<rparr>"

record conf_reader =
  read_base :: "BaseConfig \<Rightarrow> BaseConfig option"
  read_log :: "log_config \<Rightarrow> log_config option"
  read_redis :: "RedisConfig \<Rightarrow> RedisConfig option"
  read_gate :: "GameGateConfig \<Rightarrow> GameGateConfig option"
  read_game :: "GameServerConfig \<Rightarrow> GameServerConfig option"
  read_router :: "RouterConfig \<Rightarrow> RouterConfig option"
  read_im :: "IMConfig \<Rightarrow> IMConfig option"

definition default_base :: BaseConfig where
  "default_base = \<lparr>ZoneID = 1, ServerID = 0, GameData = ''./data''\<rparr>"

definition default_redis :: RedisConfig where
  "default_redis = \<lparr>RedisMaxIdle = 10, RedisIdleTimeout = 240 * 10 ^ 9, ZoneRedisAddr = ''127.0.0.1:6379'',
     ZoneRedisAuth = ''123456'', ZoneRedisIndex = 0, CrossRedisAddr = ''127.0.0.1:6379'', CrossRedisAuth = ''123456'',
     CrossRedisIndex = 8\<rparr>"

text \<open>\<open>file\<close>: the parsed file, or \<open>None\<close> where \<open>Parse\<close> fails.\<close>

definition loadConfig :: "conf_reader option \<Rightarrow> configs \<Rightarrow> configs option" where
  "loadConfig file c =
     do { gconf \<leftarrow> file;
          baseCfg \<leftarrow> read_base gconf default_base;
          log \<leftarrow> read_log gconf (logCfg c);
          redisCfg \<leftarrow> read_redis gconf default_redis;
          gate \<leftarrow> read_gate gconf (gameGateCfg c);
          game \<leftarrow> read_game gconf (gameServerCfg c);
          router \<leftarrow> read_router gconf (routerCfg c);
          im \<leftarrow> read_im gconf (imCfg c);
          Some (c\<lparr>logCfg := log,
                   gameGateCfg := gate\<lparr>gg_base := baseCfg, gg_redis := redisCfg\<rparr>,
                   gameServerCfg := game\<lparr>gs_base := baseCfg, gs_redis := redisCfg\<rparr>,
                   routerCfg := router\<lparr>rt_base := baseCfg\<rparr>,
                   imCfg := im\<lparr>im_base := baseCfg\<rparr>\<rparr>) }"

text \<open>Where \<open>init\<close> looks for the file: the flag, the working directory, the user's, the program's.\<close>

definition find_conf :: "(string \<Rightarrow> stat_result) \<Rightarrow> string \<Rightarrow> string \<Rightarrow> string \<Rightarrow> string \<Rightarrow> string" where
  "find_conf stat flag app user_dir app_dir =
     (if flag \<noteq> [] then flag
      else let fileName = app @ ''.conf'' in
        if Exists stat fileName then fileName
        else let fp = user_dir @ ''/'' @ fileName in
          if Exists stat fp then fp
          else let fp = app_dir @ ''/'' @ fileName in if Exists stat fp then fp else [])"

definition conf_init ::
  "(string \<Rightarrow> stat_result) \<Rightarrow> (string \<Rightarrow> conf_reader option) \<Rightarrow> string \<Rightarrow> string \<Rightarrow> string \<Rightarrow> string \<Rightarrow> configs \<Rightarrow> configs option" where
  "conf_init stat read_file flag app user_dir app_dir c =
     (let confFile = find_conf stat flag app user_dir app_dir
      in if confFile = [] then Some c
         else if \<not> Exists stat confFile then None
         else loadConfig (read_file confFile) c)"

text \<open>The whole \<open>init\<close>, with the logger configured at its end.\<close>

definition conf_init_all ::
  "(string \<Rightarrow> stat_result) \<Rightarrow> (string \<Rightarrow> conf_reader option) \<Rightarrow> string \<Rightarrow> string \<Rightarrow> string \<Rightarrow> string
   \<Rightarrow> bool \<Rightarrow> bool \<Rightarrow> bool \<Rightarrow> string \<Rightarrow> configs \<Rightarrow> bool \<times> log_world \<Rightarrow> (configs \<times> bool \<times> log_world) option" where
  "conf_init_all stat read_file flag app user_dir app_dir dir_exists mkdir_ok open_ok hdr c lw =
     do { c \<leftarrow> conf_init stat read_file flag app user_dir app_dir c;
          lw \<leftarrow> ReloadConfig dir_exists mkdir_ok open_ok hdr app (logCfg c) lw;
          Some (c, lw) }"

text \<open>A process that has logged nothing before has no log file after it, whatever path is configured.\<close>

lemma configured_process_has_no_log_file:
  "conf_init_all stat rd flag app u a d m op hdr c (True, w) = Some (c', nil, w') \<Longrightarrow> lg_file (logger w') = None"
  by (auto simp: conf_init_all_def first_ReloadConfig_opens_no_file split: bind_splits)

text \<open>All servers of a zone share one base and one Redis configuration; the team server gets neither.\<close>

lemma loadConfig_shares:
  assumes "loadConfig file c = Some d"
  shows "gg_base (gameGateCfg d) = rt_base (routerCfg d)" "gs_base (gameServerCfg d) = rt_base (routerCfg d)"
    "im_base (imCfg d) = rt_base (routerCfg d)" "gg_redis (gameGateCfg d) = gs_redis (gameServerCfg d)"
    "teamCfg d = teamCfg c"
  using assms by (auto simp: loadConfig_def split: bind_splits)

lemma conf_flag_must_exist:
  "flag \<noteq> [] \<Longrightarrow> \<not> Exists stat flag \<Longrightarrow> conf_init stat rd flag app u a c = None"
  by (simp add: conf_init_def find_conf_def)

lemma no_conf_keeps_defaults:
  assumes "\<not> Exists stat (app @ ''.conf'')" "\<not> Exists stat (u @ ''/'' @ app @ ''.conf'')" "\<not> Exists stat (a @ ''/'' @ app @ ''.conf'')"
  shows "conf_init stat rd [] app u a c = Some c"
  using assms by (simp add: conf_init_def find_conf_def)

section \<open>The game server\<close>

record game_config =
  gc_ZoneID :: int
  gc_ServerID :: int
  gc_GameData :: string
  gc_LogPath :: string
  gc_LogLevel :: int

definition game_default :: game_config where
  "game_default = \<lparr>gc_ZoneID = 1, gc_ServerID = 1, gc_GameData = ''./data'', gc_LogPath = ''./gamesvr.log'', gc_LogLevel = 3\<rparr>"

text \<open>Relative paths are taken from the program's directory; on an error \<open>filepath.Abs\<close> gives nothing.\<close>

definition absolute :: "(string \<Rightarrow> bool) \<Rightarrow> (string \<Rightarrow> string option) \<Rightarrow> string \<Rightarrow> string \<Rightarrow> string" where
  "absolute is_abs abs_path app_dir p =
     (if is_abs p then p else case abs_path (app_dir @ ''/'' @ p) of Some q \<Rightarrow> q | None \<Rightarrow> [])"

definition game_loadConfig ::
  "(string \<Rightarrow> bool) \<Rightarrow> (string \<Rightarrow> string option) \<Rightarrow> string \<Rightarrow> (game_config \<Rightarrow> game_config option) option \<Rightarrow> game_config option" where
  "game_loadConfig is_abs abs_path app_dir file =
     do { read \<leftarrow> file;
          cfg \<leftarrow> read game_default;
          let cfg = cfg\<lparr>gc_GameData := absolute is_abs abs_path app_dir (gc_GameData cfg)\<rparr>;
          Some (cfg\<lparr>gc_LogPath := absolute is_abs abs_path app_dir (gc_LogPath cfg)\<rparr>) }"

definition game_conf_file :: "(string \<Rightarrow> stat_result) \<Rightarrow> (string \<Rightarrow> string option) \<Rightarrow> string \<Rightarrow> string \<Rightarrow> string \<Rightarrow> string" where
  "game_conf_file stat abs_path flag app app_dir =
     (if flag \<noteq> [] then flag
      else let fp = (case abs_path (app_dir @ ''/../etc'') of Some q \<Rightarrow> q | None \<Rightarrow> []);
               fp = (if Exists stat fp then fp else app_dir)
           in fp @ ''/'' @ app @ ''.conf'')"

definition InitCfg ::
  "(string \<Rightarrow> stat_result) \<Rightarrow> (string \<Rightarrow> bool) \<Rightarrow> (string \<Rightarrow> string option) \<Rightarrow> string \<Rightarrow> string \<Rightarrow> string
   \<Rightarrow> (string \<Rightarrow> (game_config \<Rightarrow> game_config option) option) \<Rightarrow> game_config option" where
  "InitCfg stat is_abs abs_path flag app app_dir read_file =
     game_loadConfig is_abs abs_path app_dir (read_file (game_conf_file stat abs_path flag app app_dir))"

section \<open>The game server\<close>

text \<open>
  The game server of the repository is a frame: its methods log, and \<open>MainLoop\<close> waits for the first
  signal of any kind. A log line ends at the line feed \<open>Destroy\<close> has in its message.
\<close>

definition game_Reload :: "string \<Rightarrow> bool \<times> log_world \<Rightarrow> bool \<times> log_world" where
  "game_Reload hdr = Info hdr ''Reload csv files''"

definition game_Init :: "string \<Rightarrow> bool \<times> log_world \<Rightarrow> bool \<times> log_world" where
  "game_Init hdr lw = game_Reload hdr (Info hdr ''=============== Server start ==============='' lw)"

definition game_Destroy :: "string \<Rightarrow> bool \<times> log_world \<Rightarrow> bool \<times> log_world" where
  "game_Destroy hdr = Info hdr (''=============== Server stop ==============='' @ [CHR 0x0A])"

definition game_ReportState :: "string \<Rightarrow> bool \<times> log_world \<Rightarrow> bool \<times> log_world" where
  "game_ReportState hdr = Info hdr ''ReportState''"

definition game_MainLoop :: "'signal list \<Rightarrow> 'signal list option" where
  "game_MainLoop sigs = (case sigs of [] \<Rightarrow> None | _ # rest \<Rightarrow> Some rest)"

text \<open>A game server without a configured logger starts with two lines on the standard output.\<close>

lemma game_server_logs_to_the_console:
  "std_out (snd (game_Init hdr (True, w)))
     = std_out w @ [log_prefix LogLevel_Info @ hdr @ ''=============== Server start ==============='',
                    log_prefix LogLevel_Info @ hdr @ ''Reload csv files'']"
  by (simp add: game_Init_def game_Reload_def Info_def on_logger_def Logger_get_def log_Info_def doPrintln_def
      log_output_def newLogger_def DefaultConfig_def log_levels)

end
