(* ===== verification/RedisInit.thy ===== *)
theory RedisInit
  imports RedisPool Startup
begin

text \<open>
  \<open>InitRedis\<close> of \<open>base/dao/redis/redis.go\<close>: the two pools, of the zone and of the cross server, as
  the configuration of the gate has them. A pool is what \<open>redigo\<close> is told: how many connections may
  be idle and how long (a \<open>time.Duration\<close>, 64 bits of nanoseconds), how to dial, and how to check.
\<close>

record redis_pool =
  MaxIdle :: int
  IdleTimeout :: "64 word"
  Dial :: "(string \<Rightarrow> bool) \<Rightarrow> (redis_command \<Rightarrow> bool) \<Rightarrow> bool \<times> dialled option"
  Test :: "(redis_command \<Rightarrow> bool) \<Rightarrow> nat \<Rightarrow> bool"

text \<open>\<open>time.Duration(n) * time.Second\<close>, which wraps.\<close>

definition seconds :: "int \<Rightarrow> 64 word" where
  "seconds n = word_of_int n * 1000000000"

definition zone_pool :: "RedisConfig \<Rightarrow> redis_pool" where
  "zone_pool config =
     \<lparr>MaxIdle = RedisMaxIdle config, IdleTimeout = seconds (RedisIdleTimeout config),
      Dial = (\<lambda>dial reply. pool_Dial dial reply (ZoneRedisAddr config) (ZoneRedisAuth config) (ZoneRedisIndex config)),
      Test = TestOnBorrow\<rparr>"

definition cross_pool :: "RedisConfig \<Rightarrow> redis_pool" where
  "cross_pool config =
     \<lparr>MaxIdle = RedisMaxIdle config, IdleTimeout = seconds (RedisIdleTimeout config),
      Dial = (\<lambda>dial reply. pool_Dial dial reply (CrossRedisAddr config) (CrossRedisAuth config) (CrossRedisIndex config)),
      Test = TestOnBorrow\<rparr>"

definition InitRedis :: "configs \<Rightarrow> redis_pool \<times> redis_pool" where
  "InitRedis c = (let config = gg_redis (gameGateCfg c) in (zone_pool config, cross_pool config))"

lemmas InitRedis_defs = InitRedis_def zone_pool_def cross_pool_def Let_def

text \<open>
  Every process takes the gate's configuration. After \<open>loadConfig\<close> that is no other than the game
  server's.
\<close>

lemma pools_of_the_zone:
  assumes "loadConfig file c = Some d"
  shows "InitRedis d = (zone_pool (gs_redis (gameServerCfg d)), cross_pool (gs_redis (gameServerCfg d)))"
  using loadConfig_shares(4) [OF assms] by (simp add: InitRedis_def Let_def)

text \<open>
  A timeout of up to 292 years is taken for the seconds it is. The default of the configuration is
  written in nanoseconds, however: in seconds it does not fit, and the idle timeout is one of six
  years instead of four minutes.
\<close>

lemma seconds_exact:
  assumes "0 \<le> n" and "n \<le> 9223372036"
  shows "sint (seconds n) = n * 1000000000"
proof -
  have "sint (word_of_int (n * 1000000000) :: 64 word) = n * 1000000000"
    unfolding sint_sbintrunc' using assms by (intro signed_take_bit_int_eq_self) simp_all
  then show ?thesis by (simp add: seconds_def)
qed

lemma default_idle_timeout_wraps:
  "sint (IdleTimeout (zone_pool default_redis)) = 192327041775828992"
  "sint (IdleTimeout (zone_pool default_redis)) div (1000000000 * 60 * 60 * 24 * 365) = 6"
  by (simp_all add: zone_pool_def default_redis_def seconds_def)

text \<open>By default the zone's pool logs in and stays with database 0, and the cross server's chooses 8.\<close>

lemma default_dials:
  "Dial (zone_pool default_redis) (\<lambda>_. True) (\<lambda>_. True) = (True, Some \<lparr>issued = [AUTH ''123456''], conn_open = True\<rparr>)"
  "Dial (cross_pool default_redis) (\<lambda>_. True) (\<lambda>_. True)
     = (True, Some \<lparr>issued = [AUTH ''123456'', SELECT 8], conn_open = True\<rparr>)"
  by (simp_all add: zone_pool_def cross_pool_def default_redis_def pool_Dial_def)

end
