(* ===== verification/Spec2Isabelle.thy ===== *)
theory Spec2Isabelle
  imports ErrCodes Messages Connection EventLoop DefaultCodec TcpServer GateRun Session HashRing Processor RouterProps GateProps RedisMutex CsvTable CsvLoad ProtoGen EndToEnd RouterProcess RouterRun GateServer RedisInit Logger
begin

text \<open>
  A verification library for the gogame server (Go).

  The program. gogame is the frame of a game cluster. Players connect to a gate (\<open>gamegate/\<close>), which
  logs them in against tokens kept in Redis and forwards their messages: to game and team servers
  through routers (\<open>router/\<close>), to chat (IM) servers directly. Gates ("portals") connect to one
  listener of a router and game and team servers to the other; a router keeps who is registered
  under which id, forwards messages between the two sides, and tells every portal which servers
  there are. The game server (\<open>gamesvr/\<close>) is only begun. Beneath lie a network layer
  (\<open>base/network/\<close>), an event loop (\<open>base/eventloop/\<close>), services, a logger, the configuration and the
  access to Redis (\<open>base/\<close>), message formats and their registry (\<open>protocol/\<close>), and two loaders of CSV
  files (\<open>base/csvtable/\<close>, \<open>common/csvparse/\<close>).

  How code is modelled. A struct is a record, an operation a function on the state it works on, with
  the names of the source as far as Isabelle has them free. A panic is a value: \<open>Panic\<close> of an
  \<open>outcome\<close>, \<open>Crash\<close> of a \<open>res\<close>, or \<open>None\<close>; so is an error. Integers of the wire are words of their width.
  Go maps are association lists with distinct keys, whose order stands for the order of a \<open>range\<close>, so
  that what is proved holds for every order. Objects shared by address are in heaps (lists or
  functions from numbers). A goroutine is a program counter; what it does while it holds its mutex is
  one function, and an inductive relation (\<open>conn_step\<close>, \<open>ev_step\<close>, \<open>srv_step\<close>, \<open>cli_step\<close>, \<open>im_run_step\<close>,
  \<open>rr_step\<close>, \<open>service_step\<close>, \<open>rp_step\<close>, \<open>mutex_step\<close>, \<open>log_step\<close>) interleaves these functions with what others
  do, and with whatever errors the sockets may have. Fields said to be bookkeeping record what
  has happened and are read by no operation.
\<close>

section \<open>The network layer\<close>

text \<open>
  \<open>Packet\<close> is \<open>Packet\<close> of \<open>protocol/packet.go\<close>, every reader and writer. The locales \<open>wire_codec\<close> and
  \<open>fixed_codec\<close> are the contract of a reader and a writer that belong together; each pair of the
  code is an interpretation. From them: any sequence of writers is read back, and on arbitrary bytes
  no reader leaves the packet. \<open>Messages\<close> has the three messages of the same file, with the locale
  \<open>message_format\<close> for marshalling and unmarshalling.

  \<open>Framing\<close> is the session codec (\<open>base/network/session/codec.go\<close>) and the read loop, which is a
  \<open>partial_function\<close>, since an arbitrary codec may keep it running; for the session codec it
  ends on every stream. The locale \<open>framing\<close> is what the loop needs. \<open>DefaultCodec\<close> is the codec of
  \<open>base/network/codec.go\<close>, with the filling of \<open>bufio\<close>'s buffer; 100 empty reads in a row, the bound
  of \<open>bufio\<close>, are an error.

  \<open>Connection\<close> is \<open>TCPConnection\<close>: \<open>Send\<close>, \<open>Shutdown\<close> and the background writer. \<open>EventLoop\<close> is
  \<open>base/eventloop/\<close>, its timers and tickers included. Both keep the contract \<open>drain\<close> of \<open>Drain\<close> (what
  was posted is what is finished, in flight and pending, in this order), and from it follow
  delivery in order and that handlers never overlap. That they end when they are asked to is the
  contract \<open>winding_down\<close> of \<open>Winding\<close>: a measure goes down with each step of the goroutine and is
  not raised by others, so every fair run ends. \<open>TcpServer\<close> and \<open>TcpClient\<close> keep it, too; their states
  have the sockets the process holds open, for the properties on leaks.

  \<open>Session\<close> is \<open>base/network/session/\<close>: the receive limit, the deadline of verification, the proxy.
  \<open>Serve\<close> is \<open>TCPConnection.serve\<close> for a handler of one's choice (\<open>tcp_handler\<close>), with deferred calls and
  recovered panics; the locale \<open>conn_state\<close> is how the connection lies in the state of the handler.
\<close>

section \<open>The router and the gate\<close>

text \<open>
  \<open>Common\<close> and \<open>ErrCodes\<close> hold the constants, the error codes and their texts; \<open>Processor\<close> is the
  registry of message types (\<open>protocol/protobuf.go\<close> and the generated \<open>protoFactory.go\<close>).

  \<open>RouterServer\<close> has the handlers of \<open>router/\<close> as functions on the heap of sessions and clients and
  the three registries, which are interpretations of the locale \<open>client_registry\<close>. \<open>RouterSync\<close> makes it
  a system, \<open>router_step\<close>, with an invariant, and says what a portal knows that follows the
  synchronisation messages (\<open>view\<close>). \<open>RouterProps\<close>: a portal always knows the registered servers;
  registries and sessions agree; forwarding reaches the addressees and nobody else; unverified
  sessions are inert. \<open>RouterProcess\<close> puts the process together, listeners, loop and timer, and
  proves that it only does steps of \<open>router_step\<close>.

  The gate's state is in \<open>GateClients\<close> (\<open>gamegate/client.go\<close>), continued in \<open>GateRouters\<close>
  (\<open>router.go\<close>), \<open>GateIM\<close> (\<open>imclient.go\<close>) and \<open>GateLogin\<close> (the messages of a player). \<open>GateProps\<close>: a login
  needs the token; every account has a chat server. \<open>GateRun\<close> and \<open>RouterRun\<close> are the goroutines
  that keep a chat server and a router connected, over \<open>TcpClient\<close>. \<open>GateServer\<close> is the process
  (\<open>server.go\<close>): it starts the managers and refreshes the lists; no two routers ever have one address.
  The rounds of \<open>register\<close>, which may go on for ever, are counted by fuel (\<open>router_register\<close>): the
  properties hold for any number of rounds, or need two.

  \<open>EndToEnd\<close> composes the two programs through the codec. The bytes a router has accepted for
  a portal, read by the gate's connection, make the gate route exactly the registered servers; what
  a portal writes reaches the loop of the router, message by message. It also shows where the
  composition fails: the second registration that \<open>register\<close> sends makes the router close the
  session it came from, and no player gets past the first message.
\<close>

section \<open>What the servers use\<close>

text \<open>
  \<open>HashRing\<close> is \<open>base/util/hashring.go\<close> for an arbitrary digest: \<open>GetNode\<close> is equivalent to the least
  virtual key clockwise; with equal weights, adding and removing a node moves no string between
  other nodes. \<open>RedisMutex\<close> is the lock of \<open>base/dao/redis/redismutex.go\<close>, with its 150 tries and 5
  retries as in the code, for an arbitrary Redis (\<open>redis_ok\<close> is what is relied on); \<open>RedisPool\<close> and
  \<open>RedisInit\<close> are the rest of \<open>base/dao/redis/\<close>. \<open>Logger\<close> is \<open>base/logger/\<close> on a small file system, \<open>Service\<close>
  \<open>base/service/service.go\<close>, \<open>Startup\<close> the configuration (\<open>base/conf/conf.go\<close>, \<open>gamesvr/sys.go\<close>) with the
  helpers of \<open>base/util/util.go\<close> and the methods of the game server.

  \<open>GoStrings\<close> and \<open>GoReflect\<close> are what the CSV loaders and the generator use of Go's \<open>strings\<close>, \<open>strconv\<close>
  and \<open>reflect\<close>. \<open>CsvTable\<close> (\<open>base/csvtable/table.go\<close>) refines a finite map from the first column to
  rows; \<open>CsvTypes\<close> (\<open>common/csvparse/types.go\<close>) reads back the cells it prints; \<open>CsvLoad\<close>
  (\<open>loadCSV.go\<close>) always leaves a value of the type behind, and its nested maps refine one flat map
  from key tuples to rows. \<open>ProtoGen\<close> is the generator of message ids (\<open>protocol/cmd/main.go\<close>): ids are
  stable when it runs again, and unique as long as the 16-bit counter does not run over.
\<close>

section \<open>What is not modelled\<close>

text \<open>
  The entry points \<open>main.go\<close> of the three programs only call \<open>service.Run\<close>. Code that is not in the
  repository is an argument of the definitions that use it: the protobuf messages and their
  coding (\<open>pb_encode\<close>, \<open>decode_sync\<close> and others; \<open>pb_faithful\<close> says that decoding inverts encoding), goconf
  (\<open>conf_reader\<close>), redigo, JSON, MD5 and RC4, the operating system (files, sockets, the clock), and the
  parser of Go files. Logging inside the other components is left out, and so are the texts of log
  lines except in \<open>Logger\<close> and in the messages of the game server. \<open>filepath.Walk\<close> and \<open>csv.Reader\<close> are
  given by their results; embedded structs, floating-point NaN as a map key and letters outside
  ASCII are left out of the CSV loaders. Data races are not modelled: what the code does without its
  mutex is taken to happen at one point in time. The instances that \<open>GetMe\<close> functions create on first
  use are part of the initial states.
\<close>

end
